(* ===== verification/Prelude.thy ===== *)
theory Prelude
  imports Main "HOL-Library.Word"
begin

text \<open>
  Shared vocabulary of the development: the faults a C++ operation can end in, the result type of
  an operation that may fault, the clock types of \<open>std::chrono\<close>, and the collections of
  simplification rules the component theories fill.

  Faults are values: an operation that dereferences a null pointer, fails an \<open>assert\<close> or builds a
  \<open>std::string\<close> from a null \<open>char*\<close>, reads a variable that was never written, leaves an array or lets an exception of the
  standard library escape ends in \<open>Inl\<close>; every other outcome is \<open>Inr\<close>. An \<open>assert\<close> only exists
  in builds without \<open>NDEBUG\<close>, so operations that contain one take the build flag \<open>dbg\<close>.
\<close>

named_theorems set_simps "what find returns after each operation of an ordered container"
named_theorems ok_intros "operations keep the well-formedness of what they are applied to"
named_theorems item_defs "definitions of the small operations on discovery items"

datatype fault =
    Assertion_Failed
  | Null_Dereference
  | Null_String
  | Indeterminate_Value
  | Uncaught_Exception
  | Invalid_Access

type_synonym 'a run = "fault + 'a"

definition assert_run :: "bool \<Rightarrow> bool \<Rightarrow> 'a \<Rightarrow> 'a run" where
  "assert_run dbg b x = (if dbg \<and> \<not> b then Inl Assertion_Failed else Inr x)"

lemma assert_run_Inr [simp]:
  "assert_run dbg b x = Inr y \<longleftrightarrow> (dbg \<longrightarrow> b) \<and> x = y"
  by (auto simp: assert_run_def)

lemma assert_run_Inl [simp]:
  "assert_run dbg b x = Inl e \<longleftrightarrow> dbg \<and> \<not> b \<and> e = Assertion_Failed"
  by (auto simp: assert_run_def)

lemma assert_run_release [simp]: "assert_run False b x = Inr x"
  by (simp add: assert_run_def)

lemma assert_run_holds [simp]: "b \<Longrightarrow> assert_run dbg b x = Inr x"
  by (simp add: assert_run_def)

text \<open>Sequencing: a fault ends the operation.\<close>

definition bind_run :: "'a run \<Rightarrow> ('a \<Rightarrow> 'b run) \<Rightarrow> 'b run" where
  "bind_run r f = (case r of Inl e \<Rightarrow> Inl e | Inr x \<Rightarrow> f x)"

lemma bind_run_simps [simp]: "bind_run (Inl e) f = Inl e" "bind_run (Inr x) f = f x"
  by (simp_all add: bind_run_def)

lemma bind_run_Inr_iff: "bind_run r f = Inr y \<longleftrightarrow> (\<exists>x. r = Inr x \<and> f x = Inr y)"
  by (cases r) auto

fun fold_run :: "('a \<Rightarrow> 's \<Rightarrow> 's run) \<Rightarrow> 'a list \<Rightarrow> 's \<Rightarrow> 's run" where
  "fold_run f [] s = Inr s"
| "fold_run f (x # xs) s = bind_run (f x s) (fold_run f xs)"

lemma fold_run_append: "fold_run f (xs @ ys) s = bind_run (fold_run f xs s) (fold_run f ys)"
proof (induction xs arbitrary: s)
  case (Cons x xs)
  then show ?case by (cases "f x s") auto
qed simp

lemma fold_run_Inr: "(\<And>x s. x \<in> set xs \<Longrightarrow> f x s = Inr (g x s)) \<Longrightarrow> fold_run f xs s = Inr (fold g xs s)"
  by (induction xs arbitrary: s) auto

text \<open>\<open>std::string (const char*)\<close> on a pointer a library call returned.\<close>

definition std_string :: "string option \<Rightarrow> string run" where
  "std_string p = (case p of None \<Rightarrow> Inl Null_String | Some t \<Rightarrow> Inr t)"

lemma std_string_simps [simp]: "std_string None = Inl Null_String" "std_string (Some t) = Inr t"
  by (simp_all add: std_string_def)

text \<open>
  A \<open>std::chrono\<close> time point or duration is a signed count of clock ticks (nanoseconds for both
  clocks the program uses); \<open>duration_cast<milliseconds>\<close> divides by a million and truncates
  towards zero.
\<close>

type_synonym time_point = int
type_synonym duration = int
type_synonym milliseconds = int
type_synonym int32 = "32 word"

definition duration_cast_ms :: "duration \<Rightarrow> milliseconds" where
  "duration_cast_ms d = sgn d * (\<bar>d\<bar> div 1000000)"

definition of_ms :: "milliseconds \<Rightarrow> duration" where
  "of_ms m = m * 1000000"

lemma duration_cast_of_ms [simp]: "duration_cast_ms (of_ms m) = m"
proof (cases "m < 0")
  case True
  then show ?thesis by (simp add: duration_cast_ms_def of_ms_def abs_mult sgn_mult)
next
  case False
  then show ?thesis by (cases "m = 0") (auto simp: duration_cast_ms_def of_ms_def abs_mult sgn_mult)
qed

lemma duration_cast_ms_minus: "duration_cast_ms (- d) = - duration_cast_ms d"
  by (simp add: duration_cast_ms_def)

lemma duration_cast_ms_nonneg: "0 \<le> d \<Longrightarrow> duration_cast_ms d = d div 1000000"
  by (cases "d = 0") (auto simp: duration_cast_ms_def)

end
