(* ===== verification/Std_Set.thy ===== *)
theory Std_Set
  imports Prelude
begin

text \<open>
  \<open>std::set\<close> as the program uses it: a sequence of elements in strictly ascending order of a key,
  searched with \<open>std::lower_bound\<close>, grown with \<open>emplace\<close> and \<open>emplace_hint\<close> (which keep an element
  of equivalent key), shrunk with \<open>erase\<close>, and edited in place through a \<open>const_cast\<close> of an
  iterator. An iterator is the index of its element and the end iterator is the length.

  The locale \<open>keyed_set\<close> is the contract the clients rely on, in terms of what \<open>find\<close> returns;
  \<open>std_set\<close> interprets it on the list model, for any key.
\<close>

section \<open>The list model\<close>

definition std_ok :: "('a \<Rightarrow> 'g::linorder) \<Rightarrow> 'a list \<Rightarrow> bool" where
  "std_ok key xs \<longleftrightarrow> sorted_wrt (\<lambda>x y. key x < key y) xs"

definition std_lower_bound :: "('a \<Rightarrow> 'g::linorder) \<Rightarrow> 'a list \<Rightarrow> 'g \<Rightarrow> nat" where
  "std_lower_bound key xs g = length (takeWhile (\<lambda>x. key x < g) xs)"

definition std_find :: "('a \<Rightarrow> 'g::linorder) \<Rightarrow> 'a list \<Rightarrow> 'g \<Rightarrow> 'a option" where
  "std_find key xs g = List.find (\<lambda>x. key x = g) xs"

definition std_absent :: "('a \<Rightarrow> 'g::linorder) \<Rightarrow> 'a list \<Rightarrow> nat \<Rightarrow> 'g \<Rightarrow> bool" where
  "std_absent key xs it g \<longleftrightarrow> it = length xs \<or> key (xs ! it) \<noteq> g"

definition std_emplace :: "('a \<Rightarrow> 'g::linorder) \<Rightarrow> 'a \<Rightarrow> 'a list \<Rightarrow> nat \<times> 'a list" where
  "std_emplace key x xs =
     (let it = std_lower_bound key xs (key x)
      in (it, if std_absent key xs it (key x) then take it xs @ x # drop it xs else xs))"

definition std_erase_at :: "nat \<Rightarrow> 'a list \<Rightarrow> 'a list" where
  "std_erase_at it xs = take it xs @ drop (Suc it) xs"

definition std_erase_key :: "('a \<Rightarrow> 'g::linorder) \<Rightarrow> 'g \<Rightarrow> 'a list \<Rightarrow> nat \<times> 'a list" where
  "std_erase_key key g xs =
     (length (filter (\<lambda>x. key x = g) xs), filter (\<lambda>x. key x \<noteq> g) xs)"

text \<open>The same operations as functions of a key, the form in which clients reason about them.\<close>

definition std_put :: "('a \<Rightarrow> 'g::linorder) \<Rightarrow> 'a \<Rightarrow> 'a list \<Rightarrow> 'a list" where
  "std_put key x xs = snd (std_emplace key x xs)"

definition std_alter :: "('a \<Rightarrow> 'g::linorder) \<Rightarrow> 'g \<Rightarrow> ('a \<Rightarrow> 'a) \<Rightarrow> 'a list \<Rightarrow> 'a list" where
  "std_alter key g f xs =
     (let it = std_lower_bound key xs g
      in if std_absent key xs it g then xs else xs[it := f (xs ! it)])"

definition std_remove :: "('a \<Rightarrow> 'g::linorder) \<Rightarrow> 'g \<Rightarrow> 'a list \<Rightarrow> 'a list" where
  "std_remove key g xs =
     (let it = std_lower_bound key xs g
      in if std_absent key xs it g then xs else std_erase_at it xs)"

subsection \<open>Recursive equations\<close>

lemma std_ok_Nil [simp]: "std_ok key []"
  by (simp add: std_ok_def)

lemma std_ok_Cons [simp]:
  "std_ok key (x # xs) \<longleftrightarrow> (\<forall>y\<in>set xs. key x < key y) \<and> std_ok key xs"
  by (simp add: std_ok_def)

lemma std_find_Nil [simp]: "std_find key [] g = None"
  by (simp add: std_find_def)

lemma std_find_Cons [simp]:
  "std_find key (x # xs) g = (if key x = g then Some x else std_find key xs g)"
  by (simp add: std_find_def)

lemma std_lower_bound_Nil [simp]: "std_lower_bound key [] g = 0"
  by (simp add: std_lower_bound_def)

lemma std_lower_bound_Cons [simp]:
  "std_lower_bound key (x # xs) g = (if key x < g then Suc (std_lower_bound key xs g) else 0)"
  by (simp add: std_lower_bound_def)

lemma std_erase_at_0 [simp]: "std_erase_at 0 (x # xs) = xs"
  by (simp add: std_erase_at_def)

lemma std_erase_at_Suc [simp]: "std_erase_at (Suc i) (x # xs) = x # std_erase_at i xs"
  by (simp add: std_erase_at_def)

lemma std_lower_bound_le: "std_lower_bound key xs g \<le> length xs"
  by (simp add: std_lower_bound_def length_takeWhile_le)

lemma std_find_None_iff: "std_find key xs g = None \<longleftrightarrow> g \<notin> key ` set xs"
  by (auto simp: std_find_def find_None_iff)

lemma std_find_key: "std_find key xs g = Some x \<Longrightarrow> key x = g"
  by (induction xs) (auto split: if_splits)

lemma std_find_set: "std_find key xs g = Some x \<Longrightarrow> x \<in> set xs"
  by (induction xs) (auto split: if_splits)

lemma std_find_mem: "std_ok key xs \<Longrightarrow> x \<in> set xs \<Longrightarrow> std_find key xs (key x) = Some x"
  by (induction xs) auto

lemma std_find_iff_mem:
  "std_ok key xs \<Longrightarrow> std_find key xs g = Some x \<longleftrightarrow> x \<in> set xs \<and> key x = g"
  by (auto dest: std_find_key std_find_set std_find_mem)

lemma std_find_notin: "(\<And>y. y \<in> set xs \<Longrightarrow> g < key y) \<Longrightarrow> std_find key xs g = None"
  by (auto simp: std_find_None_iff)

subsection \<open>Searching\<close>

lemma std_absent_lower_bound:
  "std_ok key xs \<Longrightarrow>
   std_absent key xs (std_lower_bound key xs g) g \<longleftrightarrow> std_find key xs g = None"
proof (induction xs)
  case Nil
  then show ?case by (simp add: std_absent_def)
next
  case (Cons x xs)
  then have *: "g < key x \<Longrightarrow> std_find key xs g = None"
    by (intro std_find_notin) auto
  from Cons show ?case
    by (cases "key x" g rule: linorder_cases) (auto simp: std_absent_def *)
qed

lemma std_found_nth:
  "std_ok key xs \<Longrightarrow> std_find key xs g = Some x \<Longrightarrow>
   std_lower_bound key xs g < length xs \<and> xs ! std_lower_bound key xs g = x"
proof (induction xs)
  case (Cons y ys)
  have "g < key y \<Longrightarrow> std_find key ys g = None"
    using Cons.prems by (intro std_find_notin) auto
  with Cons show ?case by (cases "key y" g rule: linorder_cases) (auto split: if_splits)
qed simp

lemma std_lower_bound_split:
  assumes "std_ok key xs" "i < length xs"
  shows "key (xs ! i) < g \<longleftrightarrow> i < std_lower_bound key xs g"
  using assms
proof (induction xs arbitrary: i)
  case (Cons x xs)
  show ?case
  proof (cases i)
    case (Suc j)
    with Cons.prems have "key (xs ! j) < g \<Longrightarrow> key x < g"
      by (auto intro: less_trans [of "key x" "key (xs ! j)" g])
    with Suc Cons show ?thesis by (cases "key x < g") auto
  qed simp
qed simp

text \<open>The element \<open>lower_bound\<close> returns is the least one whose key is not below the searched key.\<close>

lemma std_lower_bound_least:
  assumes ok: "std_ok key xs" and lt: "std_lower_bound key xs g < length xs"
  shows "g \<le> key (xs ! std_lower_bound key xs g)
    \<and> (\<forall>x\<in>set xs. g \<le> key x \<longrightarrow> key (xs ! std_lower_bound key xs g) \<le> key x)"
proof (intro conjI ballI impI)
  show "g \<le> key (xs ! std_lower_bound key xs g)"
    using std_lower_bound_split [OF ok lt, of g] by simp
next
  fix x assume "x \<in> set xs" and g: "g \<le> key x"
  then obtain j where j: "j < length xs" "xs ! j = x" by (auto simp: in_set_conv_nth)
  with g std_lower_bound_split [OF ok j(1), of g] have "std_lower_bound key xs g \<le> j"
    by (auto simp: not_less)
  with j ok lt show "key (xs ! std_lower_bound key xs g) \<le> key x"
    by (cases "std_lower_bound key xs g = j")
       (auto simp: std_ok_def sorted_wrt_iff_nth_less intro: less_imp_le)
qed

subsection \<open>Growing, editing, shrinking\<close>

lemma std_put_Nil [simp]: "std_put key x [] = [x]"
  by (simp add: std_put_def std_emplace_def std_absent_def)

lemma std_put_Cons [simp]:
  "std_put key x (y # ys) =
     (if key y < key x then y # std_put key x ys
      else if key y = key x then y # ys else x # y # ys)"
  by (auto simp: std_put_def std_emplace_def std_absent_def Let_def)

lemma std_alter_Nil [simp]: "std_alter key g f [] = []"
  by (simp add: std_alter_def std_absent_def)

lemma std_alter_Cons [simp]:
  "std_alter key g f (y # ys) =
     (if key y < g then y # std_alter key g f ys
      else if key y = g then f y # ys else y # ys)"
  by (auto simp: std_alter_def std_absent_def Let_def)

lemma std_remove_Nil [simp]: "std_remove key g [] = []"
  by (simp add: std_remove_def std_absent_def)

lemma std_remove_Cons [simp]:
  "std_remove key g (y # ys) =
     (if key y < g then y # std_remove key g ys
      else if key y = g then ys else y # ys)"
  by (auto simp: std_remove_def std_absent_def Let_def)

lemma set_std_put: "set (std_put key x xs) \<subseteq> insert x (set xs)"
  by (induction xs) auto

lemma set_std_put_new: "std_ok key xs \<Longrightarrow> std_find key xs (key x) = None \<Longrightarrow>
  set (std_put key x xs) = insert x (set xs)"
  by (induction xs) (auto split: if_splits)

lemma set_std_alter: "set (std_alter key g f xs) \<subseteq> set xs \<union> f ` {x \<in> set xs. key x = g}"
  by (induction xs) auto

lemma set_std_remove: "set (std_remove key g xs) \<subseteq> set xs"
  by (induction xs) auto

lemma keys_std_alter:
  "(\<And>x. key (f x) = key x) \<Longrightarrow> map key (std_alter key g f xs) = map key xs"
  by (induction xs) auto

lemma std_ok_keys: "std_ok key xs \<longleftrightarrow> sorted_wrt (<) (map key xs)"
  by (simp add: std_ok_def sorted_wrt_map)

lemma std_ok_put: "std_ok key xs \<Longrightarrow> std_ok key (std_put key x xs)"
proof (induction xs)
  case (Cons y ys)
  then show ?case
    using set_std_put [of key x ys] by (auto simp: neq_iff)
qed simp

lemma std_ok_alter: "(\<And>x. key (f x) = key x) \<Longrightarrow> std_ok key xs \<Longrightarrow> std_ok key (std_alter key g f xs)"
  by (simp add: std_ok_keys keys_std_alter)

lemma std_ok_remove: "std_ok key xs \<Longrightarrow> std_ok key (std_remove key g xs)"
proof (induction xs)
  case (Cons y ys)
  then show ?case using set_std_remove [of key g ys] by auto
qed simp

lemma std_ok_filter: "std_ok key xs \<Longrightarrow> std_ok key (filter P xs)"
  by (simp add: std_ok_def sorted_wrt_filter)

lemma std_find_put:
  "std_ok key xs \<Longrightarrow> std_find key (std_put key x xs) =
     (if std_find key xs (key x) = None then (std_find key xs)(key x \<mapsto> x) else std_find key xs)"
proof (induction xs)
  case (Cons y ys)
  have "key x < key y \<Longrightarrow> std_find key ys (key x) = None"
    using Cons.prems by (intro std_find_notin) auto
  with Cons show ?case by (auto simp: fun_eq_iff)
qed (auto simp: fun_eq_iff)

lemma std_find_alter:
  assumes "\<And>x. key (f x) = key x" and "std_ok key xs"
  shows "std_find key (std_alter key g f xs) =
     (std_find key xs)(g := map_option f (std_find key xs g))"
  using assms(2)
proof (induction xs)
  case (Cons y ys)
  have "g < key y \<Longrightarrow> std_find key ys g = None"
    using Cons.prems by (intro std_find_notin) auto
  with Cons show ?case by (auto simp: fun_eq_iff assms(1))
qed (auto simp: fun_eq_iff)

lemma std_find_remove:
  "std_ok key xs \<Longrightarrow> std_find key (std_remove key g xs) = (std_find key xs)(g := None)"
proof (induction xs)
  case (Cons y ys)
  have "g < key y \<Longrightarrow> std_find key ys g = None" "key y = g \<Longrightarrow> std_find key ys g = None"
    using Cons.prems by (auto intro!: std_find_notin)
  with Cons show ?case by (auto simp: fun_eq_iff)
qed (auto simp: fun_eq_iff)

lemma fst_std_emplace: "fst (std_emplace key x xs) = std_lower_bound key xs (key x)"
  by (simp add: std_emplace_def Let_def)

lemma std_emplace_eq: "std_emplace key x xs = (std_lower_bound key xs (key x), std_put key x xs)"
  by (simp add: std_put_def fst_std_emplace prod_eq_iff)

lemma std_lower_bound_put:
  "std_lower_bound key (std_put key x xs) (key x) = std_lower_bound key xs (key x)"
  by (induction xs) auto

lemma std_put_found: "std_ok key xs \<Longrightarrow> std_find key xs (key x) \<noteq> None \<Longrightarrow> std_put key x xs = xs"
  by (auto simp: std_put_def std_emplace_def Let_def std_absent_lower_bound)

lemma std_nth_put:
  "std_ok key xs \<Longrightarrow> std_find key xs (key x) = None \<Longrightarrow>
     std_put key x xs ! std_lower_bound key xs (key x) = x"
  by (induction xs) (auto split: if_splits)

lemma std_lower_bound_put_less:
  "std_lower_bound key xs (key x) < length (std_put key x xs)"
  by (induction xs) auto

lemma std_absent_put:
  "std_ok key xs \<Longrightarrow> \<not> std_absent key (std_put key x xs) (std_lower_bound key xs (key x)) (key x)"
  using std_absent_lower_bound [OF std_ok_put, of key xs x "key x"]
  by (auto simp: std_lower_bound_put std_find_put)

lemma std_update_put:
  "std_ok key xs \<Longrightarrow>
   (std_put key x xs)[std_lower_bound key xs (key x) :=
       f (std_put key x xs ! std_lower_bound key xs (key x))]
   = std_alter key (key x) f (std_put key x xs)"
  by (simp add: std_alter_def std_lower_bound_put Let_def std_absent_put)

lemma std_update_found:
  "std_ok key xs \<Longrightarrow> std_find key xs g \<noteq> None \<Longrightarrow>
   xs[std_lower_bound key xs g := f (xs ! std_lower_bound key xs g)] = std_alter key g f xs"
  by (auto simp: std_alter_def Let_def std_absent_lower_bound)

lemma std_erase_key_remove: "std_ok key xs \<Longrightarrow> snd (std_erase_key key g xs) = std_remove key g xs"
proof (induction xs)
  case (Cons y ys)
  have "key y \<ge> g \<Longrightarrow> filter (\<lambda>x. key x \<noteq> g) ys = ys"
    using Cons.prems by (auto simp: filter_id_conv)
  with Cons show ?case by (auto simp: std_erase_key_def)
qed (simp add: std_erase_key_def)

lemma std_erase_key_count:
  "std_ok key xs \<Longrightarrow> fst (std_erase_key key g xs) = (if std_find key xs g = None then 0 else 1)"
proof (induction xs)
  case (Cons y ys)
  have "key y \<ge> g \<Longrightarrow> filter (\<lambda>x. key x = g) ys = []"
    using Cons.prems by (auto simp: filter_empty_conv)
  with Cons show ?case by (auto simp: std_erase_key_def)
qed (simp add: std_erase_key_def)

lemma std_ext:
  "std_ok key xs \<Longrightarrow> std_ok key ys \<Longrightarrow> std_find key xs = std_find key ys \<Longrightarrow> xs = ys"
proof (induction xs arbitrary: ys)
  case Nil
  then show ?case by (cases ys) (auto simp: fun_eq_iff split: if_splits)
next
  case (Cons x xs)
  note find_eq = Cons.prems(3) [THEN fun_cong]
  obtain y zs where ys: "ys = y # zs"
    using find_eq [of "key x"] by (cases ys) auto
  have "x \<in> set ys"
    using find_eq [of "key x"] std_find_set [of key ys "key x" x] by simp
  moreover have "y \<in> set (x # xs)"
    using find_eq [of "key y"] std_find_set [of key "x # xs" "key y" y] ys by simp
  ultimately have "x = y" using Cons.prems ys by (auto dest: less_asym)
  have "std_find key xs = std_find key zs"
  proof
    fix g show "std_find key xs g = std_find key zs g"
      using find_eq [of g] \<open>x = y\<close> ys Cons.prems(1,2) std_find_notin [of xs g key]
        std_find_notin [of zs g key]
      by (cases "key x = g") auto
  qed
  with Cons ys \<open>x = y\<close> show ?case by auto
qed

lemma std_update_at:
  "std_ok key xs \<Longrightarrow> i < length xs \<Longrightarrow> xs[i := f (xs ! i)] = std_alter key (key (xs ! i)) f xs"
proof (induction xs arbitrary: i)
  case (Cons x xs)
  then show ?case by (cases i) (auto dest: nth_mem)
qed simp

lemma std_erase_at_remove:
  "std_ok key xs \<Longrightarrow> i < length xs \<Longrightarrow> std_erase_at i xs = std_remove key (key (xs ! i)) xs"
proof (induction xs arbitrary: i)
  case (Cons x xs)
  then show ?case by (cases i) (auto dest: nth_mem)
qed simp

lemma std_erase_at_update [simp]: "std_erase_at i (xs[i := y]) = std_erase_at i xs"
  by (simp add: std_erase_at_def)

lemma std_find_nth: "std_ok key xs \<Longrightarrow> i < length xs \<Longrightarrow> std_find key xs (key (xs ! i)) = Some (xs ! i)"
  by (simp add: std_find_mem)

lemma std_lower_bound_end:
  "std_ok key xs \<Longrightarrow> std_lower_bound key xs g = length xs \<Longrightarrow> std_find key xs g = None"
  using std_absent_lower_bound [of key xs g] by (simp add: std_absent_def)

lemma length_std_put:
  "std_ok key xs \<Longrightarrow> length (std_put key x xs) =
     (if std_find key xs (key x) = None then Suc (length xs) else length xs)"
proof (induction xs)
  case (Cons y ys)
  have "key x < key y \<Longrightarrow> std_find key ys (key x) = None"
    using Cons.prems by (intro std_find_notin) auto
  with Cons show ?case by auto
qed simp

lemma length_std_remove:
  "std_ok key xs \<Longrightarrow> length (std_remove key g xs) =
     (if std_find key xs g = None then length xs else length xs - 1)"
proof (induction xs)
  case (Cons y ys)
  have "g < key y \<Longrightarrow> std_find key ys g = None"
    using Cons.prems by (intro std_find_notin) auto
  moreover have "std_find key ys g \<noteq> None \<Longrightarrow> 0 < length ys" by (cases ys) auto
  ultimately show ?case
    using Cons by (cases "key y" g rule: linorder_cases) (auto simp: less_le)
qed simp

lemma std_put_remove_inverse:
  "std_ok key xs \<Longrightarrow> std_find key xs (key x) = None \<Longrightarrow> std_remove key (key x) (std_put key x xs) = xs"
  by (intro std_ext [where key = key])
     (auto simp: std_ok_remove std_ok_put std_find_remove std_find_put fun_eq_iff)

section \<open>The contract\<close>

text \<open>
  \<open>put\<close> keeps an element of equivalent key, \<open>alter\<close> edits the element of a key in place and must not
  change the key, \<open>remove\<close> drops it.
\<close>

locale keyed_set =
  fixes key :: "'v \<Rightarrow> 'g"
    and find :: "'s \<Rightarrow> 'g \<Rightarrow> 'v option"
    and ok :: "'s \<Rightarrow> bool"
    and put :: "'v \<Rightarrow> 's \<Rightarrow> 's"
    and alter :: "'g \<Rightarrow> ('v \<Rightarrow> 'v) \<Rightarrow> 's \<Rightarrow> 's"
    and remove :: "'g \<Rightarrow> 's \<Rightarrow> 's"
  assumes find_key: "ok s \<Longrightarrow> find s g = Some v \<Longrightarrow> key v = g"
    and find_put: "ok s \<Longrightarrow> find (put v s) =
      (if find s (key v) = None then (find s)(key v \<mapsto> v) else find s)"
    and find_alter: "(\<And>v. key (f v) = key v) \<Longrightarrow> ok s \<Longrightarrow>
      find (alter g f s) = (find s)(g := map_option f (find s g))"
    and find_remove: "ok s \<Longrightarrow> find (remove g s) = (find s)(g := None)"
    and ok_put: "ok s \<Longrightarrow> ok (put v s)"
    and ok_alter: "(\<And>v. key (f v) = key v) \<Longrightarrow> ok s \<Longrightarrow> ok (alter g f s)"
    and ok_remove: "ok s \<Longrightarrow> ok (remove g s)"
begin

lemma find_put_same: "ok s \<Longrightarrow> find (put v s) (key v) = Some (case find s (key v) of None \<Rightarrow> v | Some w \<Rightarrow> w)"
  by (simp add: find_put split: option.split)

lemma find_put_other: "ok s \<Longrightarrow> g \<noteq> key v \<Longrightarrow> find (put v s) g = find s g"
  by (simp add: find_put)

lemma dom_find_put: "ok s \<Longrightarrow> dom (find (put v s)) = insert (key v) (dom (find s))"
  by (auto simp: find_put)

lemma find_upsert:
  assumes "ok s" and "\<And>w. key (f w) = key w"
  shows "find (alter (key v) f (put v s)) =
    (find s)(key v \<mapsto> f (case find s (key v) of None \<Rightarrow> v | Some w \<Rightarrow> w))"
  using assms by (auto simp: find_alter ok_put find_put_same find_put fun_eq_iff)

lemma find_alter_other:
  "ok s \<Longrightarrow> (\<And>v. key (f v) = key v) \<Longrightarrow> h \<noteq> g \<Longrightarrow> find (alter g f s) h = find s h"
  by (simp add: find_alter)

lemma ok_upsert: "ok s \<Longrightarrow> (\<And>w. key (f w) = key w) \<Longrightarrow> ok (alter (key v) f (put v s))"
  by (simp add: ok_alter ok_put)

end

text \<open>
  A set whose elements each own a part, as the snapshot owns the databases: \<open>contents\<close> of a key are
  the part of its element, or a default where there is none. An edit of one part, after adding the
  element if it was missing, changes the contents of its key and nothing else.
\<close>

locale nested_set = keyed_set +
  fixes part :: "'a \<Rightarrow> 'p"
    and part_upd :: "('p \<Rightarrow> 'p) \<Rightarrow> 'a \<Rightarrow> 'a"
  assumes part_part_upd: "part (part_upd f d) = f (part d)"
    and key_part_upd: "key (part_upd f d) = key d"
begin

lemma contents_upsert:
  assumes "ok s" and "part d = e"
  shows "case_option e part (find (alter (key d) (part_upd f) (put d s)) b) =
    (if key d = b then f (case_option e part (find s b))
     else case_option e part (find s b))"
  using assms by (auto simp: find_upsert key_part_upd part_part_upd split: option.split)

lemma contents_remove:
  "ok s \<Longrightarrow> case_option e part (find (remove g s) b) =
    (if g = b then e else case_option e part (find s b))"
  by (simp add: find_remove)

end

interpretation std_set:
  keyed_set key "std_find key" "std_ok key" "std_put key" "std_alter key" "std_remove key"
  for key :: "'a \<Rightarrow> 'g::linorder"
  by unfold_locales
    (simp_all add: std_find_key std_find_put std_find_alter std_find_remove
      std_ok_put std_ok_alter std_ok_remove)

end
