(* ===== verification/Std_Map.thy ===== *)
theory Std_Map
  imports Std_Set
begin

text \<open>
  \<open>std::map\<close> as a list of key and value in ascending order of keys, on the model of ordered sets, and
  the contract its clients rely on. \<open>operator []\<close> inserts a default value where the key is missing.
\<close>

section \<open>Operations\<close>

definition map_find :: "'g::linorder \<Rightarrow> ('g \<times> 'v) list \<Rightarrow> 'v option" where
  "map_find k m = map_option snd (std_find fst m k)"

definition map_index :: "'v \<Rightarrow> 'g::linorder \<Rightarrow> ('g \<times> 'v) list \<Rightarrow> 'v \<times> ('g \<times> 'v) list" where
  "map_index dflt k m =
     (let m' = std_put fst (k, dflt) m in (snd (m' ! std_lower_bound fst m' k), m'))"

definition map_assign :: "'g::linorder \<Rightarrow> 'v \<Rightarrow> ('g \<times> 'v) list \<Rightarrow> ('g \<times> 'v) list" where
  "map_assign k v m = std_alter fst k (\<lambda>_. (k, v)) (std_put fst (k, v) m)"

definition map_erase :: "'g::linorder \<Rightarrow> ('g \<times> 'v) list \<Rightarrow> ('g \<times> 'v) list" where
  "map_erase k m = std_remove fst k m"

abbreviation map_ok :: "('g::linorder \<times> 'v) list \<Rightarrow> bool" where
  "map_ok \<equiv> std_ok fst"

lemma map_find_Nil [simp]: "map_find k [] = None"
  by (simp add: map_find_def)

lemma map_find_None: "map_find k m = None \<longleftrightarrow> k \<notin> fst ` set m"
  by (simp add: map_find_def std_find_None_iff)

lemma map_find_Some: "map_ok m \<Longrightarrow> map_find k m = Some v \<longleftrightarrow> (k, v) \<in> set m"
  by (auto simp: map_find_def std_find_iff_mem)

text \<open>An assignment edits the value of a key that may have been added for it.\<close>

lemma map_find_assign: "map_ok m \<Longrightarrow> map_find h (map_assign k v m) = (if h = k then Some v else map_find h m)"
proof (induction m)
  case Nil
  then show ?case by (simp add: map_find_def map_assign_def)
next
  case (Cons x m)
  then have tail: "map_find h (map_assign k v m) = (if h = k then Some v else map_find h m)" by simp
  have cons: "map_assign k v (x # m) =
      (if fst x < k then x # map_assign k v m else if fst x = k then (k, v) # m else (k, v) # x # m)"
    by (simp add: map_assign_def)
  show ?case unfolding cons using tail Cons.prems by (cases x) (auto simp: map_find_def)
qed

lemma set_map_assign: "set (map_assign k v m) \<subseteq> insert (k, v) (set m)"
  by (induction m) (auto simp: map_assign_def split: if_splits)

lemma map_ok_assign: "map_ok m \<Longrightarrow> map_ok (map_assign k v m)"
proof (induction m)
  case (Cons x m)
  then show ?case using set_map_assign [of k v m] by (auto simp: map_assign_def neq_iff)
qed (simp add: map_assign_def)

lemma map_find_erase: "map_ok m \<Longrightarrow> map_find h (map_erase k m) = (if h = k then None else map_find h m)"
  by (simp add: map_find_def map_erase_def std_find_remove)

lemma map_ok_erase: "map_ok m \<Longrightarrow> map_ok (map_erase k m)"
  by (simp add: map_erase_def std_ok_remove)

lemma map_find_put:
  "map_ok m \<Longrightarrow> map_find h (std_put fst (k, d) m) =
    (if h = k then Some (case map_find k m of None \<Rightarrow> d | Some v \<Rightarrow> v) else map_find h m)"
  by (auto simp: map_find_def std_find_put split: option.splits)

lemma map_index_eq:
  assumes "map_ok m"
  shows "map_index d k m =
    (case map_find k m of None \<Rightarrow> d | Some v \<Rightarrow> v, std_put fst (k, d) m)"
proof -
  have ok: "map_ok (std_put fst (k, d) m)" by (rule std_ok_put [OF assms])
  obtain x where x: "std_find fst (std_put fst (k, d) m) k = Some x"
    "snd x = (case map_find k m of None \<Rightarrow> d | Some v \<Rightarrow> v)"
    using map_find_put [OF assms, of k k d] by (auto simp: map_find_def)
  then show ?thesis using std_found_nth [OF ok x(1)] by (simp add: map_index_def Let_def)
qed

lemma map_find_index:
  "map_ok m \<Longrightarrow> map_find h (snd (map_index d k m)) =
    (if h = k then Some (case map_find k m of None \<Rightarrow> d | Some v \<Rightarrow> v) else map_find h m)"
  by (simp add: map_index_eq map_find_put)

lemma map_ok_index: "map_ok m \<Longrightarrow> map_ok (snd (map_index d k m))"
  by (simp add: map_index_eq std_ok_put)

lemma map_find_filter:
  "map_ok m \<Longrightarrow> (\<And>x. x \<in> set m \<Longrightarrow> P x \<longleftrightarrow> Q (fst x)) \<Longrightarrow>
   map_find h (filter P m) = (if Q h then map_find h m else None)"
proof (induction m)
  case (Cons x m)
  then show ?case by (auto simp: map_find_def dest: std_find_key)
qed simp

lemma map_ok_filter: "map_ok m \<Longrightarrow> map_ok (filter P m)"
  by (rule std_ok_filter)

section \<open>The contract\<close>

text \<open>A registry of values under keys, and what taking one out of it means.\<close>

locale registry =
  fixes find :: "'k \<Rightarrow> 'm \<Rightarrow> 'v option"
    and ok :: "'m \<Rightarrow> bool"
    and assign :: "'k \<Rightarrow> 'v \<Rightarrow> 'm \<Rightarrow> 'm"
    and erase :: "'k \<Rightarrow> 'm \<Rightarrow> 'm"
  assumes find_assign: "ok m \<Longrightarrow> find h (assign k v m) = (if h = k then Some v else find h m)"
    and find_erase: "ok m \<Longrightarrow> find h (erase k m) = (if h = k then None else find h m)"
    and ok_assign: "ok m \<Longrightarrow> ok (assign k v m)"
    and ok_erase: "ok m \<Longrightarrow> ok (erase k m)"
begin

lemma find_take:
  "ok m \<Longrightarrow> find h (if find k m = None then m else erase k m) = (if h = k then None else find h m)"
  by (simp add: find_erase)

lemma find_assign_erase: "ok m \<Longrightarrow> find h (erase k (assign k v m)) = (if h = k then None else find h m)"
  by (simp add: find_erase find_assign ok_assign)

lemma dom_assign: "ok m \<Longrightarrow> {h. find h (assign k v m) \<noteq> None} = insert k {h. find h m \<noteq> None}"
  by (auto simp: find_assign)

end

interpretation std_map: registry map_find map_ok map_assign map_erase
  by unfold_locales (simp_all add: map_find_assign map_find_erase map_ok_assign map_ok_erase)

end
