(* ===== verification/Discovery_Items.thy ===== *)
theory Discovery_Items
  imports Std_Set
begin

text \<open>
  The discovery items of \<open>include/DiscoveryItem.h\<close> and \<open>src/DiscoveryItem.cpp\<close>: endpoints (data
  writers and data readers), participants and per-participant databases, their comparisons, the
  endpoint counters and the iterator that skips zombies.

  \<open>GUID_t\<close> belongs to Fast DDS: here it is any linearly ordered type \<open>'g\<close>, since the program only
  compares GUIDs; its \<open>std::set\<close>s of items are lists in strictly ascending order of
  \<open>endpoint_guid\<close>, which is what \<open>DiscoveryItem::operator <\<close> orders by.
\<close>

section \<open>Items\<close>

record 'g DiscoveryItem =
  endpoint_guid :: 'g

text \<open>
  \<open>DataWriterDiscoveryItem\<close> and \<open>DataReaderDiscoveryItem\<close> repeat the same three fields after the
  GUID; they are written once here.
\<close>

record 'g EndpointItem = "'g DiscoveryItem" +
  type_name :: string
  topic_name :: string
  discovered_timestamp :: time_point

type_synonym 'g DataWriterDiscoveryItem = "'g EndpointItem"

record 'g DataReaderDiscoveryItem = "'g EndpointItem" +
  alive_count :: int32
  not_alive_count :: int32

record 'g ParticipantDiscoveryItem = "'g DiscoveryItem" +
  is_server :: bool
  is_alive :: bool
  participant_name :: string
  participant_timestamp :: time_point
  datawriters :: "'g DataWriterDiscoveryItem list"
  datareaders :: "'g DataReaderDiscoveryItem list"

record 'g ParticipantDiscoveryDatabase = "'g DiscoveryItem" +
  db_participant_name :: string
  participants :: "'g ParticipantDiscoveryItem list"

subsection \<open>Constructors\<close>

definition new_datawriter :: "'g \<Rightarrow> string \<Rightarrow> string \<Rightarrow> time_point \<Rightarrow> 'g DataWriterDiscoveryItem" where
  [item_defs]: "new_datawriter g type topic t =
     \<lparr>endpoint_guid = g, type_name = type, topic_name = topic, discovered_timestamp = t\<rparr>"

definition new_datareader :: "'g \<Rightarrow> string \<Rightarrow> string \<Rightarrow> time_point \<Rightarrow> 'g DataReaderDiscoveryItem" where
  [item_defs]: "new_datareader g type topic t =
     \<lparr>endpoint_guid = g, type_name = type, topic_name = topic, discovered_timestamp = t,
      alive_count = 0, not_alive_count = 0\<rparr>"

definition new_participant :: "'g \<Rightarrow> string \<Rightarrow> bool \<Rightarrow> time_point \<Rightarrow> 'g ParticipantDiscoveryItem" where
  [item_defs]: "new_participant g name server t =
     \<lparr>endpoint_guid = g, is_server = server, is_alive = True, participant_name = name,
      participant_timestamp = t, datawriters = [], datareaders = []\<rparr>"

definition new_database :: "'g \<Rightarrow> string \<Rightarrow> 'g ParticipantDiscoveryDatabase" where
  [item_defs]: "new_database g name =
     \<lparr>endpoint_guid = g, db_participant_name = name, participants = []\<rparr>"

section \<open>Comparisons\<close>

text \<open>\<open>DiscoveryItem::operator <\<close> and the order it induces on any item.\<close>

definition DiscoveryItem_less :: "('a::linorder, 'b) DiscoveryItem_scheme \<Rightarrow> ('a, 'b) DiscoveryItem_scheme \<Rightarrow> bool" where
  "DiscoveryItem_less d e \<longleftrightarrow> endpoint_guid d < endpoint_guid e"

instantiation DiscoveryItem_ext :: (linorder, type) preorder
begin

definition less_eq_DiscoveryItem_ext ::
  "('a, 'b) DiscoveryItem_ext \<Rightarrow> ('a, 'b) DiscoveryItem_ext \<Rightarrow> bool" where
  "less_eq_DiscoveryItem_ext d e \<longleftrightarrow> endpoint_guid d \<le> endpoint_guid e"

definition less_DiscoveryItem_ext ::
  "('a, 'b) DiscoveryItem_ext \<Rightarrow> ('a, 'b) DiscoveryItem_ext \<Rightarrow> bool" where
  "less_DiscoveryItem_ext = DiscoveryItem_less"

instance
  by standard (auto simp: less_eq_DiscoveryItem_ext_def less_DiscoveryItem_ext_def DiscoveryItem_less_def)

end

abbreviation items_ok :: "('g::linorder, 'a) DiscoveryItem_scheme list \<Rightarrow> bool" where
  "items_ok \<equiv> std_ok endpoint_guid"

abbreviation lookup_item ::
  "('g::linorder, 'a) DiscoveryItem_scheme list \<Rightarrow> 'g \<Rightarrow> ('g, 'a) DiscoveryItem_scheme option" where
  "lookup_item \<equiv> std_find endpoint_guid"

lemma items_ok_sorted: "items_ok xs \<longleftrightarrow> sorted_wrt (<) xs"
  by (simp add: std_ok_def less_DiscoveryItem_ext_def DiscoveryItem_less_def [abs_def])

definition DiscoveryItem_eq ::
  "('g, 'a) DiscoveryItem_scheme \<Rightarrow> ('g, 'a) DiscoveryItem_scheme \<Rightarrow> bool" where
  "DiscoveryItem_eq d e \<longleftrightarrow> endpoint_guid d = endpoint_guid e"

definition DiscoveryItem_ne ::
  "('g, 'a) DiscoveryItem_scheme \<Rightarrow> ('g, 'a) DiscoveryItem_scheme \<Rightarrow> bool" where
  "DiscoveryItem_ne d e \<longleftrightarrow> endpoint_guid d \<noteq> endpoint_guid e"

definition DataWriter_eq ::
  "'g DataWriterDiscoveryItem \<Rightarrow> 'g DataWriterDiscoveryItem \<Rightarrow> bool" where
  "DataWriter_eq d p \<longleftrightarrow> DiscoveryItem_eq d p \<and> type_name d = type_name p \<and> topic_name d = topic_name p"

definition DataReader_eq ::
  "'g DataReaderDiscoveryItem \<Rightarrow> 'g DataReaderDiscoveryItem \<Rightarrow> bool" where
  "DataReader_eq d p \<longleftrightarrow> DiscoveryItem_eq d p \<and> type_name d = type_name p \<and> topic_name d = topic_name p"

text \<open>\<open>std::set::operator ==\<close>: equal sizes and equal elements in order.\<close>

definition Participant_eq ::
  "'g ParticipantDiscoveryItem \<Rightarrow> 'g ParticipantDiscoveryItem \<Rightarrow> bool" where
  "Participant_eq d p \<longleftrightarrow> DiscoveryItem_eq d p
     \<and> list_all2 DataWriter_eq (datawriters d) (datawriters p)
     \<and> list_all2 DataReader_eq (datareaders d) (datareaders p)"

definition Participant_ne ::
  "'g ParticipantDiscoveryItem \<Rightarrow> 'g ParticipantDiscoveryItem \<Rightarrow> bool" where
  "Participant_ne d p \<longleftrightarrow> DiscoveryItem_ne d p
     \<or> \<not> list_all2 DataWriter_eq (datawriters d) (datawriters p)
     \<or> \<not> list_all2 DataReader_eq (datareaders d) (datareaders p)"

text \<open>\<open>ParticipantDiscoveryItem::operator []\<close>: was the endpoint discovered?\<close>

definition Participant_has_datawriter ::
  "('g::linorder) ParticipantDiscoveryItem \<Rightarrow> 'g DataWriterDiscoveryItem \<Rightarrow> bool" where
  "Participant_has_datawriter d p \<longleftrightarrow> lookup_item (datawriters d) (endpoint_guid p) \<noteq> None"

definition Participant_has_datareader ::
  "('g::linorder) ParticipantDiscoveryItem \<Rightarrow> 'g DataReaderDiscoveryItem \<Rightarrow> bool" where
  "Participant_has_datareader d p \<longleftrightarrow> lookup_item (datareaders d) (endpoint_guid p) \<noteq> None"

lemma Participant_ne_iff: "Participant_ne d p \<longleftrightarrow> \<not> Participant_eq d p"
  by (auto simp: Participant_ne_def Participant_eq_def DiscoveryItem_ne_def DiscoveryItem_eq_def)

lemma DataWriter_eq_equivp: "equivp DataWriter_eq"
  by (rule equivpI) (auto simp: reflp_def symp_def transp_def DataWriter_eq_def DiscoveryItem_eq_def)

lemma DataReader_eq_equivp: "equivp DataReader_eq"
  by (rule equivpI) (auto simp: reflp_def symp_def transp_def DataReader_eq_def DiscoveryItem_eq_def)

lemma Participant_eq_refl [simp]: "Participant_eq p p"
  by (simp add: Participant_eq_def DiscoveryItem_eq_def list_all2_refl equivp_reflp
      DataWriter_eq_equivp DataReader_eq_equivp)

lemma list_all2_equivp_sym: "equivp R \<Longrightarrow> list_all2 R xs ys \<Longrightarrow> list_all2 R ys xs"
  by (auto simp: list_all2_conv_all_nth intro: equivp_symp)

lemma list_all2_equivp_trans: "equivp R \<Longrightarrow> list_all2 R xs ys \<Longrightarrow> list_all2 R ys zs \<Longrightarrow> list_all2 R xs zs"
  by (rule list_all2_trans [of R R R xs ys zs]) (auto dest: equivp_transp)

lemma Participant_eq_sym: "Participant_eq p q \<Longrightarrow> Participant_eq q p"
  by (auto simp: Participant_eq_def DiscoveryItem_eq_def
      intro: list_all2_equivp_sym DataWriter_eq_equivp DataReader_eq_equivp)

lemma Participant_eq_trans: "Participant_eq p q \<Longrightarrow> Participant_eq q r \<Longrightarrow> Participant_eq p r"
  by (auto simp: Participant_eq_def DiscoveryItem_eq_def
      intro: list_all2_equivp_trans DataWriter_eq_equivp DataReader_eq_equivp)

lemma Participant_eq_guid: "Participant_eq p q \<Longrightarrow> endpoint_guid p = endpoint_guid q"
  by (simp add: Participant_eq_def DiscoveryItem_eq_def)

section \<open>Counters\<close>

definition acknowledge :: "bool \<Rightarrow> 'g ParticipantDiscoveryItem \<Rightarrow> 'g ParticipantDiscoveryItem" where
  [item_defs]: "acknowledge alive p = p\<lparr>is_alive := alive\<rparr>"

definition Part_CountDataReaders :: "'g ParticipantDiscoveryItem \<Rightarrow> nat" where
  [item_defs]: "Part_CountDataReaders p = length (datareaders p)"

definition Part_CountDataWriters :: "'g ParticipantDiscoveryItem \<Rightarrow> nat" where
  [item_defs]: "Part_CountDataWriters p = length (datawriters p)"

definition CountEndpoints :: "'g ParticipantDiscoveryItem \<Rightarrow> nat" where
  [item_defs]: "CountEndpoints p = length (datawriters p) + length (datareaders p)"

definition Db_CountParticipants :: "'g ParticipantDiscoveryDatabase \<Rightarrow> nat" where
  "Db_CountParticipants db = length (participants db)"

definition Db_CountDataReaders :: "'g ParticipantDiscoveryDatabase \<Rightarrow> nat" where
  "Db_CountDataReaders db =
     fold (\<lambda>part subs. subs + Part_CountDataReaders part) (participants db) 0"

definition Db_CountDataWriters :: "'g ParticipantDiscoveryDatabase \<Rightarrow> nat" where
  "Db_CountDataWriters db =
     fold (\<lambda>part pubs. pubs + Part_CountDataWriters part) (participants db) 0"

lemma fold_count: "fold (\<lambda>x n. n + (f x :: nat)) xs k = k + sum_list (map f xs)"
  by (induction xs arbitrary: k) auto

section \<open>The iterator that skips zombies\<close>

text \<open>
  \<open>ParticipantDiscoveryDatabase::smart_iterator\<close>: the elements of the database from the wrapped
  iterator on. It always stands at a live participant or at the end; incrementing the end iterator
  is undefined in the source and is never done.
\<close>

type_synonym 'g smart_iterator = "'g ParticipantDiscoveryItem list"

fun skip_zombies :: "'g smart_iterator \<Rightarrow> 'g smart_iterator" where
  "skip_zombies [] = []"
| "skip_zombies (p # ps) = (if \<not> is_alive p then skip_zombies ps else p # ps)"

definition sbegin :: "'g ParticipantDiscoveryDatabase \<Rightarrow> 'g smart_iterator" where
  "sbegin db = skip_zombies (participants db)"

definition send :: "'g ParticipantDiscoveryDatabase \<Rightarrow> 'g smart_iterator" where
  "send db = []"

fun smart_next :: "'g smart_iterator \<Rightarrow> 'g smart_iterator" where
  "smart_next [] = []"
| "smart_next (p # ps) = skip_zombies ps"

lemma length_skip_zombies: "length (skip_zombies ps) \<le> length ps"
  by (induction ps) auto

text \<open>\<open>std::distance (sbegin (), send ())\<close>.\<close>

function smart_distance :: "'g smart_iterator \<Rightarrow> nat" where
  "smart_distance it = (if it = [] then 0 else Suc (smart_distance (smart_next it)))"
  by pat_completeness auto
termination
proof (relation "measure length")
  fix it :: "'g smart_iterator"
  assume "it \<noteq> []"
  then show "(smart_next it, it) \<in> measure length"
    by (cases it) (auto simp: le_imp_less_Suc length_skip_zombies)
qed simp

declare smart_distance.simps [simp del]

definition real_size :: "'g ParticipantDiscoveryDatabase \<Rightarrow> nat" where
  "real_size db = smart_distance (sbegin db)"

definition alive_participants :: "'g ParticipantDiscoveryDatabase \<Rightarrow> 'g ParticipantDiscoveryItem list" where
  "alive_participants db = filter is_alive (participants db)"

text \<open>Walking the iterator is walking the list of live participants.\<close>

fun smart_at :: "'g smart_iterator \<Rightarrow> bool" where
  "smart_at [] = True"
| "smart_at (p # ps) = is_alive p"

lemma smart_at_skip [simp]: "smart_at (skip_zombies ps)"
  by (induction ps) auto

lemma smart_at_next [simp]: "smart_at (smart_next it)"
  by (cases it) auto

lemma filter_skip [simp]: "filter is_alive (skip_zombies ps) = filter is_alive ps"
  by (induction ps) auto

lemma smart_nil_iff: "smart_at it \<Longrightarrow> it = [] \<longleftrightarrow> filter is_alive it = []"
  by (cases it) auto

lemma smart_next_filter: "smart_at it \<Longrightarrow> filter is_alive (smart_next it) = tl (filter is_alive it)"
  by (cases it) auto

lemma smart_hd_filter: "smart_at it \<Longrightarrow> it \<noteq> [] \<Longrightarrow> hd it = hd (filter is_alive it)"
  by (cases it) auto

lemma smart_distance_filter: "smart_at it \<Longrightarrow> smart_distance it = length (filter is_alive it)"
proof (induction it rule: smart_distance.induct)
  case (1 it)
  show ?case
  proof (cases it)
    case Nil
    then show ?thesis by (simp add: smart_distance.simps)
  next
    case (Cons p ps)
    with 1 show ?thesis by (subst smart_distance.simps) simp
  qed
qed

lemma real_size_alive: "real_size db = length (alive_participants db)"
  by (simp add: real_size_def sbegin_def smart_distance_filter alive_participants_def)

end
