(* ===== verification/Discovery_Database.thy ===== *)
theory Discovery_Database
  imports Discovery_Items
begin

text \<open>
  \<open>Snapshot\<close> as a container and \<open>DiscoveryItemDatabase\<close>, the class that keeps what every participant
  of the process (a \<open>spokesman\<close>) has discovered. Each public operation takes \<open>database_mutex\<close> for its
  whole body, so an operation is one atomic step and a run is a sequence of operations.

  \<open>known img s\<close> is the list of participants spokesman \<open>s\<close> has reported and \<open>view img s p\<close> the item
  it keeps for participant \<open>p\<close>; every operation is shown to be an edit of \<open>known\<close> at one spokesman.
\<close>

section \<open>Snapshot\<close>

record 'g Snapshot =
  databases :: "'g ParticipantDiscoveryDatabase list"
  process_startup :: time_point
  snapshot_time :: time_point
  last_PDP_callback :: time_point
  last_EDP_callback :: time_point
  if_someone :: bool
  show_liveliness :: bool
  description :: string

text \<open>
  \<open>Snapshot::access_snapshot\<close> and \<open>Snapshot::operator []\<close>: the reference returned is the index of the
  database, beside the container with the database added when it was missing.
\<close>

definition access_snapshot ::
  "'g::linorder \<Rightarrow> string \<Rightarrow> 'g ParticipantDiscoveryDatabase list
    \<Rightarrow> nat \<times> 'g ParticipantDiscoveryDatabase list" where
  "access_snapshot g name dbs =
     (let it = std_lower_bound endpoint_guid dbs g
      in if std_absent endpoint_guid dbs it g
         then std_emplace endpoint_guid (new_database g name) dbs
         else (it, dbs))"

definition snapshot_index ::
  "'g::linorder \<Rightarrow> 'g ParticipantDiscoveryDatabase list
    \<Rightarrow> nat \<times> 'g ParticipantDiscoveryDatabase list" where
  "snapshot_index g dbs =
     (let it = std_lower_bound endpoint_guid dbs g
      in if std_absent endpoint_guid dbs it g
         then std_emplace endpoint_guid (new_database g []) dbs
         else (it, dbs))"

definition snapshot_const_index ::
  "'g::linorder \<Rightarrow> 'g ParticipantDiscoveryDatabase list
    \<Rightarrow> 'g ParticipantDiscoveryDatabase option" where
  "snapshot_const_index g dbs =
     (let it = std_lower_bound endpoint_guid dbs g
      in if std_absent endpoint_guid dbs it g then None else Some (dbs ! it))"

section \<open>Operations of DiscoveryItemDatabase\<close>

text \<open>
  Every model below takes the \<open>image\<close> and returns it updated. \<open>now\<close> is the reading of
  \<open>steady_clock::now ()\<close> that a defaulted constructor argument takes.
\<close>

definition FindParticipant ::
  "'g::linorder \<Rightarrow> 'g Snapshot \<Rightarrow> 'g ParticipantDiscoveryItem list" where
  "FindParticipant ptid img =
     concat (map (\<lambda>db. let it = std_lower_bound endpoint_guid (participants db) ptid
                       in if it \<noteq> length (participants db)
                             \<and> endpoint_guid (participants db ! it) = ptid
                          then [participants db ! it] else [])
                 (databases img))"

definition AddParticipant ::
  "bool \<Rightarrow> time_point \<Rightarrow> 'g::linorder \<Rightarrow> string \<Rightarrow> 'g \<Rightarrow> string \<Rightarrow> time_point \<Rightarrow> bool
    \<Rightarrow> 'g Snapshot \<Rightarrow> (bool \<times> 'g Snapshot) run" where
  "AddParticipant dbg now spokesman srcName ptid name ts server img =
     (let (d, dbs) = access_snapshot spokesman srcName (databases img);
          ps0 = participants (dbs ! d);
          it0 = std_lower_bound endpoint_guid ps0 ptid;
          (it, ps) = (if std_absent endpoint_guid ps0 it0 ptid
                      then std_emplace endpoint_guid (new_participant ptid name server now) ps0
                      else (it0, ps0));
          p = ps ! it;
          p' = (if \<not> is_alive p
                then p\<lparr>participant_name := name, is_alive := True, is_server := server,
                       participant_timestamp := ts\<rparr>
                else p);
          img' = img\<lparr>databases := dbs[d := (dbs ! d)\<lparr>participants := ps[it := p']\<rparr>]\<rparr>
      in assert_run dbg (is_server p' = server) (True, img'))"

text \<open>\<open>RemoveParticipant (deceased)\<close> forgets everything the deceased reported.\<close>

definition RemoveSpokesman :: "'g::linorder \<Rightarrow> 'g Snapshot \<Rightarrow> bool \<times> 'g Snapshot" where
  "RemoveSpokesman deceased img =
     (let (n, dbs) = std_erase_key endpoint_guid deceased (databases img)
      in (n \<noteq> 0, img\<lparr>databases := dbs\<rparr>))"

text \<open>\<open>RemoveParticipant (spokesman, ptid)\<close>.\<close>

definition RemoveParticipant :: "'g::linorder \<Rightarrow> 'g \<Rightarrow> 'g Snapshot \<Rightarrow> bool \<times> 'g Snapshot" where
  "RemoveParticipant spokesman ptid img =
     (let (d, dbs) = snapshot_index spokesman (databases img);
          ps = participants (dbs ! d);
          it = std_lower_bound endpoint_guid ps ptid
      in if std_absent endpoint_guid ps it ptid then (False, img\<lparr>databases := dbs\<rparr>)
         else if CountEndpoints (ps ! it) > 0
         then (True, img\<lparr>databases :=
                 dbs[d := (dbs ! d)\<lparr>participants := ps[it := acknowledge False (ps ! it)]\<rparr>]\<rparr>)
         else (True, img\<lparr>databases :=
                 dbs[d := (dbs ! d)\<lparr>participants := std_erase_at it ps\<rparr>]\<rparr>))"

text \<open>
  The template over the endpoint kind: \<open>get\<close> and \<open>upd\<close> stand for the pointer to member
  (\<open>getDataReaders\<close> or \<open>getDataWriters\<close>) and \<open>mk\<close> for the constructor of the element type.
\<close>

definition AddEndPoint ::
  "('g::linorder ParticipantDiscoveryItem \<Rightarrow> ('g, 'a) EndpointItem_scheme list)
    \<Rightarrow> ((('g, 'a) EndpointItem_scheme list \<Rightarrow> ('g, 'a) EndpointItem_scheme list)
          \<Rightarrow> 'g ParticipantDiscoveryItem \<Rightarrow> 'g ParticipantDiscoveryItem)
    \<Rightarrow> ('g \<Rightarrow> string \<Rightarrow> string \<Rightarrow> time_point \<Rightarrow> ('g, 'a) EndpointItem_scheme)
    \<Rightarrow> bool \<Rightarrow> time_point \<Rightarrow> 'g \<Rightarrow> string \<Rightarrow> 'g \<Rightarrow> 'g \<Rightarrow> string \<Rightarrow> string \<Rightarrow> time_point
    \<Rightarrow> 'g Snapshot \<Rightarrow> (bool \<times> 'g Snapshot) run" where
  "AddEndPoint get upd mk dbg now spokesman srcName ptid eid typename topicname ts img =
     (let (d, dbs) = access_snapshot spokesman srcName (databases img);
          ps0 = participants (dbs ! d);
          it0 = std_lower_bound endpoint_guid ps0 ptid;
          (it, ps) = (if it0 = length ps0 \<or> ptid = spokesman
                      then let (i, ps1) = std_emplace endpoint_guid
                                            (new_participant ptid [] False now) ps0
                           in (i, ps1[i := acknowledge (ptid = spokesman) (ps1 ! i)])
                      else (it0, ps0));
          cont0 = get (ps ! it);
          sit0 = std_lower_bound endpoint_guid cont0 eid;
          (sit, cont) = (if std_absent endpoint_guid cont0 sit0 eid
                         then std_emplace endpoint_guid (mk eid typename topicname ts) cont0
                         else (sit0, cont0));
          img' = img\<lparr>databases :=
                   dbs[d := (dbs ! d)\<lparr>participants := ps[it := upd (\<lambda>_. cont) (ps ! it)]\<rparr>]\<rparr>
      in assert_run dbg
           (type_name (cont ! sit) = typename \<and> topic_name (cont ! sit) = topicname)
           (True, img'))"

definition RemoveEndPoint ::
  "('g::linorder ParticipantDiscoveryItem \<Rightarrow> ('g, 'a) EndpointItem_scheme list)
    \<Rightarrow> ((('g, 'a) EndpointItem_scheme list \<Rightarrow> ('g, 'a) EndpointItem_scheme list)
          \<Rightarrow> 'g ParticipantDiscoveryItem \<Rightarrow> 'g ParticipantDiscoveryItem)
    \<Rightarrow> 'g \<Rightarrow> 'g \<Rightarrow> 'g \<Rightarrow> 'g Snapshot \<Rightarrow> bool \<times> 'g Snapshot" where
  "RemoveEndPoint get upd spokesman ptid eid img =
     (if lookup_item (databases img) spokesman = None then (False, img)
      else
        let (d, dbs) = snapshot_index spokesman (databases img);
            ps = participants (dbs ! d);
            it = std_lower_bound endpoint_guid ps ptid
        in if std_absent endpoint_guid ps it ptid then (False, img\<lparr>databases := dbs\<rparr>)
           else
             let cont = get (ps ! it);
                 sit = std_lower_bound endpoint_guid cont eid
             in if std_absent endpoint_guid cont sit eid then (False, img\<lparr>databases := dbs\<rparr>)
                else
                  let p = upd (\<lambda>_. std_erase_at sit cont) (ps ! it);
                      ps' = (if CountEndpoints p = 0 \<and> \<not> is_alive p
                             then std_erase_at it (ps[it := p]) else ps[it := p])
                  in (True, img\<lparr>databases := dbs[d := (dbs ! d)\<lparr>participants := ps'\<rparr>]\<rparr>))"

definition AddDataReader ::
  "bool \<Rightarrow> time_point \<Rightarrow> 'g::linorder \<Rightarrow> string \<Rightarrow> 'g \<Rightarrow> 'g \<Rightarrow> string \<Rightarrow> string \<Rightarrow> time_point
    \<Rightarrow> 'g Snapshot \<Rightarrow> (bool \<times> 'g Snapshot) run" where
  "AddDataReader = AddEndPoint datareaders datareaders_update new_datareader"

definition RemoveDataReader ::
  "'g::linorder \<Rightarrow> 'g \<Rightarrow> 'g \<Rightarrow> 'g Snapshot \<Rightarrow> bool \<times> 'g Snapshot" where
  "RemoveDataReader = RemoveEndPoint datareaders datareaders_update"

definition AddDataWriter ::
  "bool \<Rightarrow> time_point \<Rightarrow> 'g::linorder \<Rightarrow> string \<Rightarrow> 'g \<Rightarrow> 'g \<Rightarrow> string \<Rightarrow> string \<Rightarrow> time_point
    \<Rightarrow> 'g Snapshot \<Rightarrow> (bool \<times> 'g Snapshot) run" where
  "AddDataWriter = AddEndPoint datawriters datawriters_update new_datawriter"

definition RemoveDataWriter ::
  "'g::linorder \<Rightarrow> 'g \<Rightarrow> 'g \<Rightarrow> 'g Snapshot \<Rightarrow> bool \<times> 'g Snapshot" where
  "RemoveDataWriter = RemoveEndPoint datawriters datawriters_update"

text \<open>
  \<open>participant_of g\<close> is \<open>g\<close> with its entity id replaced by \<open>c_EntityId_RTPSParticipant\<close>, the GUID of
  the participant that owns the endpoint; GUIDs are Fast DDS's, so it is a parameter.
\<close>

definition UpdateSubLiveliness ::
  "('g::linorder \<Rightarrow> 'g) \<Rightarrow> 'g \<Rightarrow> int32 \<Rightarrow> int32 \<Rightarrow> 'g Snapshot \<Rightarrow> 'g Snapshot" where
  "UpdateSubLiveliness participant_of subs alive not_alive img =
     (let pguid = participant_of subs
      in if lookup_item (databases img) pguid = None then img
         else
           let (d, dbs) = snapshot_index pguid (databases img);
               ps = participants (dbs ! d);
               it = std_lower_bound endpoint_guid ps pguid
           in if std_absent endpoint_guid ps it pguid then img\<lparr>databases := dbs\<rparr>
              else
                let ss = datareaders (ps ! it);
                    sit = std_lower_bound endpoint_guid ss subs
                in if std_absent endpoint_guid ss sit subs then img\<lparr>databases := dbs\<rparr>
                   else
                     let sub = (ss ! sit)\<lparr>alive_count := alive, not_alive_count := not_alive\<rparr>
                     in img\<lparr>databases := dbs[d := (dbs ! d)\<lparr>participants :=
                          ps[it := (ps ! it)\<lparr>datareaders := ss[sit := sub]\<rparr>]\<rparr>]\<rparr>)"

definition CountParticipants :: "'g::linorder \<Rightarrow> 'g Snapshot \<Rightarrow> nat" where
  "CountParticipants spokesman img =
     (case snapshot_const_index spokesman (databases img) of
        None \<Rightarrow> 0
      | Some db \<Rightarrow> length (participants db))"

definition CountDataReaders :: "'g::linorder \<Rightarrow> 'g Snapshot \<Rightarrow> nat" where
  "CountDataReaders spokesman img =
     (case snapshot_const_index spokesman (databases img) of
        None \<Rightarrow> 0
      | Some db \<Rightarrow> fold (\<lambda>part count. count + length (datareaders part)) (participants db) 0)"

definition CountDataWriters :: "'g::linorder \<Rightarrow> 'g Snapshot \<Rightarrow> nat" where
  "CountDataWriters spokesman img =
     (case snapshot_const_index spokesman (databases img) of
        None \<Rightarrow> 0
      | Some db \<Rightarrow> fold (\<lambda>part count. count + length (datawriters part)) (participants db) 0)"

definition CountDataReadersOf :: "'g::linorder \<Rightarrow> 'g \<Rightarrow> 'g Snapshot \<Rightarrow> nat" where
  "CountDataReadersOf spokesman ptid img =
     (case snapshot_const_index spokesman (databases img) of
        None \<Rightarrow> 0
      | Some db \<Rightarrow>
          let it = std_lower_bound endpoint_guid (participants db) ptid
          in if std_absent endpoint_guid (participants db) it ptid then 0
             else length (datareaders (participants db ! it)))"

definition CountDataWritersOf :: "'g::linorder \<Rightarrow> 'g \<Rightarrow> 'g Snapshot \<Rightarrow> nat" where
  "CountDataWritersOf spokesman ptid img =
     (case snapshot_const_index spokesman (databases img) of
        None \<Rightarrow> 0
      | Some db \<Rightarrow>
          let it = std_lower_bound endpoint_guid (participants db) ptid
          in if std_absent endpoint_guid (participants db) it ptid then 0
             else length (datawriters (participants db ! it)))"

end
