(* ===== verification/Database_Facts.thy ===== *)
theory Database_Facts
  imports Discovery_Database
begin

text \<open>
  What the operations of \<open>DiscoveryItemDatabase\<close> do, seen through \<open>known\<close>: well-formedness of an
  image, the normal form of each operation as an edit of one spokesman's participant list, and the
  contract of the endpoint template, proved once for both endpoint kinds in \<open>endpoint_member\<close>.
\<close>

section \<open>Well-formed images and what spokesmen know\<close>

definition participant_ok :: "('g::linorder) ParticipantDiscoveryItem \<Rightarrow> bool" where
  "participant_ok p \<longleftrightarrow> items_ok (datawriters p) \<and> items_ok (datareaders p)"

definition participants_ok :: "('g::linorder) ParticipantDiscoveryItem list \<Rightarrow> bool" where
  "participants_ok ps \<longleftrightarrow> items_ok ps \<and> (\<forall>p\<in>set ps. participant_ok p)"

definition image_ok :: "('g::linorder) Snapshot \<Rightarrow> bool" where
  "image_ok img \<longleftrightarrow> items_ok (databases img) \<and>
     (\<forall>db\<in>set (databases img). participants_ok (participants db))"

definition known :: "('g::linorder) Snapshot \<Rightarrow> 'g \<Rightarrow> 'g ParticipantDiscoveryItem list" where
  "known img s = case_option [] participants (lookup_item (databases img) s)"

definition view :: "('g::linorder) Snapshot \<Rightarrow> 'g \<Rightarrow> 'g \<Rightarrow> 'g ParticipantDiscoveryItem option" where
  "view img s p = lookup_item (known img s) p"

definition set_known ::
  "'g::linorder \<Rightarrow> string \<Rightarrow> 'g ParticipantDiscoveryItem list \<Rightarrow> 'g Snapshot \<Rightarrow> 'g Snapshot" where
  "set_known s name ps img = img\<lparr>databases :=
     std_alter endpoint_guid s (participants_update (\<lambda>_. ps))
       (std_put endpoint_guid (new_database s name) (databases img))\<rparr>"

interpretation databases_set:
  nested_set endpoint_guid "std_find endpoint_guid" "std_ok endpoint_guid" "std_put endpoint_guid"
    "std_alter endpoint_guid" "std_remove endpoint_guid"
    "participants :: 'g::linorder ParticipantDiscoveryDatabase \<Rightarrow> _" participants_update
  by unfold_locales simp_all

lemma participants_ok_Nil [simp]: "participants_ok []"
  by (simp add: participants_ok_def)

lemma image_ok_items [dest]: "image_ok img \<Longrightarrow> items_ok (databases img)"
  by (simp add: image_ok_def)

lemma image_ok_known: "image_ok img \<Longrightarrow> participants_ok (known img s)"
  by (auto simp: image_ok_def known_def dest: std_find_set split: option.split)

lemma image_ok_known_items: "image_ok img \<Longrightarrow> items_ok (known img s)"
  using image_ok_known by (auto simp: participants_ok_def)

lemma image_ok_view: "image_ok img \<Longrightarrow> view img s p = Some q \<Longrightarrow> participant_ok q"
  using image_ok_known [of img s] by (auto simp: participants_ok_def view_def dest: std_find_set)

lemma view_guid: "view img s p = Some q \<Longrightarrow> endpoint_guid q = p"
  by (auto simp: view_def dest: std_find_key)

lemma endpoint_guid_new [simp]:
  "endpoint_guid (new_database s n) = s"
  "endpoint_guid (new_participant p nm sv t) = p"
  "endpoint_guid (new_datareader e ty tp t) = e"
  "endpoint_guid (new_datawriter e ty tp t) = e"
  by (simp_all add: item_defs)

lemma participants_new [simp]: "participants (new_database s n) = []"
  by (simp add: item_defs)

lemma items_ok_set_known:
  "items_ok (databases img) \<Longrightarrow> items_ok (databases (set_known s n ps img))"
  unfolding set_known_def by (simp add: std_ok_alter std_ok_put)

lemma known_set_known:
  assumes "items_ok (databases img)"
  shows "known (set_known s n ps img) = (known img)(s := ps)"
proof
  fix b
  show "known (set_known s n ps img) b = ((known img)(s := ps)) b"
    using databases_set.contents_upsert [OF assms participants_new, of s n "\<lambda>_. ps" b]
    by (auto simp: known_def set_known_def)
qed

lemma view_set_known:
  "items_ok (databases img) \<Longrightarrow>
   view (set_known s n ps img) a p = (if a = s then lookup_item ps p else view img a p)"
  by (simp add: view_def known_set_known)

lemma image_ok_set_known:
  assumes "image_ok img" "participants_ok ps"
  shows "image_ok (set_known s n ps img)"
proof -
  have "participants_ok (participants db)" if "db \<in> set (databases (set_known s n ps img))" for db
  proof -
    have "lookup_item (databases (set_known s n ps img)) (endpoint_guid db) = Some db"
      using that assms by (intro std_find_mem items_ok_set_known) auto
    then have "participants db = known (set_known s n ps img) (endpoint_guid db)"
      by (simp add: known_def)
    then show ?thesis
      using assms image_ok_known [OF assms(1)] by (auto simp: known_set_known image_ok_items)
  qed
  then show ?thesis using assms by (auto simp: image_ok_def intro: items_ok_set_known)
qed

lemma std_alter_id:
  "std_ok key xs \<Longrightarrow> (\<And>x. std_find key xs g = Some x \<Longrightarrow> f x = x) \<Longrightarrow> std_alter key g f xs = xs"
proof (induction xs)
  case (Cons x xs)
  have "std_alter key g f xs = xs" if "key x < g"
  proof (rule Cons.IH)
    show "f y = y" if "std_find key xs g = Some y" for y
      using Cons.prems(2) [of y] that \<open>key x < g\<close> by (auto simp: less_le)
  qed (use Cons.prems in simp)
  with Cons.prems show ?case by auto
qed simp

lemma set_known_same:
  assumes "items_ok (databases img)" "lookup_item (databases img) s \<noteq> None"
  shows "set_known s n (known img s) img = img"
proof -
  have "std_put endpoint_guid (new_database s n) (databases img) = databases img"
    using assms by (intro std_put_found) auto
  moreover have "std_alter endpoint_guid s (participants_update (\<lambda>_. known img s)) (databases img)
      = databases img"
    using assms by (intro std_alter_id) (auto simp: known_def)
  ultimately show ?thesis by (simp add: set_known_def)
qed

subsection \<open>The container operations in normal form\<close>

lemma access_snapshot_eq:
  assumes "items_ok dbs"
  shows "access_snapshot s n dbs =
    (std_lower_bound endpoint_guid dbs s, std_put endpoint_guid (new_database s n) dbs)"
  using assms std_put_found [of endpoint_guid dbs "new_database s n"]
  by (auto simp: access_snapshot_def Let_def std_absent_lower_bound std_emplace_eq)

lemma snapshot_index_eq:
  "items_ok dbs \<Longrightarrow> snapshot_index s dbs =
    (std_lower_bound endpoint_guid dbs s, std_put endpoint_guid (new_database s []) dbs)"
  using access_snapshot_eq [of dbs s "[]"] by (simp add: access_snapshot_def snapshot_index_def)

lemma snapshot_const_index_eq:
  "items_ok dbs \<Longrightarrow> snapshot_const_index s dbs = lookup_item dbs s"
  by (cases "lookup_item dbs s")
     (auto simp: snapshot_const_index_def Let_def std_absent_lower_bound dest: std_found_nth)

lemma participants_at_index:
  assumes "items_ok (databases img)"
  shows "participants (std_put endpoint_guid (new_database s n) (databases img)
           ! std_lower_bound endpoint_guid (databases img) s) = known img s"
proof -
  let ?dbs = "std_put endpoint_guid (new_database s n) (databases img)"
  let ?it = "std_lower_bound endpoint_guid ?dbs s"
  obtain db where db: "lookup_item ?dbs s = Some db"
    using std_set.find_put_same [OF assms, of "new_database s n"] by auto
  have "?dbs ! ?it = db"
    using std_found_nth [OF std_ok_put [OF assms] db] by simp
  moreover have "?it = std_lower_bound endpoint_guid (databases img) s"
    using std_lower_bound_put [of endpoint_guid "new_database s n" "databases img"] by simp
  moreover have "participants db = known img s"
    using db std_set.find_put_same [OF assms, of "new_database s n"]
    by (auto simp: known_def split: option.splits)
  ultimately show ?thesis by simp
qed

lemma update_at_index:
  assumes "items_ok (databases img)"
  shows "img\<lparr>databases := (std_put endpoint_guid (new_database s n) (databases img))
          [std_lower_bound endpoint_guid (databases img) s :=
             (std_put endpoint_guid (new_database s n) (databases img)
                ! std_lower_bound endpoint_guid (databases img) s)\<lparr>participants := ps\<rparr>]\<rparr>
       = set_known s n ps img"
  using std_update_put [OF assms, of "new_database s n" "participants_update (\<lambda>_. ps)"]
  by (simp add: set_known_def)

lemma put_at_index:
  assumes "items_ok (databases img)"
  shows "img\<lparr>databases := std_put endpoint_guid (new_database s n) (databases img)\<rparr>
       = set_known s n (known img s) img"
proof -
  let ?dbs = "std_put endpoint_guid (new_database s n) (databases img)"
  have "std_alter endpoint_guid s (participants_update (\<lambda>_. known img s)) ?dbs = ?dbs"
    using assms std_set.find_put_same [OF assms, of "new_database s n"]
    by (intro std_alter_id std_ok_put) (auto simp: known_def split: option.splits)
  then show ?thesis by (simp add: set_known_def)
qed

text \<open>
  \<open>open_spokesman\<close> is the bundle with which every operation's prologue is rewritten to \<open>known\<close>
  and its epilogue to \<open>set_known\<close>.
\<close>

lemmas open_spokesman =
  access_snapshot_eq snapshot_index_eq participants_at_index update_at_index put_at_index

section \<open>Participants\<close>

definition revive :: "string \<Rightarrow> bool \<Rightarrow> time_point \<Rightarrow> 'g ParticipantDiscoveryItem
    \<Rightarrow> 'g ParticipantDiscoveryItem" where
  "revive name server ts p =
     (if is_alive p then p
      else p\<lparr>participant_name := name, is_alive := True, is_server := server,
             participant_timestamp := ts\<rparr>)"

definition report_participant ::
  "'g::linorder \<Rightarrow> string \<Rightarrow> bool \<Rightarrow> time_point \<Rightarrow> time_point
    \<Rightarrow> 'g ParticipantDiscoveryItem list \<Rightarrow> 'g ParticipantDiscoveryItem list" where
  "report_participant p name server now ts ps =
     std_alter endpoint_guid p (revive name server ts)
       (std_put endpoint_guid (new_participant p name server now) ps)"

definition bury_participant ::
  "'g::linorder \<Rightarrow> 'g ParticipantDiscoveryItem list \<Rightarrow> 'g ParticipantDiscoveryItem list" where
  "bury_participant p ps =
     (case lookup_item ps p of
        None \<Rightarrow> ps
      | Some q \<Rightarrow> if CountEndpoints q > 0 then std_alter endpoint_guid p (acknowledge False) ps
                  else std_remove endpoint_guid p ps)"

lemma revive_guid [simp]: "endpoint_guid (revive n sv ts p) = endpoint_guid p"
  by (simp add: revive_def)

lemma acknowledge_guid [simp]: "endpoint_guid (acknowledge b p) = endpoint_guid p"
  by (simp add: acknowledge_def)

lemma participant_ok_simps [simp]:
  "participant_ok (new_participant p n sv t)"
  "participant_ok (revive n sv ts q) \<longleftrightarrow> participant_ok q"
  "participant_ok (acknowledge b q) \<longleftrightarrow> participant_ok q"
  by (simp_all add: participant_ok_def item_defs revive_def)

lemma participants_ok_put [ok_intros]:
  "participants_ok ps \<Longrightarrow> participant_ok q \<Longrightarrow> participants_ok (std_put endpoint_guid q ps)"
  using set_std_put [of endpoint_guid q ps] by (auto simp: participants_ok_def std_ok_put)

lemma participants_ok_alter [ok_intros]:
  "participants_ok ps \<Longrightarrow> (\<And>q. endpoint_guid (f q) = endpoint_guid q) \<Longrightarrow>
   (\<And>q. participant_ok q \<Longrightarrow> participant_ok (f q)) \<Longrightarrow>
   participants_ok (std_alter endpoint_guid p f ps)"
  using set_std_alter [of endpoint_guid p f ps] by (auto simp: participants_ok_def std_ok_alter)

lemma participants_ok_remove [ok_intros]:
  "participants_ok ps \<Longrightarrow> participants_ok (std_remove endpoint_guid p ps)"
  using set_std_remove [of endpoint_guid p ps] by (auto simp: participants_ok_def std_ok_remove)

lemma participants_ok_report [ok_intros]:
  "participants_ok ps \<Longrightarrow> participants_ok (report_participant p n sv now ts ps)"
  unfolding report_participant_def by (intro ok_intros) simp_all

lemma participants_ok_bury [ok_intros]:
  "participants_ok ps \<Longrightarrow> participants_ok (bury_participant p ps)"
  by (auto simp: bury_participant_def intro!: ok_intros split: option.split)

lemma lookup_report:
  "items_ok ps \<Longrightarrow> lookup_item (report_participant p n sv now ts ps) =
    (lookup_item ps)(p \<mapsto> (case lookup_item ps p of
        None \<Rightarrow> new_participant p n sv now | Some q \<Rightarrow> revive n sv ts q))"
  unfolding report_participant_def
  by (auto simp: std_find_alter std_find_put std_ok_put fun_eq_iff revive_def item_defs
      split: option.split)

lemma lookup_bury:
  "items_ok ps \<Longrightarrow> lookup_item (bury_participant p ps) =
    (lookup_item ps)(p := (case lookup_item ps p of
        None \<Rightarrow> None
      | Some q \<Rightarrow> if CountEndpoints q > 0 then Some (acknowledge False q) else None))"
  by (auto simp: bury_participant_def std_find_alter std_find_remove fun_eq_iff split: option.split)

lemma AddParticipant_known:
  assumes ok: "image_ok img"
  shows "AddParticipant dbg now s n p nm ts sv img =
    (let ps = report_participant p nm sv now ts (known img s)
     in assert_run dbg (is_server (the (lookup_item ps p)) = sv) (True, set_known s n ps img))"
proof -
  note items = image_ok_items [OF ok] and ps = image_ok_known_items [OF ok, of s]
  let ?ps = "known img s" and ?it = "std_lower_bound endpoint_guid (known img s) p"
  let ?ps1 = "std_put endpoint_guid (new_participant p nm sv now) ?ps"
  let ?q = "?ps1 ! ?it"
  let ?ps2 = "report_participant p nm sv now ts ?ps"
  have upd: "?ps1[?it := revive nm sv ts ?q] = ?ps2"
    using std_update_put [OF ps, of "new_participant p nm sv now" "revive nm sv ts"]
    by (simp add: report_participant_def)
  have nth: "lookup_item ?ps2 p = Some (revive nm sv ts ?q)"
  proof (cases "lookup_item ?ps p")
    case None
    then show ?thesis
      using std_nth_put [OF ps, of "new_participant p nm sv now"] ps
      by (simp add: lookup_report revive_def item_defs)
  next
    case (Some q)
    then show ?thesis
      using std_put_found [OF ps, of "new_participant p nm sv now"] std_found_nth [OF ps Some] ps
      by (simp add: lookup_report)
  qed
  have put: "(if lookup_item ?ps p = None then (?it, ?ps1) else (?it, ?ps)) = (?it, ?ps1)"
    using std_put_found [OF ps, of "new_participant p nm sv now"] by auto
  have rev: "(if \<not> is_alive ?q
       then ?q\<lparr>participant_name := nm, is_alive := True, is_server := sv, participant_timestamp := ts\<rparr>
       else ?q) = revive nm sv ts ?q"
    by (simp add: revive_def)
  show ?thesis
    unfolding AddParticipant_def access_snapshot_eq [OF items] Let_def prod.case
      participants_at_index [OF items] std_absent_lower_bound [OF ps] std_emplace_eq
      endpoint_guid_new put rev upd update_at_index [OF items]
    by (simp add: nth rev upd update_at_index [OF items])
qed

lemma RemoveParticipant_known:
  assumes ok: "image_ok img"
  shows "RemoveParticipant s p img =
    (view img s p \<noteq> None, set_known s [] (bury_participant p (known img s)) img)"
proof -
  note items = image_ok_items [OF ok] and ps = image_ok_known_items [OF ok, of s]
  note prologue = RemoveParticipant_def snapshot_index_eq [OF items] Let_def prod.case
    participants_at_index [OF items] std_absent_lower_bound [OF ps] update_at_index [OF items]
    put_at_index [OF items]
  show ?thesis
  proof (cases "lookup_item (known img s) p")
    case None
    then show ?thesis unfolding prologue by (simp add: view_def bury_participant_def)
  next
    case (Some q)
    have at: "std_lower_bound endpoint_guid (known img s) p < length (known img s)"
      "known img s ! std_lower_bound endpoint_guid (known img s) p = q"
      using std_found_nth [OF ps Some] by auto
    have q: "endpoint_guid q = p" using Some by (rule std_find_key)
    show ?thesis
      unfolding prologue using Some at q
        std_update_at [OF ps at(1), of "acknowledge False"] std_erase_at_remove [OF ps at(1)]
      by (simp add: view_def bury_participant_def)
  qed
qed
lemma RemoveSpokesman_known:
  assumes ok: "image_ok img"
  shows "fst (RemoveSpokesman s img) \<longleftrightarrow> lookup_item (databases img) s \<noteq> None"
    and "known (snd (RemoveSpokesman s img)) = (known img)(s := [])"
    and "image_ok (snd (RemoveSpokesman s img))"
proof -
  note items = image_ok_items [OF ok]
  have dbs: "snd (RemoveSpokesman s img) = img\<lparr>databases := std_remove endpoint_guid s (databases img)\<rparr>"
    by (simp add: RemoveSpokesman_def case_prod_beta std_erase_key_remove [OF items])
  show "fst (RemoveSpokesman s img) \<longleftrightarrow> lookup_item (databases img) s \<noteq> None"
    by (simp add: RemoveSpokesman_def case_prod_beta std_erase_key_count [OF items])
  show "known (snd (RemoveSpokesman s img)) = (known img)(s := [])"
    using databases_set.contents_remove [OF items, of "[]" s] by (auto simp: dbs known_def)
  show "image_ok (snd (RemoveSpokesman s img))"
    using ok set_std_remove [of endpoint_guid s "databases img"]
    by (auto simp: dbs image_ok_def std_ok_remove)
qed
section \<open>Endpoints\<close>
definition owner_of :: "'g::linorder \<Rightarrow> 'g \<Rightarrow> 'g ParticipantDiscoveryItem list \<Rightarrow> 'g" where
  "owner_of s p ps =
     (let it = std_lower_bound endpoint_guid ps p
      in if it = length ps \<or> p = s then p else endpoint_guid (ps ! it))"
definition prepare_owner ::
  "'g::linorder \<Rightarrow> 'g \<Rightarrow> time_point \<Rightarrow> 'g ParticipantDiscoveryItem list
    \<Rightarrow> 'g ParticipantDiscoveryItem list" where
  "prepare_owner s p now ps =
     (if std_lower_bound endpoint_guid ps p = length ps \<or> p = s
      then std_alter endpoint_guid p (acknowledge (p = s))
             (std_put endpoint_guid (new_participant p [] False now) ps)
      else ps)"
lemma participants_ok_prepare:
  "participants_ok ps \<Longrightarrow> participants_ok (prepare_owner s p now ps)"
  by (auto simp: prepare_owner_def intro!: ok_intros)
lemma owner_found:
  fixes p s :: "'g::linorder" and now :: time_point and ps :: "'g ParticipantDiscoveryItem list"
  assumes ok: "items_ok ps"
  defines "ps' \<equiv> prepare_owner s p now ps" and "it \<equiv> std_lower_bound endpoint_guid ps p"
  shows "it < length ps'" "endpoint_guid (ps' ! it) = owner_of s p ps"
proof -
  let ?new = "new_participant p [] False now"
  have it: "std_lower_bound endpoint_guid ps (endpoint_guid ?new) = it" by (simp add: it_def)
  have less: "it < length (std_put endpoint_guid ?new ps)"
    using std_lower_bound_put_less [of endpoint_guid ps ?new] by (simp add: it_def)
  have key: "endpoint_guid (std_put endpoint_guid ?new ps ! it) = p"
    using std_absent_put [OF ok, of ?new] less by (simp add: std_absent_def it_def)
  have len: "length (std_alter endpoint_guid p f xs) = length xs" for f and xs :: "'g ParticipantDiscoveryItem list"
    by (induction xs) auto
  have "map endpoint_guid (std_alter endpoint_guid p (acknowledge (p = s)) (std_put endpoint_guid ?new ps))
      = map endpoint_guid (std_put endpoint_guid ?new ps)"
    by (rule keys_std_alter) simp
  then have key': "endpoint_guid (std_alter endpoint_guid p (acknowledge (p = s))
      (std_put endpoint_guid ?new ps) ! it) = p"
    using less key len by (metis nth_map)
  have "it \<noteq> length ps \<Longrightarrow> it < length ps"
    using std_lower_bound_le [of endpoint_guid ps p] by (simp add: it_def)
  then show "it < length ps'" "endpoint_guid (ps' ! it) = owner_of s p ps"
    using less key' by (auto simp: ps'_def prepare_owner_def owner_of_def Let_def len it_def)
qed
definition file_endpoint ::
  "((('g::linorder, 'a) EndpointItem_scheme list \<Rightarrow> ('g, 'a) EndpointItem_scheme list)
      \<Rightarrow> 'g ParticipantDiscoveryItem \<Rightarrow> 'g ParticipantDiscoveryItem)
    \<Rightarrow> ('g, 'a) EndpointItem_scheme \<Rightarrow> 'g \<Rightarrow> 'g \<Rightarrow> time_point
    \<Rightarrow> 'g ParticipantDiscoveryItem list \<Rightarrow> 'g ParticipantDiscoveryItem list" where
  "file_endpoint upd x s p now ps =
     std_alter endpoint_guid (owner_of s p ps) (upd (std_put endpoint_guid x))
       (prepare_owner s p now ps)"
definition drop_endpoint ::
  "((('g::linorder, 'a) EndpointItem_scheme list \<Rightarrow> ('g, 'a) EndpointItem_scheme list)
      \<Rightarrow> 'g ParticipantDiscoveryItem \<Rightarrow> 'g ParticipantDiscoveryItem)
    \<Rightarrow> 'g \<Rightarrow> 'g ParticipantDiscoveryItem \<Rightarrow> 'g ParticipantDiscoveryItem list
    \<Rightarrow> 'g ParticipantDiscoveryItem list" where
  "drop_endpoint upd e q ps =
     (let q' = upd (std_remove endpoint_guid e) q
      in if CountEndpoints q' = 0 \<and> \<not> is_alive q' then std_remove endpoint_guid (endpoint_guid q) ps
         else std_alter endpoint_guid (endpoint_guid q) (upd (std_remove endpoint_guid e)) ps)"
lemma prepare_owner_code:
  assumes "items_ok ps"
  shows "(if std_lower_bound endpoint_guid ps p = length ps \<or> p = s
      then let (i, ps1) = std_emplace endpoint_guid (new_participant p [] False now) ps
           in (i, ps1[i := acknowledge (p = s) (ps1 ! i)])
      else (std_lower_bound endpoint_guid ps p, ps))
    = (std_lower_bound endpoint_guid ps p, prepare_owner s p now ps)"
  using std_update_put [OF assms, of "new_participant p [] False now" "acknowledge (p = s)"]
  by (auto simp: prepare_owner_def std_emplace_eq)
text \<open>
  The two instances of the template differ in the member they reach and the element they build.
  The locale holds what the template relies on: \<open>upd\<close> edits the member \<open>get\<close> reads and leaves the
  participant's identity and liveliness alone, and the constructor stores its arguments.
\<close>
locale endpoint_member =
  fixes get :: "('g::linorder) ParticipantDiscoveryItem \<Rightarrow> ('g, 'a) EndpointItem_scheme list"
    and upd :: "(('g, 'a) EndpointItem_scheme list \<Rightarrow> ('g, 'a) EndpointItem_scheme list)
      \<Rightarrow> 'g ParticipantDiscoveryItem \<Rightarrow> 'g ParticipantDiscoveryItem"
    and mk :: "'g \<Rightarrow> string \<Rightarrow> string \<Rightarrow> time_point \<Rightarrow> ('g, 'a) EndpointItem_scheme"
  assumes get_upd: "get (upd f p) = f (get p)"
    and upd_cong: "f (get p) = h (get p) \<Longrightarrow> upd f p = upd h p"
    and upd_guid: "endpoint_guid (upd f p) = endpoint_guid p"
    and upd_alive: "is_alive (upd f p) = is_alive p"
    and get_acknowledge: "get (acknowledge b p) = get p"
    and get_new: "get (new_participant g n sv t) = []"
    and get_ok: "participant_ok p \<Longrightarrow> items_ok (get p)"
    and upd_ok: "participant_ok p \<Longrightarrow> items_ok (f (get p)) \<Longrightarrow> participant_ok (upd f p)"
    and count_upd: "CountEndpoints (upd f p) + length (get p) = CountEndpoints p + length (f (get p))"
    and mk_guid: "endpoint_guid (mk e ty tp t) = e"
    and mk_type: "type_name (mk e ty tp t) = ty"
    and mk_topic: "topic_name (mk e ty tp t) = tp"
begin
lemma participants_ok_file:
  assumes "participants_ok ps"
  shows "participants_ok (file_endpoint upd x s p now ps)"
  unfolding file_endpoint_def
  by (intro participants_ok_alter participants_ok_prepare assms)
     (auto simp: upd_guid intro!: upd_ok std_ok_put get_ok)
lemma participants_ok_drop:
  assumes "participants_ok ps"
  shows "participants_ok (drop_endpoint upd e q ps)"
  unfolding drop_endpoint_def Let_def using assms
  by (auto simp: upd_guid intro!: participants_ok_alter participants_ok_remove upd_ok std_ok_remove get_ok)
lemma AddEndPoint_known:
  fixes ts :: time_point
  assumes ok: "image_ok img" and x_def: "x = mk e ty tp ts"
  shows "AddEndPoint get upd mk dbg now s n p e ty tp ts img =
    (let ps = file_endpoint upd x s p now (known img s);
         y = the (lookup_item (get (the (lookup_item ps (owner_of s p (known img s))))) e)
     in assert_run dbg (type_name y = ty \<and> topic_name y = tp) (True, set_known s n ps img))"
proof -
  note items = image_ok_items [OF ok] and ps0 = image_ok_known_items [OF ok, of s]
  let ?kn = "known img s" and ?it = "std_lower_bound endpoint_guid (known img s) p"
  let ?ps = "prepare_owner s p now ?kn" and ?o = "owner_of s p (known img s)"
  have okps: "participants_ok ?ps"
    by (intro participants_ok_prepare image_ok_known ok)
  then have items_ps: "items_ok ?ps" by (simp add: participants_ok_def)
  note at = owner_found [OF ps0, where s = s and p = p and now = now]
  let ?q = "?ps ! ?it"
  have "participant_ok ?q" using okps at(1) by (auto simp: participants_ok_def)
  then have cont0: "items_ok (get ?q)" by (rule get_ok)
  note prep = prepare_owner_code [OF ps0, of p s now]
  let ?sit = "std_lower_bound endpoint_guid (get ?q) e"
  let ?cont = "std_put endpoint_guid x (get ?q)"
  have cont: "(if std_absent endpoint_guid (get ?q) ?sit e
      then std_emplace endpoint_guid x (get ?q) else (?sit, get ?q)) = (?sit, ?cont)"
    using std_put_found [OF cont0, of x] std_absent_lower_bound [OF cont0, of e]
    by (auto simp: std_emplace_eq x_def mk_guid)
  have put: "?ps[?it := upd (\<lambda>_. ?cont) ?q] = file_endpoint upd x s p now ?kn"
    using std_update_at [OF items_ps at(1), of "upd (std_put endpoint_guid x)"] at(2)
    by (simp add: file_endpoint_def upd_cong [of "\<lambda>_. ?cont" ?q "std_put endpoint_guid x"])
  have look: "lookup_item (file_endpoint upd x s p now ?kn) ?o = Some (upd (std_put endpoint_guid x) ?q)"
    using std_find_nth [OF items_ps at(1)] at(2) items_ps
    by (simp add: file_endpoint_def std_find_alter upd_guid)
  have nth: "?cont ! ?sit = the (lookup_item ?cont e)"
    using std_found_nth [OF std_ok_put [OF cont0], of x e]
      std_set.find_put_same [OF cont0, of x] std_lower_bound_put [of endpoint_guid x "get ?q"]
    by (auto simp: x_def mk_guid)
  show ?thesis
    unfolding AddEndPoint_def access_snapshot_eq [OF items] Let_def prod.case
      participants_at_index [OF items] prep [unfolded Let_def] x_def [symmetric] cont put
      update_at_index [OF items]
    by (simp add: look nth get_upd)
qed
lemma RemoveEndPoint_known:
  assumes ok: "image_ok img"
  shows "RemoveEndPoint get upd s p e img =
    (case view img s p of
       None \<Rightarrow> (False, img)
     | Some q \<Rightarrow> if lookup_item (get q) e = None then (False, img)
                 else (True, set_known s [] (drop_endpoint upd e q (known img s)) img))"
proof (cases "lookup_item (databases img) s")
  case None
  then show ?thesis by (simp add: RemoveEndPoint_def view_def known_def)
next
  case (Some db)
  note items = image_ok_items [OF ok] and ps = image_ok_known_items [OF ok, of s]
  let ?ps = "known img s" and ?it = "std_lower_bound endpoint_guid (known img s) p"
  have same: "set_known s [] ?ps img = img" using Some items by (intro set_known_same) auto
  note prologue = RemoveEndPoint_def snapshot_index_eq [OF items] Let_def prod.case
    participants_at_index [OF items] std_absent_lower_bound [OF ps] update_at_index [OF items]
    put_at_index [OF items] same
  show ?thesis
  proof (cases "lookup_item ?ps p")
    case None
    then show ?thesis unfolding prologue by (simp add: Some view_def)
  next
    case q: (Some q)
    have at: "?it < length ?ps" "?ps ! ?it = q" using std_found_nth [OF ps q] by auto
    have guid: "endpoint_guid q = p" using q by (rule std_find_key)
    have "participant_ok q" using q ok by (intro image_ok_view [of img s p]) (auto simp: view_def)
    then have cont: "items_ok (get q)" by (rule get_ok)
    show ?thesis
    proof (cases "lookup_item (get q) e")
      case None
      then show ?thesis unfolding prologue
        by (simp add: Some q at view_def std_absent_lower_bound [OF cont])
    next
      case x: (Some x)
      have "std_erase_at (std_lower_bound endpoint_guid (get q) e) (get q)
          = std_remove endpoint_guid e (get q)"
        using std_erase_at_remove [OF cont, of "std_lower_bound endpoint_guid (get q) e"]
          std_found_nth [OF cont x] std_find_key [OF x] by auto
      then have erase: "upd (\<lambda>_. std_erase_at (std_lower_bound endpoint_guid (get q) e) (get q)) q
          = upd (std_remove endpoint_guid e) q"
        by (intro upd_cong) simp
      have edit: "?ps[?it := upd (std_remove endpoint_guid e) q]
          = std_alter endpoint_guid p (upd (std_remove endpoint_guid e)) ?ps"
        using std_update_at [OF ps at(1), of "upd (std_remove endpoint_guid e)"]
        by (simp add: at guid)
      have gone: "std_erase_at ?it ?ps = std_remove endpoint_guid p ?ps"
        using std_erase_at_remove [OF ps at(1)] by (simp add: at guid)
      show ?thesis unfolding prologue
        by (simp add: Some q at guid view_def std_absent_lower_bound [OF cont] x erase
            gone drop_endpoint_def Let_def) (simp add: edit)
    qed
  qed
qed

end
subsection \<open>What lookups return afterwards\<close>
definition owner_item ::
  "'g::linorder \<Rightarrow> 'g \<Rightarrow> time_point \<Rightarrow> 'g ParticipantDiscoveryItem list
    \<Rightarrow> 'g ParticipantDiscoveryItem" where
  "owner_item s p now ps =
     (case lookup_item ps (owner_of s p ps) of
        None \<Rightarrow> acknowledge (p = s) (new_participant p [] False now)
      | Some q \<Rightarrow> if p = s then acknowledge True q else q)"
lemma owner_of_known:
  "items_ok ps \<Longrightarrow> lookup_item ps p \<noteq> None \<Longrightarrow> owner_of s p ps = p"
  by (auto simp: owner_of_def Let_def dest: std_found_nth std_find_key)
lemma lookup_prepare:
  assumes ok: "items_ok ps"
  shows "lookup_item (prepare_owner s p now ps) =
    (lookup_item ps)(owner_of s p ps \<mapsto> owner_item s p now ps)"
proof (cases "std_lower_bound endpoint_guid ps p = length ps \<or> p = s")
  case True
  then have o: "owner_of s p ps = p" by (auto simp: owner_of_def Let_def)
  have "p = s \<or> lookup_item ps p = None" using True std_lower_bound_end [OF ok] by auto
  then show ?thesis
    using True ok std_set.find_upsert [OF ok, of "acknowledge (p = s)" "new_participant p [] False now"]
    by (auto simp: prepare_owner_def o owner_item_def split: option.split)
next
  case False
  let ?it = "std_lower_bound endpoint_guid ps p"
  have it: "?it < length ps" using False std_lower_bound_le [of endpoint_guid ps p] by auto
  have o: "owner_of s p ps = endpoint_guid (ps ! ?it)" using False by (simp add: owner_of_def Let_def)
  have "lookup_item ps (endpoint_guid (ps ! ?it)) = Some (ps ! ?it)"
    by (rule std_find_nth [OF ok it])
  with False show ?thesis by (auto simp: prepare_owner_def owner_item_def o fun_upd_idem)
qed
lemma items_ok_prepare: "items_ok ps \<Longrightarrow> items_ok (prepare_owner s p now ps)"
  by (simp add: prepare_owner_def std_ok_alter std_ok_put)
definition zombies_own :: "('g::linorder) ParticipantDiscoveryItem list \<Rightarrow> bool" where
  "zombies_own ps \<longleftrightarrow> (\<forall>g q. lookup_item ps g = Some q \<longrightarrow> is_alive q \<or> 0 < CountEndpoints q)"
lemma zombies_own_Nil [simp]: "zombies_own []"
  by (simp add: zombies_own_def)
lemma zombies_own_report:
  "items_ok ps \<Longrightarrow> zombies_own ps \<Longrightarrow> zombies_own (report_participant p n sv now ts ps)"
  by (auto simp: zombies_own_def lookup_report revive_def item_defs split: option.splits)
lemma zombies_own_bury:
  "items_ok ps \<Longrightarrow> zombies_own ps \<Longrightarrow> zombies_own (bury_participant p ps)"
  by (auto simp: zombies_own_def lookup_bury CountEndpoints_def acknowledge_def split: option.splits if_splits)
context endpoint_member
begin
lemma lookup_file:
  assumes "items_ok ps"
  shows "lookup_item (file_endpoint upd x s p now ps) =
    (lookup_item ps)(owner_of s p ps \<mapsto> upd (std_put endpoint_guid x) (owner_item s p now ps))"
  using assms
  by (auto simp: file_endpoint_def std_find_alter upd_guid items_ok_prepare lookup_prepare)
lemma lookup_drop:
  assumes "items_ok ps" "lookup_item ps p = Some q"
  shows "lookup_item (drop_endpoint upd e q ps) = (lookup_item ps)(p :=
    (let q' = upd (std_remove endpoint_guid e) q
     in if CountEndpoints q' = 0 \<and> \<not> is_alive q' then None else Some q'))"
  using assms std_find_key [OF assms(2)]
  by (auto simp: drop_endpoint_def Let_def std_find_alter std_find_remove upd_guid)
lemma get_le_count: "length (get p) \<le> CountEndpoints p"
  using count_upd [of "\<lambda>_. []" p] by simp
lemma count_put_pos: "0 < CountEndpoints (upd (std_put endpoint_guid x) p)"
proof -
  have "0 < length (std_put endpoint_guid x (get p))" by (cases "get p") auto
  then show ?thesis using count_upd [of "std_put endpoint_guid x" p] get_le_count [of p] by linarith
qed
lemma zombies_own_file:
  "items_ok ps \<Longrightarrow> zombies_own ps \<Longrightarrow> zombies_own (file_endpoint upd x s p now ps)"
  by (auto simp: zombies_own_def lookup_file count_put_pos split: if_splits)
lemma zombies_own_drop:
  assumes "items_ok ps" "zombies_own ps" "lookup_item ps p = Some q"
  shows "zombies_own (drop_endpoint upd e q ps)"
  using assms unfolding zombies_own_def lookup_drop [OF assms(1,3)]
  by (auto simp: Let_def split: if_splits)
lemma get_file_owner:
  assumes "participants_ok ps"
  shows "lookup_item (get (the (lookup_item (file_endpoint upd x s p now ps) (owner_of s p ps))))
    = (lookup_item (get (owner_item s p now ps)))(endpoint_guid x \<mapsto>
        (case lookup_item (get (owner_item s p now ps)) (endpoint_guid x) of None \<Rightarrow> x | Some y \<Rightarrow> y))"
proof -
  have items: "items_ok ps" using assms by (simp add: participants_ok_def)
  have "participant_ok (owner_item s p now ps)"
    using assms by (auto simp: owner_item_def participants_ok_def dest: std_find_set split: option.split)
  then have "items_ok (get (owner_item s p now ps))" by (rule get_ok)
  then show ?thesis
    using items by (auto simp: lookup_file get_upd std_find_put split: option.split)
qed

end
lemma member_update_cong:
  "f (datareaders p) = h (datareaders p) \<Longrightarrow> datareaders_update f p = datareaders_update h p"
  "f' (datawriters p) = h' (datawriters p) \<Longrightarrow> datawriters_update f' p = datawriters_update h' p"
  by (cases p, simp)+
interpretation readers: endpoint_member datareaders datareaders_update new_datareader
  by unfold_locales (auto simp: item_defs participant_ok_def intro: member_update_cong)
interpretation writers: endpoint_member datawriters datawriters_update new_datawriter
  by unfold_locales (auto simp: item_defs participant_ok_def intro: member_update_cong)
section \<open>Liveliness\<close>
lemma UpdateSubLiveliness_known:
  assumes ok: "image_ok img"
  shows "UpdateSubLiveliness participant_of e a n img =
    (let s = participant_of e
     in case view img s s of
          None \<Rightarrow> img
        | Some q \<Rightarrow> if lookup_item (datareaders q) e = None then img
            else set_known s [] (std_alter endpoint_guid s (datareaders_update
                   (std_alter endpoint_guid e
                     (\<lambda>x. x\<lparr>alive_count := a, not_alive_count := n\<rparr>))) (known img s)) img)"
proof (cases "lookup_item (databases img) (participant_of e)")
  case None
  then show ?thesis by (simp add: UpdateSubLiveliness_def view_def known_def)
next
  case (Some db)
  let ?s = "participant_of e"
  note items = image_ok_items [OF ok] and ps = image_ok_known_items [OF ok, of ?s]
  let ?ps = "known img ?s" and ?it = "std_lower_bound endpoint_guid (known img ?s) ?s"
  let ?f = "\<lambda>x :: 'a DataReaderDiscoveryItem. x\<lparr>alive_count := a, not_alive_count := n\<rparr>"
  have same: "set_known ?s [] ?ps img = img" using Some items by (intro set_known_same) auto
  note prologue = UpdateSubLiveliness_def snapshot_index_eq [OF items] Let_def prod.case
    participants_at_index [OF items] std_absent_lower_bound [OF ps] update_at_index [OF items]
    put_at_index [OF items] same
  show ?thesis
  proof (cases "lookup_item ?ps ?s")
    case None
    then show ?thesis unfolding prologue by (simp add: Some view_def)
  next
    case q: (Some q)
    have at: "?it < length ?ps" "?ps ! ?it = q" using std_found_nth [OF ps q] by auto
    have guid: "endpoint_guid q = ?s" using q by (rule std_find_key)
    have "participant_ok q" using q ok by (intro image_ok_view [of img ?s ?s]) (auto simp: view_def)
    then have ss: "items_ok (datareaders q)" by (simp add: participant_ok_def)
    show ?thesis
    proof (cases "lookup_item (datareaders q) e")
      case None
      then show ?thesis unfolding prologue
        by (simp add: Some q at view_def std_absent_lower_bound [OF ss])
    next
      case x: (Some x)
      have "(datareaders q)[std_lower_bound endpoint_guid (datareaders q) e :=
            ?f (datareaders q ! std_lower_bound endpoint_guid (datareaders q) e)]
          = std_alter endpoint_guid e ?f (datareaders q)"
        using x by (intro std_update_found [OF ss]) auto
      then have sub: "q\<lparr>datareaders := (datareaders q)[std_lower_bound endpoint_guid (datareaders q) e :=
            ?f (datareaders q ! std_lower_bound endpoint_guid (datareaders q) e)]\<rparr>
          = datareaders_update (std_alter endpoint_guid e ?f) q"
        by (intro member_update_cong) simp
      have edit: "?ps[?it := datareaders_update (std_alter endpoint_guid e ?f) q]
          = std_alter endpoint_guid ?s (datareaders_update (std_alter endpoint_guid e ?f)) ?ps"
        using std_update_at [OF ps at(1), of "datareaders_update (std_alter endpoint_guid e ?f)"]
        by (simp add: at guid)
      show ?thesis unfolding prologue
        by (simp add: Some q at view_def std_absent_lower_bound [OF ss] x sub edit del: list_update_id)
    qed
  qed
qed

end
