(* ===== verification/Discovery_Contract.thy ===== *)
theory Discovery_Contract
  imports Database_Facts
begin

text \<open>
  The contract of \<open>DiscoveryItemDatabase\<close>: an abstract specification in which the database is a map
  from spokesman and participant to what is recorded of it, the proof that the operations implement
  it, the invariant of every reachable image, and the inputs on which \<open>AddEndPoint\<close> departs from the
  specification.
\<close>

section \<open>The abstract database\<close>

type_synonym 'g discovery_view = "'g \<Rightarrow> 'g \<Rightarrow> 'g ParticipantDiscoveryItem option"

definition spec_report ::
  "'g \<Rightarrow> 'g \<Rightarrow> string \<Rightarrow> bool \<Rightarrow> time_point \<Rightarrow> time_point \<Rightarrow> 'g discovery_view \<Rightarrow> 'g discovery_view" where
  "spec_report s p name server now ts V = V(s := (V s)(p \<mapsto>
     (case V s p of
        None \<Rightarrow> new_participant p name server now
      | Some q \<Rightarrow> revive name server ts q)))"

definition spec_bury :: "'g \<Rightarrow> 'g \<Rightarrow> 'g discovery_view \<Rightarrow> 'g discovery_view" where
  "spec_bury s p V = V(s := (V s)(p :=
     (case V s p of
        None \<Rightarrow> None
      | Some q \<Rightarrow> if 0 < CountEndpoints q then Some (acknowledge False q) else None)))"

definition spec_forget :: "'g \<Rightarrow> 'g discovery_view \<Rightarrow> 'g discovery_view" where
  "spec_forget s V = V(s := Map.empty)"

text \<open>An endpoint belongs to participant \<open>p\<close>; a missing \<open>p\<close> is recorded as a zombie first, unless
  it is the spokesman itself, which is alive.\<close>

definition spec_add_endpoint ::
  "((('g::linorder, 'a) EndpointItem_scheme list \<Rightarrow> ('g, 'a) EndpointItem_scheme list)
      \<Rightarrow> 'g ParticipantDiscoveryItem \<Rightarrow> 'g ParticipantDiscoveryItem)
    \<Rightarrow> ('g, 'a) EndpointItem_scheme \<Rightarrow> 'g \<Rightarrow> 'g \<Rightarrow> time_point
    \<Rightarrow> 'g discovery_view \<Rightarrow> 'g discovery_view" where
  "spec_add_endpoint upd x s p now V = V(s := (V s)(p \<mapsto> upd (std_put endpoint_guid x)
     (case V s p of
        None \<Rightarrow> acknowledge (p = s) (new_participant p [] False now)
      | Some q \<Rightarrow> if p = s then acknowledge True q else q)))"

definition spec_remove_endpoint ::
  "('g ParticipantDiscoveryItem \<Rightarrow> ('g::linorder, 'a) EndpointItem_scheme list)
    \<Rightarrow> ((('g, 'a) EndpointItem_scheme list \<Rightarrow> ('g, 'a) EndpointItem_scheme list)
      \<Rightarrow> 'g ParticipantDiscoveryItem \<Rightarrow> 'g ParticipantDiscoveryItem)
    \<Rightarrow> 'g \<Rightarrow> 'g \<Rightarrow> 'g \<Rightarrow> 'g discovery_view \<Rightarrow> 'g discovery_view" where
  "spec_remove_endpoint get upd s p e V =
     (case V s p of
        None \<Rightarrow> V
      | Some q \<Rightarrow>
          if lookup_item (get q) e = None then V
          else let q' = upd (std_remove endpoint_guid e) q
               in V(s := (V s)(p := if CountEndpoints q' = 0 \<and> \<not> is_alive q' then None else Some q')))"

definition spec_liveliness ::
  "('g \<Rightarrow> 'g) \<Rightarrow> ('g::linorder) \<Rightarrow> int32 \<Rightarrow> int32 \<Rightarrow> 'g discovery_view \<Rightarrow> 'g discovery_view" where
  "spec_liveliness participant_of e a n V =
     (let s = participant_of e
      in case V s s of
           None \<Rightarrow> V
         | Some q \<Rightarrow> V(s := (V s)(s \<mapsto> datareaders_update (std_alter endpoint_guid e
                        (\<lambda>x. x\<lparr>alive_count := a, not_alive_count := n\<rparr>)) q)))"

section \<open>Refinement\<close>

lemma view_set_known_eq:
  "image_ok img \<Longrightarrow> view (set_known s n ps img) = (view img)(s := lookup_item ps)"
  by (auto simp: fun_eq_iff view_set_known image_ok_items)

lemma view_fun: "view img s = lookup_item (known img s)"
  by (simp add: view_def fun_eq_iff)

lemma AddParticipant_spec:
  assumes "image_ok img" and "AddParticipant dbg now s n p nm ts sv img = Inr (b, img')"
  shows "b \<and> image_ok img' \<and> view img' = spec_report s p nm sv now ts (view img)"
proof -
  have img': "img' = set_known s n (report_participant p nm sv now ts (known img s)) img" "b"
    using assms by (auto simp: AddParticipant_known Let_def)
  show ?thesis
    using assms(1) image_ok_known [OF assms(1), of s] image_ok_known_items [OF assms(1), of s]
    by (auto simp: img' view_set_known_eq lookup_report spec_report_def view_def fun_eq_iff
        intro!: image_ok_set_known participants_ok_report)
qed

text \<open>
  C3: AddParticipant implements the abstract report of a participant: a new one is recorded with
  the reported name and kind, a known one is revived and updated, nothing else changes, and the
  result is true.
\<close>

theorem AddParticipant_refines:
  assumes "image_ok img" and "AddParticipant dbg now s n p nm ts sv img = Inr (b, img')"
  shows "b \<and> image_ok img' \<and> view img' = spec_report s p nm sv now ts (view img)"
  using assms by (rule AddParticipant_spec)

theorem AddParticipant_total:
  assumes "image_ok img"
  shows "AddParticipant dbg now s n p nm ts sv img = Inl e \<longleftrightarrow>
    dbg \<and> e = Assertion_Failed
    \<and> (\<exists>q. view img s p = Some q \<and> is_alive q \<and> is_server q \<noteq> sv)"
  using assms image_ok_known_items [OF assms, of s]
  by (auto simp: AddParticipant_known Let_def lookup_report view_def revive_def item_defs
      split: option.splits)

lemma RemoveParticipant_spec:
  assumes "image_ok img"
  shows "(fst (RemoveParticipant s p img) \<longleftrightarrow> view img s p \<noteq> None)
    \<and> image_ok (snd (RemoveParticipant s p img))
    \<and> view (snd (RemoveParticipant s p img)) = spec_bury s p (view img)"
  using assms image_ok_known [OF assms, of s] image_ok_known_items [OF assms, of s]
  by (auto simp: RemoveParticipant_known view_set_known_eq lookup_bury spec_bury_def view_def fun_eq_iff
      intro!: image_ok_set_known participants_ok_bury split: option.split)

text \<open>
  C5: RemoveParticipant buries a participant: it is kept as a zombie while it owns endpoints and
  removed otherwise; the result tells whether it was recorded.
\<close>

theorem RemoveParticipant_refines:
  assumes "image_ok img"
  shows "(fst (RemoveParticipant s p img) \<longleftrightarrow> view img s p \<noteq> None)
    \<and> image_ok (snd (RemoveParticipant s p img))
    \<and> view (snd (RemoveParticipant s p img)) = spec_bury s p (view img)"
  using assms by (rule RemoveParticipant_spec)

lemma RemoveSpokesman_spec:
  assumes "image_ok img"
  shows "(fst (RemoveSpokesman s img) \<longleftrightarrow> lookup_item (databases img) s \<noteq> None)
    \<and> image_ok (snd (RemoveSpokesman s img))
    \<and> view (snd (RemoveSpokesman s img)) = spec_forget s (view img)"
  using RemoveSpokesman_known [OF assms, of s]
  by (auto simp: spec_forget_def view_def fun_eq_iff)

theorem RemoveSpokesman_refines:
  assumes "image_ok img"
  shows "(fst (RemoveSpokesman s img) \<longleftrightarrow> lookup_item (databases img) s \<noteq> None)
    \<and> image_ok (snd (RemoveSpokesman s img))
    \<and> view (snd (RemoveSpokesman s img)) = spec_forget s (view img)"
  using assms by (rule RemoveSpokesman_spec)

lemma owner_item_known:
  "image_ok img \<Longrightarrow> owner_of s p (known img s) = p \<Longrightarrow>
   owner_item s p now (known img s) =
     (case view img s p of
        None \<Rightarrow> acknowledge (p = s) (new_participant p [] False now)
      | Some q \<Rightarrow> if p = s then acknowledge True q else q)"
  by (simp add: owner_item_def view_def)

context endpoint_member
begin

lemma AddEndPoint_files:
  assumes ok: "image_ok img"
    and run: "AddEndPoint get upd mk dbg now s n p e ty tp ts img = Inr (b, img')"
  shows "b \<and> image_ok img' \<and>
    view img' = (view img)(s := (view img s)(owner_of s p (known img s) \<mapsto>
      upd (std_put endpoint_guid (mk e ty tp ts)) (owner_item s p now (known img s))))"
proof -
  have img': "img' = set_known s n (file_endpoint upd (mk e ty tp ts) s p now (known img s)) img" "b"
    using run by (auto simp: AddEndPoint_known [OF ok refl] Let_def)
  show ?thesis
    using ok image_ok_known [OF ok, of s] image_ok_known_items [OF ok, of s]
    by (auto simp: img' view_set_known_eq lookup_file view_def fun_eq_iff
        intro!: image_ok_set_known participants_ok_file)
qed

lemma AddEndPoint_refines:
  assumes ok: "image_ok img"
    and run: "AddEndPoint get upd mk dbg now s n p e ty tp ts img = Inr (b, img')"
    and owner: "owner_of s p (known img s) = p"
  shows "b \<and> image_ok img' \<and>
    view img' = spec_add_endpoint upd (mk e ty tp ts) s p now (view img)"
  using AddEndPoint_files [OF ok run] owner_item_known [OF ok owner]
  by (simp add: spec_add_endpoint_def owner)

lemma RemoveEndPoint_refines:
  assumes ok: "image_ok img"
  shows "(fst (RemoveEndPoint get upd s p e img) \<longleftrightarrow>
      (\<exists>q. view img s p = Some q \<and> lookup_item (get q) e \<noteq> None))
    \<and> image_ok (snd (RemoveEndPoint get upd s p e img))
    \<and> view (snd (RemoveEndPoint get upd s p e img)) = spec_remove_endpoint get upd s p e (view img)"
proof (cases "view img s p")
  case None
  then show ?thesis using ok by (simp add: RemoveEndPoint_known spec_remove_endpoint_def)
next
  case (Some q)
  then have q: "lookup_item (known img s) p = Some q" by (simp add: view_def)
  let ?ps = "drop_endpoint upd e q (known img s)"
  have "view (set_known s [] ?ps img) = (view img)(s := lookup_item ?ps)"
    by (rule view_set_known_eq [OF ok])
  also have "\<dots> = (view img)(s := (view img s)(p :=
      (let q' = upd (std_remove endpoint_guid e) q
       in if CountEndpoints q' = 0 \<and> \<not> is_alive q' then None else Some q')))"
    using lookup_drop [OF image_ok_known_items [OF ok] q, of e] by (simp add: view_fun)
  finally have "view (set_known s [] ?ps img) = \<dots>" .
  moreover have "image_ok (set_known s [] ?ps img)"
    by (intro image_ok_set_known participants_ok_drop image_ok_known ok)
  ultimately show ?thesis
    using Some ok by (auto simp: RemoveEndPoint_known spec_remove_endpoint_def Let_def)
qed

end


lemma owner_of_self: "owner_of s s ps = s"
  by (simp add: owner_of_def Let_def)

lemma owner_of_iff:
  assumes ok: "items_ok ps"
  shows "owner_of s p ps = p \<longleftrightarrow>
    p = s \<or> lookup_item ps p \<noteq> None \<or> (\<forall>g. lookup_item ps g \<noteq> None \<longrightarrow> g < p)"
proof -
  let ?it = "std_lower_bound endpoint_guid ps p"
  show ?thesis
  proof (cases "?it = length ps")
    case True
    have "g < p" if g: "lookup_item ps g = Some x" for g x
    proof -
      obtain j where j: "j < length ps" "ps ! j = x"
        using std_find_set [OF g] by (auto simp: in_set_conv_nth)
      then show ?thesis
        using std_lower_bound_split [OF ok j(1), of p] True std_find_key [OF g] by auto
    qed
    with True show ?thesis by (auto simp: owner_of_def)
  next
    case False
    then have it: "?it < length ps" using std_lower_bound_le [of endpoint_guid ps p] by simp
    have "lookup_item ps (endpoint_guid (ps ! ?it)) = Some (ps ! ?it)"
      by (rule std_find_nth [OF ok it])
    moreover have "p \<le> endpoint_guid (ps ! ?it)"
      using std_lower_bound_least [OF ok it] by simp
    ultimately show ?thesis
      using False owner_of_known [OF ok, of p s]
      by (auto simp: owner_of_def Let_def not_less)
  qed
qed

text \<open>The participant an endpoint ends up with when its own is unknown: the next one in GUID order.\<close>

lemma owner_of_unknown:
  assumes ok: "items_ok ps" and "p \<noteq> s" "lookup_item ps p = None"
    and later: "lookup_item ps g = Some y" "p < g"
  shows "lookup_item ps (owner_of s p ps) \<noteq> None \<and> p < owner_of s p ps
    \<and> (\<forall>h. lookup_item ps h \<noteq> None \<longrightarrow> p < h \<longrightarrow> owner_of s p ps \<le> h)"
proof -
  let ?it = "std_lower_bound endpoint_guid ps p"
  have "owner_of s p ps \<noteq> p" using assms by (auto simp: owner_of_iff [OF ok] dest: less_asym)
  then have it: "?it < length ps" "owner_of s p ps = endpoint_guid (ps ! ?it)"
    using std_lower_bound_le [of endpoint_guid ps p] \<open>p \<noteq> s\<close>
    by (auto simp: owner_of_def Let_def split: if_splits)
  have found: "lookup_item ps (owner_of s p ps) = Some (ps ! ?it)"
    using std_find_nth [OF ok it(1)] it(2) by simp
  have "owner_of s p ps \<le> h" if h: "lookup_item ps h = Some z" "p < h" for h z
    using std_lower_bound_least [OF ok it(1)] std_find_set [OF h(1)] std_find_key [OF h(1)] h(2) it(2)
    by auto
  moreover have "p < owner_of s p ps"
    using std_lower_bound_least [OF ok it(1)] it(2) \<open>owner_of s p ps \<noteq> p\<close> by (auto simp: less_le)
  ultimately show ?thesis using found by auto
qed


lemma AddEndPoint_spec:
  assumes "image_ok img"
    and "p = s \<or> view img s p \<noteq> None \<or> (\<forall>g. view img s g \<noteq> None \<longrightarrow> g < p)"
  shows "(AddDataReader dbg now s n p e ty tp ts img = Inr (b, img') \<longrightarrow>
      b \<and> image_ok img' \<and>
      view img' = spec_add_endpoint datareaders_update (new_datareader e ty tp ts) s p now (view img))
    \<and> (AddDataWriter dbg now s n p e ty tp ts img = Inr (b, img') \<longrightarrow>
      b \<and> image_ok img' \<and>
      view img' = spec_add_endpoint datawriters_update (new_datawriter e ty tp ts) s p now (view img))"
proof -
  have owner: "owner_of s p (known img s) = p"
    using assms(2) owner_of_iff [OF image_ok_known_items [OF assms(1)], of s p]
    by (simp add: view_fun)
  show ?thesis
    unfolding AddDataReader_def AddDataWriter_def
    using readers.AddEndPoint_refines [OF assms(1) _ owner]
      writers.AddEndPoint_refines [OF assms(1) _ owner] by blast
qed

text \<open>
  C6: AddDataReader and AddDataWriter record the endpoint under its participant when the
  participant is the spokesman, is already recorded, or is beyond every recorded one; a missing
  participant is recorded with it.
\<close>

theorem AddEndPoint_implements:
  assumes "image_ok img"
    and "p = s \<or> view img s p \<noteq> None \<or> (\<forall>g. view img s g \<noteq> None \<longrightarrow> g < p)"
  shows "(AddDataReader dbg now s n p e ty tp ts img = Inr (b, img') \<longrightarrow>
      b \<and> image_ok img' \<and>
      view img' = spec_add_endpoint datareaders_update (new_datareader e ty tp ts) s p now (view img))
    \<and> (AddDataWriter dbg now s n p e ty tp ts img = Inr (b, img') \<longrightarrow>
      b \<and> image_ok img' \<and>
      view img' = spec_add_endpoint datawriters_update (new_datawriter e ty tp ts) s p now (view img))"
  using assms by (rule AddEndPoint_spec)

text \<open>
  C33: When the participant of a new reader is unknown and a greater one is recorded,
  AddDataReader files the reader under the next recorded participant instead.
\<close>

theorem AddEndPoint_misfiles:
  assumes ok: "image_ok img" and "p \<noteq> s" and unknown: "view img s p = None"
    and later: "view img s g = Some y" "p < g"
    and run: "AddDataReader dbg now s n p e ty tp ts img = Inr (b, img')"
  shows "view img' s p = None
    \<and> (\<exists>o' q'. view img s o' \<noteq> None \<and> p < o' \<and> (\<forall>h. view img s h \<noteq> None \<longrightarrow> p < h \<longrightarrow> o' \<le> h)
        \<and> view img' s o' = Some q' \<and> lookup_item (datareaders q') e \<noteq> None)"
proof -
  let ?o = "owner_of s p (known img s)"
  note items = image_ok_known_items [OF ok, of s]
  have o: "lookup_item (known img s) ?o \<noteq> None" "p < ?o"
      "\<forall>h. lookup_item (known img s) h \<noteq> None \<longrightarrow> p < h \<longrightarrow> ?o \<le> h"
    using owner_of_unknown [OF items \<open>p \<noteq> s\<close>, of g y] unknown later by (auto simp: view_fun)
  have v: "view img' = (view img)(s := (view img s)(?o \<mapsto>
      datareaders_update (std_put endpoint_guid (new_datareader e ty tp ts))
        (owner_item s p now (known img s))))"
    using readers.AddEndPoint_files [OF ok run [unfolded AddDataReader_def]] by simp
  obtain z where z: "lookup_item (known img s) ?o = Some z" using o(1) by auto
  then have z': "owner_item s p now (known img s) = z"
    using \<open>p \<noteq> s\<close> by (simp add: owner_item_def)
  have "items_ok (datareaders z)"
    using image_ok_view [OF ok, of s ?o z] z by (simp add: view_fun participant_ok_def)
  then have "lookup_item (std_put endpoint_guid (new_datareader e ty tp ts) (datareaders z)) e \<noteq> None"
    using std_set.find_put_same [of endpoint_guid "datareaders z" "new_datareader e ty tp ts"] by simp
  moreover have "view img' s p = None" using o(2) unknown by (simp add: v)
  ultimately show ?thesis
    using o by (intro conjI exI [of _ ?o]) (auto simp: v z' view_fun)
qed

lemma RemoveEndPoint_spec:
  assumes "image_ok img"
  shows "(fst (RemoveDataReader s p e img) \<longleftrightarrow>
        (\<exists>q. view img s p = Some q \<and> lookup_item (datareaders q) e \<noteq> None))
    \<and> image_ok (snd (RemoveDataReader s p e img))
    \<and> view (snd (RemoveDataReader s p e img))
        = spec_remove_endpoint datareaders datareaders_update s p e (view img)
    \<and> (fst (RemoveDataWriter s p e img) \<longleftrightarrow>
        (\<exists>q. view img s p = Some q \<and> lookup_item (datawriters q) e \<noteq> None))
    \<and> image_ok (snd (RemoveDataWriter s p e img))
    \<and> view (snd (RemoveDataWriter s p e img))
        = spec_remove_endpoint datawriters datawriters_update s p e (view img)"
  using readers.RemoveEndPoint_refines [OF assms, of s p e]
    writers.RemoveEndPoint_refines [OF assms, of s p e]
  unfolding RemoveDataReader_def RemoveDataWriter_def by blast

text \<open>
  C4: RemoveDataReader and RemoveDataWriter remove exactly the endpoint they name, drop its
  participant when it was a zombie that owned nothing else, and return true exactly when the
  endpoint was recorded.
\<close>

theorem RemoveEndPoint_implements:
  assumes "image_ok img"
  shows "(fst (RemoveDataReader s p e img) \<longleftrightarrow>
        (\<exists>q. view img s p = Some q \<and> lookup_item (datareaders q) e \<noteq> None))
    \<and> image_ok (snd (RemoveDataReader s p e img))
    \<and> view (snd (RemoveDataReader s p e img))
        = spec_remove_endpoint datareaders datareaders_update s p e (view img)
    \<and> (fst (RemoveDataWriter s p e img) \<longleftrightarrow>
        (\<exists>q. view img s p = Some q \<and> lookup_item (datawriters q) e \<noteq> None))
    \<and> image_ok (snd (RemoveDataWriter s p e img))
    \<and> view (snd (RemoveDataWriter s p e img))
        = spec_remove_endpoint datawriters datawriters_update s p e (view img)"
  using assms by (rule RemoveEndPoint_spec)

lemma std_find_alter_id:
  "std_ok key xs \<Longrightarrow> std_find key xs g = None \<Longrightarrow> std_alter key g f xs = xs"
  by (rule std_alter_id) auto

lemma UpdateSubLiveliness_spec:
  assumes ok: "image_ok img"
  shows "image_ok (UpdateSubLiveliness participant_of e a n img)
    \<and> view (UpdateSubLiveliness participant_of e a n img) = spec_liveliness participant_of e a n (view img)"
proof (cases "view img (participant_of e) (participant_of e)")
  case None
  with ok show ?thesis by (simp add: UpdateSubLiveliness_known spec_liveliness_def Let_def)
next
  case (Some q)
  let ?s = "participant_of e"
  let ?edit = "std_alter endpoint_guid e
    (\<lambda>x :: 'a DataReaderDiscoveryItem. x\<lparr>alive_count := a, not_alive_count := n\<rparr>)"
  have readers: "items_ok (datareaders q)"
    using image_ok_view [OF ok Some] by (simp add: participant_ok_def)
  note items = image_ok_known_items [OF ok, of ?s]
  show ?thesis
  proof (cases "lookup_item (datareaders q) e")
    case None
    then have "?edit (datareaders q) = datareaders q" by (rule std_find_alter_id [OF readers])
    then have "datareaders_update ?edit q = q" by (cases q) simp
    then have "(view img)(?s := (view img ?s)(?s \<mapsto> datareaders_update ?edit q)) = view img"
      using Some by (simp add: fun_upd_idem)
    with None Some ok show ?thesis
      by (simp add: UpdateSubLiveliness_known spec_liveliness_def Let_def)
  next
    case x: (Some x)
    let ?ps = "std_alter endpoint_guid ?s (datareaders_update ?edit) (known img ?s)"
    have "lookup_item ?ps = (view img ?s)(?s \<mapsto> datareaders_update ?edit q)"
      using Some items by (simp add: std_find_alter view_fun)
    moreover have "participants_ok ?ps"
      by (intro participants_ok_alter image_ok_known ok)
        (auto simp: participant_ok_def intro!: std_ok_alter)
    ultimately show ?thesis
      using Some x ok
      by (auto simp: UpdateSubLiveliness_known spec_liveliness_def Let_def view_set_known_eq
          intro!: image_ok_set_known)
  qed
qed

theorem UpdateSubLiveliness_refines:
  assumes ok: "image_ok img"
  shows "image_ok (UpdateSubLiveliness participant_of e a n img)
    \<and> view (UpdateSubLiveliness participant_of e a n img) = spec_liveliness participant_of e a n (view img)"
  using ok by (rule UpdateSubLiveliness_spec)

section \<open>Assertions, round trip, counters\<close>

theorem AddEndPoint_assertion:
  assumes ok: "image_ok img"
  shows "AddDataReader dbg now s n p e ty tp ts img = Inl err \<longleftrightarrow>
    dbg \<and> err = Assertion_Failed \<and>
    (\<exists>x. lookup_item (datareaders (owner_item s p now (known img s))) e = Some x
         \<and> (type_name x \<noteq> ty \<or> topic_name x \<noteq> tp))"
proof -
  have new: "type_name (new_datareader e ty tp ts) = ty" "topic_name (new_datareader e ty tp ts) = tp"
    by (simp_all add: item_defs)
  show ?thesis
    unfolding AddDataReader_def readers.AddEndPoint_known [OF ok refl] Let_def
    using image_ok_known [OF ok, of s]
    by (auto simp: readers.get_file_owner new split: option.split)
qed

theorem reader_roundtrip:
  assumes ok: "image_ok img" and q: "view img s p = Some q"
    and owns: "is_alive q \<or> 0 < CountEndpoints q" and own: "p = s \<longrightarrow> is_alive q"
    and fresh: "lookup_item (datareaders q) e = None"
    and run: "AddDataReader dbg now s n p e ty tp ts img = Inr (b, img')"
  shows "fst (RemoveDataReader s p e img') \<and> view (snd (RemoveDataReader s p e img')) = view img"
proof -
  let ?x = "new_datareader e ty tp ts"
  let ?q' = "datareaders_update (std_put endpoint_guid ?x) q"
  have "p = s \<or> view img s p \<noteq> None \<or> (\<forall>g. view img s g \<noteq> None \<longrightarrow> g < p)" using q by simp
  with run have img': "image_ok img'"
      "view img' = spec_add_endpoint datareaders_update ?x s p now (view img)"
    using AddEndPoint_spec [OF ok, of p s dbg now n e ty tp ts b img'] by auto
  have "acknowledge True q = q" if "p = s" using own that by (cases q) (simp add: acknowledge_def)
  then have v: "view img' = (view img)(s := (view img s)(p \<mapsto> ?q'))"
    using q by (simp add: img'(2) spec_add_endpoint_def)
  have readers: "items_ok (datareaders q)"
    using image_ok_view [OF ok q] by (simp add: participant_ok_def)
  have found: "lookup_item (datareaders ?q') e \<noteq> None"
    using std_set.find_put_same [OF readers, of ?x] by simp
  have "std_remove endpoint_guid e (std_put endpoint_guid ?x (datareaders q)) = datareaders q"
    using std_put_remove_inverse [OF readers, of ?x] fresh by simp
  then have restored: "datareaders_update (std_remove endpoint_guid e) ?q' = q" by (cases q) simp
  then have "spec_remove_endpoint datareaders datareaders_update s p e (view img') = view img"
    using q found owns
    by (auto simp: spec_remove_endpoint_def v Let_def fun_upd_idem)
  then show ?thesis
    using RemoveEndPoint_spec [OF img'(1), of s p e] found by (auto simp: v)
qed

lemma dom_lookup: "dom (std_find key xs) = key ` set xs"
  by (auto simp: dom_def std_find_None_iff)

lemma std_ok_distinct: "std_ok key xs \<Longrightarrow> distinct (map key xs)"
  by (induction xs) auto

lemma sum_lookup:
  assumes "std_ok key xs"
  shows "(\<Sum>g\<in>dom (std_find key xs). (f (the (std_find key xs g)) :: nat)) = sum_list (map f xs)"
proof -
  have inj: "inj_on key (set xs)" and "distinct xs"
    using std_ok_distinct [OF assms] by (auto simp: distinct_map)
  have "(\<Sum>g\<in>dom (std_find key xs). f (the (std_find key xs g))) = (\<Sum>x\<in>set xs. f x)"
    using inj std_find_mem [OF assms] by (simp add: dom_lookup sum.reindex)
  then show ?thesis using \<open>distinct xs\<close> by (simp add: sum_list_distinct_conv_sum_set)
qed

lemma CountOf_view:
  assumes ok: "image_ok img"
  shows "CountDataReadersOf s p img = (case view img s p of None \<Rightarrow> 0 | Some q \<Rightarrow> length (datareaders q))"
    and "CountDataWritersOf s p img = (case view img s p of None \<Rightarrow> 0 | Some q \<Rightarrow> length (datawriters q))"
proof -
  note items = image_ok_known_items [OF ok, of s]
  note unfold = snapshot_const_index_eq [OF image_ok_items [OF ok]] view_fun
  show "CountDataReadersOf s p img = (case view img s p of None \<Rightarrow> 0 | Some q \<Rightarrow> length (datareaders q))"
    and "CountDataWritersOf s p img = (case view img s p of None \<Rightarrow> 0 | Some q \<Rightarrow> length (datawriters q))"
    unfolding CountDataReadersOf_def CountDataWritersOf_def unfold
    using items std_found_nth [OF items, of p]
    by (cases "lookup_item (databases img) s";
        auto simp: known_def Let_def std_absent_lower_bound split: option.splits)+
qed

theorem Count_view:
  assumes ok: "image_ok img"
  shows "CountParticipants s img = card (dom (view img s))
    \<and> CountDataReaders s img = (\<Sum>p\<in>dom (view img s). CountDataReadersOf s p img)
    \<and> CountDataWriters s img = (\<Sum>p\<in>dom (view img s). CountDataWritersOf s p img)"
proof -
  note items = image_ok_known_items [OF ok, of s]
  note unfold = snapshot_const_index_eq [OF image_ok_items [OF ok]] fold_count
  have parts: "CountParticipants s img = length (known img s)"
    unfolding CountParticipants_def unfold by (simp add: known_def split: option.split)
  have "length (known img s) = card (dom (view img s))"
    using std_ok_distinct [OF items] by (metis dom_lookup distinct_card length_map set_map view_fun)
  moreover have "CountDataReaders s img = sum_list (map (\<lambda>q. length (datareaders q)) (known img s))"
    unfolding CountDataReaders_def unfold by (simp add: known_def split: option.split)
  moreover have "CountDataWriters s img = sum_list (map (\<lambda>q. length (datawriters q)) (known img s))"
    unfolding CountDataWriters_def unfold by (simp add: known_def split: option.split)
  moreover have "(\<Sum>p\<in>dom (lookup_item (known img s)). CountDataReadersOf s p img)
      = sum_list (map (\<lambda>q. length (datareaders q)) (known img s))"
    unfolding sum_lookup [OF items, symmetric]
    by (intro sum.cong) (auto simp: CountOf_view [OF ok] view_fun)
  moreover have "(\<Sum>p\<in>dom (lookup_item (known img s)). CountDataWritersOf s p img)
      = sum_list (map (\<lambda>q. length (datawriters q)) (known img s))"
    unfolding sum_lookup [OF items, symmetric]
    by (intro sum.cong) (auto simp: CountOf_view [OF ok] view_fun)
  ultimately show ?thesis using parts by (simp add: view_fun)
qed

theorem FindParticipant_complete:
  assumes ok: "image_ok img"
  shows "set (FindParticipant p img) = {q. \<exists>s. view img s p = Some q}"
proof -
  have pick: "set (let it = std_lower_bound endpoint_guid ps p
       in if it \<noteq> length ps \<and> endpoint_guid (ps ! it) = p then [ps ! it] else [])
     = set_option (lookup_item ps p)" if "items_ok ps" for ps :: "'a ParticipantDiscoveryItem list"
    using std_absent_lower_bound [OF that, of p] std_found_nth [OF that, of p]
    by (auto simp: std_absent_def Let_def)
  have dbs: "items_ok (participants db)" if "db \<in> set (databases img)" for db
    using ok that by (auto simp: image_ok_def participants_ok_def)
  have "set (FindParticipant p img) = (\<Union>db\<in>set (databases img). set_option (lookup_item (participants db) p))"
    using dbs by (auto simp: FindParticipant_def pick)
  also have "\<dots> = {q. \<exists>s. view img s p = Some q}"
  proof (intro equalityI subsetI)
    fix q assume "q \<in> (\<Union>db\<in>set (databases img). set_option (lookup_item (participants db) p))"
    then obtain db where db: "db \<in> set (databases img)" "lookup_item (participants db) p = Some q" by auto
    then have "view img (endpoint_guid db) p = Some q"
      using std_find_mem [OF image_ok_items [OF ok] db(1)] by (simp add: view_def known_def)
    then show "q \<in> {q. \<exists>s. view img s p = Some q}" by blast
  next
    fix q assume "q \<in> {q. \<exists>s. view img s p = Some q}"
    then obtain s where "lookup_item (known img s) p = Some q" by (auto simp: view_def)
    then obtain db where "lookup_item (databases img) s = Some db" "lookup_item (participants db) p = Some q"
      by (auto simp: known_def split: option.splits)
    then show "q \<in> (\<Union>db\<in>set (databases img). set_option (lookup_item (participants db) p))"
      by (auto dest: std_find_set)
  qed
  finally show ?thesis .
qed

section \<open>Reachable images\<close>

text \<open>The image \<open>DiscoveryItemDatabase\<close> is constructed with: nothing discovered, two readings of the
  clock and \<open>Snapshot::_steady_clock\<close>.\<close>

definition new_image :: "time_point \<Rightarrow> time_point \<Rightarrow> time_point \<Rightarrow> 'g Snapshot" where
  "new_image steady0 now1 now2 =
     \<lparr>databases = [], process_startup = steady0, snapshot_time = now1, last_PDP_callback = now2,
      last_EDP_callback = steady0, if_someone = True, show_liveliness = False, description = []\<rparr>"

inductive db_step :: "('g::linorder \<Rightarrow> 'g) \<Rightarrow> 'g Snapshot \<Rightarrow> 'g Snapshot \<Rightarrow> bool" for participant_of where
  add_participant: "AddParticipant dbg now s n p nm ts sv img = Inr (b, img') \<Longrightarrow>
    db_step participant_of img img'"
| remove_spokesman: "RemoveSpokesman s img = (b, img') \<Longrightarrow> db_step participant_of img img'"
| remove_participant: "RemoveParticipant s p img = (b, img') \<Longrightarrow> db_step participant_of img img'"
| add_reader: "AddDataReader dbg now s n p e ty tp ts img = Inr (b, img') \<Longrightarrow>
    db_step participant_of img img'"
| remove_reader: "RemoveDataReader s p e img = (b, img') \<Longrightarrow> db_step participant_of img img'"
| add_writer: "AddDataWriter dbg now s n p e ty tp ts img = Inr (b, img') \<Longrightarrow>
    db_step participant_of img img'"
| remove_writer: "RemoveDataWriter s p e img = (b, img') \<Longrightarrow> db_step participant_of img img'"
| liveliness: "db_step participant_of img (UpdateSubLiveliness participant_of e a m img)"

inductive db_reachable :: "('g::linorder \<Rightarrow> 'g) \<Rightarrow> 'g Snapshot \<Rightarrow> bool" for participant_of where
  start: "db_reachable participant_of (new_image steady0 now1 now2)"
| step: "db_reachable participant_of img \<Longrightarrow> db_step participant_of img img' \<Longrightarrow>
    db_reachable participant_of img'"

definition db_inv :: "('g::linorder) Snapshot \<Rightarrow> bool" where
  "db_inv img \<longleftrightarrow> image_ok img \<and> (\<forall>s. zombies_own (known img s))"

lemma db_inv_new: "db_inv (new_image t0 t1 t2)"
  by (simp add: db_inv_def image_ok_def new_image_def known_def)

lemma db_inv_set_known:
  "db_inv img \<Longrightarrow> participants_ok ps \<Longrightarrow> zombies_own ps \<Longrightarrow> db_inv (set_known s n ps img)"
  by (auto simp: db_inv_def known_set_known image_ok_items image_ok_set_known)

lemma db_inv_items: "db_inv img \<Longrightarrow> items_ok (known img s)"
  by (auto simp: db_inv_def image_ok_known_items)

lemma db_inv_parts: "db_inv img \<Longrightarrow> participants_ok (known img s)"
  by (auto simp: db_inv_def image_ok_known)

lemma db_inv_zombies: "db_inv img \<Longrightarrow> zombies_own (known img s)"
  by (auto simp: db_inv_def)

lemmas db_inv_facts = db_inv_items db_inv_parts db_inv_zombies

context endpoint_member
begin

lemma db_inv_AddEndPoint:
  assumes inv: "db_inv img" and run: "AddEndPoint get upd mk dbg now s n p e ty tp ts img = Inr (b, img')"
  shows "db_inv img'"
proof -
  have ok: "image_ok img" using inv by (simp add: db_inv_def)
  have "img' = set_known s n (file_endpoint upd (mk e ty tp ts) s p now (known img s)) img"
    using run by (auto simp: AddEndPoint_known [OF ok refl] Let_def)
  then show ?thesis
    using inv by (auto intro!: db_inv_set_known participants_ok_file zombies_own_file db_inv_facts)
qed

lemma db_inv_RemoveEndPoint:
  assumes inv: "db_inv img"
  shows "db_inv (snd (RemoveEndPoint get upd s p e img))"
proof -
  have ok: "image_ok img" using inv by (simp add: db_inv_def)
  show ?thesis
    using inv
    by (auto simp: RemoveEndPoint_known [OF ok] view_def split: option.split
        intro!: db_inv_set_known participants_ok_drop zombies_own_drop db_inv_facts)
qed

end

lemma zombies_own_liveliness:
  assumes "items_ok ps" "zombies_own ps"
  shows "zombies_own (std_alter endpoint_guid s (datareaders_update (std_alter endpoint_guid e f)) ps)"
proof -
  have len: "length (std_alter endpoint_guid e f xs) = length xs" for xs :: "'a DataReaderDiscoveryItem list"
    by (induction xs) auto
  have "is_alive q \<or> 0 < CountEndpoints q"
    if found: "lookup_item (std_alter endpoint_guid s (datareaders_update (std_alter endpoint_guid e f)) ps) g = Some q"
    for g q
  proof -
    obtain r where "lookup_item ps g = Some r" "is_alive q = is_alive r" "CountEndpoints q = CountEndpoints r"
      using found assms(1) by (auto simp: std_find_alter CountEndpoints_def len split: if_splits)
    with assms(2) show ?thesis by (auto simp: zombies_own_def)
  qed
  then show ?thesis by (auto simp: zombies_own_def)
qed

lemma db_inv_UpdateSubLiveliness:
  assumes "db_inv img"
  shows "db_inv (UpdateSubLiveliness participant_of e a n img)"
proof -
  have ok: "image_ok img" using assms by (simp add: db_inv_def)
  show ?thesis
    using assms
    by (auto simp: UpdateSubLiveliness_known [OF ok] Let_def split: option.split
        intro!: db_inv_set_known zombies_own_liveliness db_inv_facts participants_ok_alter)
       (auto simp: participant_ok_def intro!: std_ok_alter)
qed

lemma db_inv_step: "db_step participant_of img img' \<Longrightarrow> db_inv img \<Longrightarrow> db_inv img'"
proof (induction rule: db_step.induct)
  case (add_participant dbg now s n p nm ts sv img b img')
  then have ok: "image_ok img" by (simp add: db_inv_def)
  have "img' = set_known s n (report_participant p nm sv now ts (known img s)) img"
    using add_participant.hyps by (auto simp: AddParticipant_known [OF ok] Let_def)
  then show ?case using add_participant.prems
    by (auto intro!: db_inv_set_known participants_ok_report zombies_own_report db_inv_facts)
next
  case (remove_spokesman s img b img')
  then have "image_ok img" and img': "img' = snd (RemoveSpokesman s img)" by (auto simp: db_inv_def)
  with remove_spokesman.prems RemoveSpokesman_known [of img s] show ?case
    by (auto simp: db_inv_def)
next
  case (remove_participant s p img b img')
  then have ok: "image_ok img" by (simp add: db_inv_def)
  have "img' = set_known s [] (bury_participant p (known img s)) img"
    using remove_participant.hyps by (auto simp: RemoveParticipant_known [OF ok])
  then show ?case using remove_participant.prems
    by (auto intro!: db_inv_set_known participants_ok_bury zombies_own_bury db_inv_facts)
next
  case (add_reader dbg now s n p e ty tp ts img b img')
  then show ?case unfolding AddDataReader_def by (blast intro: readers.db_inv_AddEndPoint)
next
  case (remove_reader s p e img b img')
  then show ?case unfolding RemoveDataReader_def
    using readers.db_inv_RemoveEndPoint [of img s p e] by simp
next
  case (add_writer dbg now s n p e ty tp ts img b img')
  then show ?case unfolding AddDataWriter_def by (blast intro: writers.db_inv_AddEndPoint)
next
  case (remove_writer s p e img b img')
  then show ?case unfolding RemoveDataWriter_def
    using writers.db_inv_RemoveEndPoint [of img s p e] by simp
next
  case (liveliness img e a m)
  then show ?case by (rule db_inv_UpdateSubLiveliness)
qed

text \<open>
  C1: Every image the discovery database can reach through its public operations is well formed -
  databases, participants and endpoints are strictly sorted by GUID, as std::set keeps them - and
  a participant recorded as dead still owns an endpoint.
\<close>

theorem reachable_inv:
  assumes "db_reachable participant_of img"
  shows "image_ok img \<and>
    (\<forall>s p q. view img s p = Some q \<longrightarrow> is_alive q \<or> 0 < CountEndpoints q)"
proof -
  from assms have "db_inv img"
    by (induction rule: db_reachable.induct) (auto intro: db_inv_new db_inv_step)
  then show ?thesis by (auto simp: db_inv_def zombies_own_def view_fun)
qed

section \<open>A concrete image\<close>

text \<open>
  Server 1 knows client 2, which owns reader 21, and the zombie 5, which still owns writer 51;
  client 2 knows the server and its own reader. GUIDs are natural numbers.
\<close>

definition sample_image :: "nat Snapshot" where
  "sample_image = (new_image 0 10 10)\<lparr>databases :=
     [\<lparr>endpoint_guid = 1, db_participant_name = ''server'', participants =
        [(new_participant 2 ''client'' False 3)\<lparr>datareaders := [new_datareader 21 ''T'' ''t'' 4]\<rparr>,
         acknowledge False ((new_participant 5 ''gone'' False 3)
           \<lparr>datawriters := [new_datawriter 51 ''T'' ''t'' 4]\<rparr>)]\<rparr>,
      \<lparr>endpoint_guid = 2, db_participant_name = ''client'', participants =
        [new_participant 1 ''server'' True 3,
         (new_participant 2 [] False 3)\<lparr>datareaders := [new_datareader 21 ''T'' ''t'' 4]\<rparr>]\<rparr>]\<rparr>"

lemma sample_image_ok: "image_ok sample_image"
  by code_simp

lemma run_cases: "\<not> isl r \<Longrightarrow> \<exists>b s. r = Inr (b, s)"
  by (cases r) auto

lemma sample_view:
  "\<exists>q. view sample_image 1 2 = Some q \<and> is_alive q \<and> lookup_item (datareaders q) 22 = None"
  "\<exists>q. view sample_image 1 5 = Some q \<and> \<not> is_alive q"
  "view sample_image 1 3 = None"
proof -
  have "case view sample_image 1 2 of None \<Rightarrow> False
      | Some q \<Rightarrow> is_alive q \<and> lookup_item (datareaders q) 22 = None" by code_simp
  then show "\<exists>q. view sample_image 1 2 = Some q \<and> is_alive q \<and> lookup_item (datareaders q) 22 = None"
    by (auto split: option.splits)
  have "case view sample_image 1 5 of None \<Rightarrow> False | Some q \<Rightarrow> \<not> is_alive q" by code_simp
  then show "\<exists>q. view sample_image 1 5 = Some q \<and> \<not> is_alive q" by (auto split: option.splits)
  show "view sample_image 1 3 = None" by code_simp
qed

theorem AddParticipant_refines_witness:
  "\<exists>b img'. AddParticipant True 9 1 ''server'' 3 ''new'' 9 False sample_image = Inr (b, img')
     \<and> b \<and> image_ok img' \<and> view img' = spec_report 1 3 ''new'' False 9 9 (view sample_image)"
proof -
  have "\<not> isl (AddParticipant True 9 1 ''server'' 3 ''new'' 9 False sample_image)" by code_simp
  then obtain b img' where
    run: "AddParticipant True 9 1 ''server'' 3 ''new'' 9 False sample_image = Inr (b, img')"
    using run_cases by blast
  from AddParticipant_refines [OF sample_image_ok run] run show ?thesis by blast
qed

theorem AddParticipant_total_witness:
  "AddParticipant True 9 1 ''server'' 2 ''new'' 9 True sample_image = Inl Assertion_Failed"
proof -
  have "case view sample_image 1 2 of None \<Rightarrow> False
      | Some q \<Rightarrow> is_alive q \<and> is_server q \<noteq> True" by code_simp
  then show ?thesis
    unfolding AddParticipant_total [OF sample_image_ok] by (auto split: option.splits)
qed

theorem RemoveParticipant_refines_witness:
  "image_ok (snd (RemoveParticipant 1 2 sample_image))
    \<and> view (snd (RemoveParticipant 1 2 sample_image)) = spec_bury 1 2 (view sample_image)"
  using RemoveParticipant_refines [OF sample_image_ok, of 1 2] by blast

theorem RemoveSpokesman_refines_witness:
  "fst (RemoveSpokesman 2 sample_image)
    \<and> view (snd (RemoveSpokesman 2 sample_image)) = spec_forget 2 (view sample_image)"
proof -
  have "lookup_item (databases sample_image) 2 \<noteq> None" by code_simp
  with RemoveSpokesman_refines [OF sample_image_ok, of 2] show ?thesis by blast
qed

theorem AddEndPoint_implements_witness:
  "\<exists>b img'. AddDataReader True 9 1 ''server'' 2 22 ''T'' ''t'' 9 sample_image = Inr (b, img')
     \<and> b \<and> view img' = spec_add_endpoint datareaders_update (new_datareader 22 ''T'' ''t'' 9) 1 2 9
                      (view sample_image)"
proof -
  have "\<not> isl (AddDataReader True 9 1 ''server'' 2 22 ''T'' ''t'' 9 sample_image)" by code_simp
  then obtain b img' where
    run: "AddDataReader True 9 1 ''server'' 2 22 ''T'' ''t'' 9 sample_image = Inr (b, img')"
    using run_cases by blast
  have "view sample_image 1 2 \<noteq> None" using sample_view(1) by auto
  then show ?thesis
    using AddEndPoint_implements [OF sample_image_ok, of 2 1 True 9 "''server''" 22 "''T''" "''t''" 9 b img']
      run by blast
qed

theorem AddEndPoint_misfiles_witness:
  "\<exists>b img'. AddDataReader True 9 1 ''server'' 3 31 ''T'' ''t'' 9 sample_image = Inr (b, img')
     \<and> view img' 1 3 = None
     \<and> (\<exists>o' q'. view sample_image 1 o' \<noteq> None \<and> 3 < o' \<and> view img' 1 o' = Some q'
          \<and> lookup_item (datareaders q') 31 \<noteq> None)"
proof -
  have "\<not> isl (AddDataReader True 9 1 ''server'' 3 31 ''T'' ''t'' 9 sample_image)" by code_simp
  then obtain b img' where
    run: "AddDataReader True 9 1 ''server'' 3 31 ''T'' ''t'' 9 sample_image = Inr (b, img')"
    using run_cases by blast
  obtain y where "view sample_image 1 5 = Some y" using sample_view(2) by blast
  with AddEndPoint_misfiles [OF sample_image_ok _ sample_view(3) this _ run] run show ?thesis by auto
qed

theorem RemoveEndPoint_implements_witness:
  "view (snd (RemoveDataWriter 1 5 51 sample_image))
     = spec_remove_endpoint datawriters datawriters_update 1 5 51 (view sample_image)
   \<and> view (snd (RemoveDataWriter 1 5 51 sample_image)) 1 5 = None"
proof -
  have "view (snd (RemoveDataWriter 1 5 51 sample_image)) 1 5 = None" by code_simp
  with RemoveEndPoint_implements [OF sample_image_ok, of 1 5 51] show ?thesis by blast
qed

theorem UpdateSubLiveliness_refines_witness:
  "view (UpdateSubLiveliness (\<lambda>g. g div 10) 21 7 2 sample_image)
     = spec_liveliness (\<lambda>g. g div 10) 21 7 2 (view sample_image)
   \<and> view (UpdateSubLiveliness (\<lambda>g. g div 10) 21 7 2 sample_image) \<noteq> view sample_image"
proof -
  have "map (map alive_count \<circ> datareaders)
      (known (UpdateSubLiveliness (\<lambda>g. g div 10) 21 7 2 sample_image) 2) = [[], [7]]"
    and "map (map alive_count \<circ> datareaders) (known sample_image 2) = [[], [0]]" by code_simp+
  then have "known (UpdateSubLiveliness (\<lambda>g. g div 10) 21 7 2 sample_image) 2 \<noteq> known sample_image 2"
    by auto
  moreover have "image_ok (UpdateSubLiveliness (\<lambda>g. g div 10) 21 7 2 sample_image)"
    using UpdateSubLiveliness_refines [OF sample_image_ok, of "\<lambda>g. g div 10" 21 7 2] by blast
  ultimately have "view (UpdateSubLiveliness (\<lambda>g. g div 10) 21 7 2 sample_image) 2 \<noteq> view sample_image 2"
    using std_ext [OF image_ok_known_items image_ok_known_items [OF sample_image_ok]]
    by (auto simp: view_fun)
  then show ?thesis
    using UpdateSubLiveliness_refines [OF sample_image_ok, of "\<lambda>g. g div 10" 21 7 2] by auto
qed

theorem AddEndPoint_assertion_witness:
  "AddDataReader True 9 1 ''server'' 2 21 ''T'' ''other'' 9 sample_image = Inl Assertion_Failed"
proof -
  have "case lookup_item (datareaders (owner_item 1 2 9 (known sample_image 1))) 21 of
      None \<Rightarrow> False | Some x \<Rightarrow> topic_name x \<noteq> ''other''" by code_simp
  then show ?thesis
    unfolding AddEndPoint_assertion [OF sample_image_ok] by (auto split: option.splits)
qed

theorem reader_roundtrip_witness:
  "\<exists>b img'. AddDataReader True 9 1 ''server'' 2 22 ''T'' ''t'' 9 sample_image = Inr (b, img')
     \<and> view (snd (RemoveDataReader 1 2 22 img')) = view sample_image"
proof -
  have "\<not> isl (AddDataReader True 9 1 ''server'' 2 22 ''T'' ''t'' 9 sample_image)" by code_simp
  then obtain b img' where
    run: "AddDataReader True 9 1 ''server'' 2 22 ''T'' ''t'' 9 sample_image = Inr (b, img')"
    using run_cases by blast
  obtain q where "view sample_image 1 2 = Some q" "is_alive q" "lookup_item (datareaders q) 22 = None"
    using sample_view(1) by blast
  with reader_roundtrip [OF sample_image_ok this(1) _ _ this(3) run] run show ?thesis by blast
qed

theorem Count_view_witness:
  "CountParticipants 1 sample_image = card (dom (view sample_image 1))
    \<and> CountParticipants 1 sample_image = 2"
proof -
  have "CountParticipants 1 sample_image = 2" by code_simp
  with Count_view [OF sample_image_ok, of 1] show ?thesis by simp
qed

theorem FindParticipant_complete_witness:
  "set (FindParticipant 1 sample_image) = {q. \<exists>s. view sample_image s 1 = Some q}
    \<and> length (FindParticipant 1 sample_image) = 1"
proof -
  have "length (FindParticipant 1 sample_image) = 1" by code_simp
  with FindParticipant_complete [OF sample_image_ok, of 1] show ?thesis by blast
qed

theorem reachable_inv_witness:
  "\<exists>img. db_reachable (\<lambda>g. g div 10) img \<and> image_ok img \<and> CountParticipants 1 (img :: nat Snapshot) = 1
    \<and> (\<forall>s p q. view img s p = Some q \<longrightarrow> is_alive q \<or> 0 < CountEndpoints q)"
proof -
  let ?run = "AddParticipant False 9 1 ''server'' 2 ''c'' 9 False (new_image 0 1 1 :: nat Snapshot)"
  have count: "case ?run of Inl _ \<Rightarrow> False | Inr (b, img) \<Rightarrow> CountParticipants 1 img = 1" by code_simp
  then obtain b img where run: "?run = Inr (b, img)" "CountParticipants 1 img = 1"
    by (auto split: sum.splits)
  have "db_reachable (\<lambda>g. g div 10) img"
    by (rule db_reachable.step [OF db_reachable.start db_step.add_participant [OF run(1)]])
  with reachable_inv [OF this] run(2) show ?thesis by blast
qed

end
