(* ===== verification/Database_Compare.thy ===== *)
theory Database_Compare
  imports Discovery_Contract
begin

text \<open>
  Comparing what two participants discovered: \<open>operator ==\<close> on \<open>ParticipantDiscoveryDatabase\<close> walks the
  live participants of both databases in GUID order. The walk is shown equal to a walk over the
  filtered lists, and from that: which differences it accepts, and that it finds every other one.
\<close>

section \<open>The loop\<close>

text \<open>\<open>l\<close> and \<open>r\<close> are the databases, \<open>lit\<close> and \<open>rit\<close> the smart iterators; leaving the loop with \<open>go\<close>
  false returns false.\<close>

function database_eq_loop ::
  "('g::linorder) ParticipantDiscoveryDatabase \<Rightarrow> 'g ParticipantDiscoveryDatabase
    \<Rightarrow> 'g smart_iterator \<Rightarrow> 'g smart_iterator \<Rightarrow> bool" where
  "database_eq_loop l r lit rit =
     (if lit = send l then
        rit = send r \<or>
        ((endpoint_guid (hd rit) = endpoint_guid l \<or> endpoint_guid (hd rit) = endpoint_guid r)
          \<and> send r = smart_next rit)
      else if rit = send r then
        lit = send l \<or>
        ((endpoint_guid (hd lit) = endpoint_guid r \<or> endpoint_guid (hd lit) = endpoint_guid l)
          \<and> send l = smart_next lit)
      else if endpoint_guid (hd lit) = endpoint_guid (hd rit) then
        (if Participant_ne (hd lit) (hd rit) then False
         else database_eq_loop l r (smart_next lit) (smart_next rit))
      else
        let sweep_r = (endpoint_guid (hd rit) = endpoint_guid l);
            sweep_l = (endpoint_guid (hd lit) = endpoint_guid r
                       \<and> (real_size r = real_size l \<or> \<not> sweep_r))
        in if sweep_r \<or> sweep_l
           then database_eq_loop l r (if sweep_l then smart_next lit else lit)
                  (if sweep_r then smart_next rit else rit)
           else False)"
  by pat_completeness auto
termination
proof (relation "measure (\<lambda>(l, r, lit, rit). length lit + length rit)", goal_cases)
  case (2 l r lit rit)
  then show ?case
    using length_skip_zombies [of "tl lit"] length_skip_zombies [of "tl rit"]
    by (cases lit; cases rit) (auto simp: send_def)
next
  case (3 l r lit rit sweep_r sweep_l)
  then show ?case
    using length_skip_zombies [of "tl lit"] length_skip_zombies [of "tl rit"]
    by (cases lit; cases rit) (auto simp: send_def)
qed simp

declare database_eq_loop.simps [simp del]

definition Database_eq ::
  "('g::linorder) ParticipantDiscoveryDatabase \<Rightarrow> 'g ParticipantDiscoveryDatabase \<Rightarrow> bool" where
  "Database_eq cl cr =
     (let swap = endpoint_guid cr < endpoint_guid cl;
          l = (if swap then cr else cl);
          r = (if swap then cl else cr)
      in database_eq_loop l r (sbegin l) (sbegin r))"

section \<open>The walk over live participants\<close>

fun eq_walk ::
  "'g \<Rightarrow> 'g \<Rightarrow> bool \<Rightarrow> 'g ParticipantDiscoveryItem list \<Rightarrow> 'g ParticipantDiscoveryItem list \<Rightarrow> bool" where
  "eq_walk l r same [] [] = True"
| "eq_walk l r same [] (y # ys) = ((endpoint_guid y = l \<or> endpoint_guid y = r) \<and> ys = [])"
| "eq_walk l r same (x # xs) [] = ((endpoint_guid x = l \<or> endpoint_guid x = r) \<and> xs = [])"
| "eq_walk l r same (x # xs) (y # ys) =
     (if endpoint_guid x = endpoint_guid y then Participant_eq x y \<and> eq_walk l r same xs ys
      else if endpoint_guid y = l
      then (if endpoint_guid x = r \<and> same then eq_walk l r same xs ys
            else eq_walk l r same (x # xs) ys)
      else endpoint_guid x = r \<and> eq_walk l r same xs (y # ys))"

lemma smart_cases:
  assumes "smart_at it"
  obtains "it = []" "filter is_alive it = []"
  | p where "it \<noteq> []" "hd it = p" "filter is_alive it = p # filter is_alive (smart_next it)"
  using assms by (cases it) auto

lemma smart_next_nil_iff: "[] = smart_next it \<longleftrightarrow> filter is_alive (smart_next it) = []"
  using smart_nil_iff [OF smart_at_next [of it]] by auto

lemma database_eq_loop_walk:
  "smart_at lit \<Longrightarrow> smart_at rit \<Longrightarrow> database_eq_loop l r lit rit =
     eq_walk (endpoint_guid l) (endpoint_guid r) (real_size l = real_size r)
       (filter is_alive lit) (filter is_alive rit)"
proof (induction l r lit rit rule: database_eq_loop.induct)
  case (1 l r lit rit)
  note unfold = database_eq_loop.simps [of l r lit rit] send_def Let_def
  show ?case
  proof (cases rule: smart_cases [OF "1.prems"(1)])
    case lit: 1
    show ?thesis
    proof (cases rule: smart_cases [OF "1.prems"(2)])
      case 1
      then show ?thesis unfolding unfold using lit by simp
    next
      case (2 y)
      then show ?thesis unfolding unfold using lit by (auto simp: smart_next_nil_iff)
    qed
  next
    case lit: (2 x)
    show ?thesis
    proof (cases rule: smart_cases [OF "1.prems"(2)])
      case 1
      then show ?thesis unfolding unfold using lit by (auto simp: smart_next_nil_iff)
    next
      case rit: (2 y)
      show ?thesis
      proof (cases "endpoint_guid x = endpoint_guid y")
        case True
        then show ?thesis unfolding unfold using lit rit "1.IH"(1) "1.prems"
          by (simp add: send_def Participant_ne_iff)
      next
        case False
        define sr where "sr \<longleftrightarrow> endpoint_guid y = endpoint_guid l"
        define sl where "sl \<longleftrightarrow> endpoint_guid x = endpoint_guid r \<and> (real_size r = real_size l \<or> \<not> sr)"
        let ?lit = "if sl then smart_next lit else lit" and ?rit = "if sr then smart_next rit else rit"
        have step: "database_eq_loop l r lit rit = ((sr \<or> sl) \<and> database_eq_loop l r ?lit ?rit)"
          unfolding unfold using lit rit False by (simp add: sr_def sl_def) blast
        have "smart_at ?lit" "smart_at ?rit" using "1.prems" by auto
        then have rec: "sr \<or> sl \<Longrightarrow> database_eq_loop l r ?lit ?rit =
            eq_walk (endpoint_guid l) (endpoint_guid r) (real_size l = real_size r)
              (filter is_alive ?lit) (filter is_alive ?rit)"
          using "1.IH"(2) [OF _ _ _ refl refl] lit rit False by (simp add: send_def sr_def sl_def)
        have "eq_walk (endpoint_guid l) (endpoint_guid r) (real_size l = real_size r)
              (filter is_alive lit) (filter is_alive rit) =
            ((sr \<or> sl) \<and> eq_walk (endpoint_guid l) (endpoint_guid r) (real_size l = real_size r)
              (filter is_alive ?lit) (filter is_alive ?rit))"
          using False by (simp add: lit(3) rit(3) sr_def sl_def)
        with step rec show ?thesis by blast
      qed
    qed
  qed
qed

lemma Database_eq_walk:
  "Database_eq cl cr =
    (let l = (if endpoint_guid cr < endpoint_guid cl then cr else cl);
         r = (if endpoint_guid cr < endpoint_guid cl then cl else cr)
     in eq_walk (endpoint_guid l) (endpoint_guid r)
          (length (alive_participants l) = length (alive_participants r))
          (alive_participants l) (alive_participants r))"
  unfolding Database_eq_def Let_def
  by (simp add: database_eq_loop_walk sbegin_def real_size_alive alive_participants_def)

section \<open>Accepted differences\<close>

definition others :: "'g \<Rightarrow> 'g \<Rightarrow> 'g ParticipantDiscoveryItem list \<Rightarrow> 'g ParticipantDiscoveryItem list" where
  "others l r ps = filter (\<lambda>p. endpoint_guid p \<noteq> l \<and> endpoint_guid p \<noteq> r) ps"

lemma others_simps [simp]:
  "others l r [] = []"
  "others l r (p # ps) =
     (if endpoint_guid p = l \<or> endpoint_guid p = r then others l r ps else p # others l r ps)"
  by (simp_all add: others_def)

lemma others_same:
  "Participant_eq x y \<Longrightarrow> list_all2 Participant_eq (others l r xs) (others l r ys) \<Longrightarrow>
   list_all2 Participant_eq (others l r (x # xs)) (others l r (y # ys))"
  by (simp add: Participant_eq_guid)

lemma eq_walk_sound:
  "eq_walk l r same xs ys \<Longrightarrow> list_all2 Participant_eq (others l r xs) (others l r ys)"
proof (induction l r same xs ys rule: eq_walk.induct)
  case (4 l r same x xs y ys)
  show ?case
  proof (cases "endpoint_guid x = endpoint_guid y")
    case True
    with 4 show ?thesis by (intro others_same) auto
  next
    case False
    with 4 show ?thesis by (auto split: if_splits)
  qed
qed auto

lemma eq_walk_complete:
  "list_all2 Participant_eq (others l r xs) (others l r ys) \<Longrightarrow>
   distinct (map endpoint_guid xs) \<Longrightarrow> distinct (map endpoint_guid ys) \<Longrightarrow>
   l \<notin> endpoint_guid ` set xs \<Longrightarrow> r \<notin> endpoint_guid ` set ys \<Longrightarrow> l \<noteq> r \<Longrightarrow>
   eq_walk l r same xs ys"
proof (induction l r same xs ys rule: eq_walk.induct)
  case (2 l r same y ys)
  then show ?case by (cases ys) (auto split: if_splits)
next
  case (3 l r same x xs)
  then show ?case by (cases xs) (auto split: if_splits)
next
  case (4 l r same x xs y ys)
  then show ?case
    by (cases "endpoint_guid x = endpoint_guid y"; cases "endpoint_guid y = l"; cases "endpoint_guid x = r")
       (auto dest: Participant_eq_guid)
qed simp

lemma eq_walk_same: "list_all2 Participant_eq xs ys \<Longrightarrow> eq_walk l r same xs ys"
  by (induction rule: list_all2_induct) (auto dest: Participant_eq_guid)

section \<open>In terms of what each side knows\<close>

definition database_ok :: "('g::linorder) ParticipantDiscoveryDatabase \<Rightarrow> bool" where
  "database_ok db \<longleftrightarrow> participants_ok (participants db)"

definition alive_view ::
  "('g::linorder) ParticipantDiscoveryDatabase \<Rightarrow> 'g \<Rightarrow> 'g ParticipantDiscoveryItem option" where
  "alive_view db = lookup_item (alive_participants db)"

lemma alive_view_lookup:
  "database_ok db \<Longrightarrow> alive_view db g =
    (case lookup_item (participants db) g of None \<Rightarrow> None | Some q \<Rightarrow> if is_alive q then Some q else None)"
proof -
  have "items_ok ps \<Longrightarrow> lookup_item (filter is_alive ps) g =
    (case lookup_item ps g of None \<Rightarrow> None | Some q \<Rightarrow> if is_alive q then Some q else None)"
    for ps :: "'a ParticipantDiscoveryItem list"
  proof (induction ps)
    case (Cons p ps)
    then have "endpoint_guid p = g \<Longrightarrow> lookup_item ps g = None"
      by (intro std_find_notin) auto
    with Cons show ?case by auto
  qed simp
  then show "database_ok db \<Longrightarrow> ?thesis"
    by (simp add: alive_view_def alive_participants_def database_ok_def participants_ok_def)
qed

lemma alive_items_ok: "database_ok db \<Longrightarrow> items_ok (alive_participants db)"
  by (simp add: database_ok_def participants_ok_def alive_participants_def std_ok_filter)

lemma lookup_others:
  "lookup_item (others l r ps) g = (if g = l \<or> g = r then None else lookup_item ps g)"
  by (induction ps) auto

lemma list_all2_lookup:
  "list_all2 Participant_eq xs ys \<Longrightarrow> rel_option Participant_eq (lookup_item xs g) (lookup_item ys g)"
  by (induction rule: list_all2_induct) (auto dest: Participant_eq_guid)

lemma items_ok_others: "items_ok ps \<Longrightarrow> items_ok (others l r ps)"
  by (simp add: others_def std_ok_filter)

lemma lookup_list_all2:
  "items_ok xs \<Longrightarrow> items_ok ys \<Longrightarrow>
   (\<And>g. rel_option Participant_eq (lookup_item xs g) (lookup_item ys g)) \<Longrightarrow>
   list_all2 Participant_eq xs ys"
proof (induction xs arbitrary: ys)
  case Nil
  then show ?case by (cases ys) (auto dest!: meta_spec split: if_splits)
next
  case (Cons x xs)
  note rel = Cons.prems(3)
  obtain y zs where ys: "ys = y # zs" using rel [of "endpoint_guid x"] by (cases ys) auto
  obtain y' where y': "lookup_item ys (endpoint_guid x) = Some y'" "Participant_eq x y'"
    using rel [of "endpoint_guid x"] by (auto simp: option_rel_Some1)
  obtain x' where x': "lookup_item (x # xs) (endpoint_guid y) = Some x'"
    using rel [of "endpoint_guid y"] ys by (auto simp: option_rel_Some2)
  have "endpoint_guid y \<le> endpoint_guid x"
    using std_find_set [OF y'(1)] std_find_key [OF y'(1)] Cons.prems(2) ys by (auto intro: less_imp_le)
  moreover have "endpoint_guid x \<le> endpoint_guid y"
    using std_find_set [OF x'] std_find_key [OF x'] Cons.prems(1) by (auto intro: less_imp_le)
  ultimately have "endpoint_guid x = endpoint_guid y" by simp
  with y' ys have hd: "Participant_eq x y" by auto
  have "rel_option Participant_eq (lookup_item xs g) (lookup_item zs g)" for g
  proof (cases "g = endpoint_guid x")
    case True
    then have "lookup_item xs g = None" "lookup_item zs g = None"
      using Cons.prems(1,2) ys \<open>endpoint_guid x = endpoint_guid y\<close> by (auto intro!: std_find_notin)
    then show ?thesis by simp
  next
    case False
    then show ?thesis using rel [of g] ys \<open>endpoint_guid x = endpoint_guid y\<close> by auto
  qed
  with Cons ys hd show ?case by auto
qed

text \<open>
  \<open>agree_off l r\<close>: both sides know the same live participants, with the same endpoints, apart from
  the participants \<open>l\<close> and \<open>r\<close> themselves.
\<close>

definition agree_off ::
  "'g \<Rightarrow> 'g \<Rightarrow> ('g::linorder) ParticipantDiscoveryDatabase \<Rightarrow> 'g ParticipantDiscoveryDatabase \<Rightarrow> bool" where
  "agree_off l r cl cr \<longleftrightarrow>
     (\<forall>g. g \<noteq> l \<longrightarrow> g \<noteq> r \<longrightarrow> rel_option Participant_eq (alive_view cl g) (alive_view cr g))"

lemma agree_off_others:
  assumes "database_ok cl" "database_ok cr"
  shows "agree_off l r cl cr \<longleftrightarrow>
    list_all2 Participant_eq (others l r (alive_participants cl)) (others l r (alive_participants cr))"
proof
  assume "agree_off l r cl cr"
  then show "list_all2 Participant_eq (others l r (alive_participants cl)) (others l r (alive_participants cr))"
    using assms by (intro lookup_list_all2 items_ok_others alive_items_ok)
      (auto simp: lookup_others agree_off_def alive_view_def)
next
  assume *: "list_all2 Participant_eq (others l r (alive_participants cl)) (others l r (alive_participants cr))"
  show "agree_off l r cl cr"
    unfolding agree_off_def alive_view_def
    using list_all2_lookup [OF *] by (metis lookup_others)
qed

lemma list_all2_Participant_eq_sym:
  "list_all2 Participant_eq xs ys \<Longrightarrow> list_all2 Participant_eq ys xs"
  by (induction rule: list_all2_induct) (auto intro: Participant_eq_sym)

lemma rel_option_Participant_eq:
  "rel_option Participant_eq a b \<Longrightarrow> rel_option Participant_eq b a"
  "rel_option Participant_eq a b \<Longrightarrow> rel_option Participant_eq b c \<Longrightarrow> rel_option Participant_eq a c"
  by (cases a; cases b; cases c; auto intro: Participant_eq_sym Participant_eq_trans)+

lemma agree_off_sym: "agree_off l r cl cr \<Longrightarrow> agree_off r l cr cl"
  by (auto simp: agree_off_def intro: rel_option_Participant_eq)

lemma agree_off_commute: "agree_off l r cl cr \<longleftrightarrow> agree_off r l cl cr"
  by (auto simp: agree_off_def)

lemma agree_off_trans:
  "agree_off l r a b \<Longrightarrow> agree_off l r b c \<Longrightarrow> agree_off l r a c"
  unfolding agree_off_def by (blast intro: rel_option_Participant_eq)

lemma Database_eq_sound:
  assumes "database_ok cl" "database_ok cr" "Database_eq cl cr"
  shows "agree_off (endpoint_guid cl) (endpoint_guid cr) cl cr"
proof (cases "endpoint_guid cr < endpoint_guid cl")
  case True
  with assms have "agree_off (endpoint_guid cr) (endpoint_guid cl) cr cl"
    by (auto simp: agree_off_others Database_eq_walk Let_def dest: eq_walk_sound)
  then show ?thesis by (rule agree_off_sym)
next
  case False
  with assms show ?thesis
    by (auto simp: agree_off_others Database_eq_walk Let_def dest: eq_walk_sound)
qed

lemma not_known: "alive_view db g = None \<longleftrightarrow> g \<notin> endpoint_guid ` set (alive_participants db)"
  by (simp add: alive_view_def std_find_None_iff)

lemma Database_eq_decides:
  assumes ok: "database_ok cl" "database_ok cr" and diff: "endpoint_guid cl \<noteq> endpoint_guid cr"
    and own: "alive_view cl (endpoint_guid cl) = None" "alive_view cr (endpoint_guid cr) = None"
  shows "Database_eq cl cr \<longleftrightarrow> agree_off (endpoint_guid cl) (endpoint_guid cr) cl cr"
proof
  assume "Database_eq cl cr"
  with ok show "agree_off (endpoint_guid cl) (endpoint_guid cr) cl cr" by (rule Database_eq_sound)
next
  assume *: "agree_off (endpoint_guid cl) (endpoint_guid cr) cl cr"
  have "distinct (map endpoint_guid (alive_participants cl))" "distinct (map endpoint_guid (alive_participants cr))"
    using ok by (auto intro: std_ok_distinct alive_items_ok)
  then show "Database_eq cl cr"
    using * agree_off_sym [OF *] ok diff own
    by (auto simp: Database_eq_walk Let_def not_known agree_off_others intro!: eq_walk_complete)
qed

text \<open>
  C2: The two-iterator comparison of two participant databases decides exactly whether both record
  the same live participants with the same endpoints, apart from the two participants that are
  being compared, when neither of them lists itself.
\<close>

theorem Database_eq_iff:
  assumes "database_ok cl" "database_ok cr" and "endpoint_guid cl \<noteq> endpoint_guid cr"
    and "alive_view cl (endpoint_guid cl) = None" "alive_view cr (endpoint_guid cr) = None"
  shows "Database_eq cl cr \<longleftrightarrow> agree_off (endpoint_guid cl) (endpoint_guid cr) cl cr"
  using assms by (rule Database_eq_decides)

theorem Database_eq_refl: "Database_eq db db"
  by (simp add: Database_eq_walk Let_def eq_walk_same list_all2_refl)

theorem Database_eq_sym:
  assumes "endpoint_guid cl \<noteq> endpoint_guid cr"
  shows "Database_eq cl cr = Database_eq cr cl"
  using assms by (auto simp: Database_eq_def Let_def)

text \<open>Full agreement is accepted whatever the two sides say of themselves.\<close>

theorem Database_eq_agree:
  assumes "database_ok cl" "database_ok cr"
    and "\<And>g. rel_option Participant_eq (alive_view cl g) (alive_view cr g)"
  shows "Database_eq cl cr"
proof -
  have *: "list_all2 Participant_eq (alive_participants cl) (alive_participants cr)"
    using assms by (intro lookup_list_all2 alive_items_ok) (simp_all add: alive_view_def)
  then show ?thesis
    using list_all2_Participant_eq_sym [OF *]
    by (simp add: Database_eq_walk Let_def eq_walk_same)
qed

theorem Database_eq_ignores_zombies:
  "Database_eq (cl\<lparr>participants := alive_participants cl\<rparr>) (cr\<lparr>participants := alive_participants cr\<rparr>)
     = Database_eq cl cr"
  by (auto simp: Database_eq_walk Let_def alive_participants_def)

section \<open>What each side lists of the two that are compared\<close>

text \<open>
  A database that lists its own participant is compared as well: when the other side lists it too,
  both entries must be equal; when it does not, the walk goes on only past the end of what both
  list. The lists are cut at the two GUIDs, and the five pieces are walked one after the other.
\<close>

lemma eq_walk_common:
  "list_all2 Participant_eq as bs \<Longrightarrow> eq_walk l r same (as @ xs) (bs @ ys) = eq_walk l r same xs ys"
  by (induction rule: list_all2_induct) (auto dest: Participant_eq_guid)

abbreviation keyed :: "('g \<Rightarrow> bool) \<Rightarrow> 'g ParticipantDiscoveryItem list \<Rightarrow> 'g ParticipantDiscoveryItem list" where
  "keyed P \<equiv> filter (\<lambda>p. P (endpoint_guid p))"

abbreviation opt_list :: "'a option \<Rightarrow> 'a list" where
  "opt_list a \<equiv> (case a of None \<Rightarrow> [] | Some x \<Rightarrow> [x])"

lemma split_at_guid:
  assumes "items_ok xs"
  shows "xs = keyed (\<lambda>g. g < k) xs @ opt_list (lookup_item xs k) @ keyed (\<lambda>g. k < g) xs"
  using assms
proof (induction xs)
  case (Cons x xs)
  then have "endpoint_guid x \<ge> k \<Longrightarrow> keyed (\<lambda>g. g < k) xs = [] \<and> lookup_item xs k = None \<and> keyed (\<lambda>g. k < g) xs = xs"
    by (auto simp: filter_empty_conv filter_id_conv intro!: std_find_notin)
  with Cons show ?case by (cases "endpoint_guid x" k rule: linorder_cases) auto
qed simp


lemma list_all2_part: "list_all2 Participant_eq xs ys \<Longrightarrow> list_all2 Participant_eq (keyed P xs) (keyed P ys)"
  by (induction rule: list_all2_induct) (auto dest: Participant_eq_guid)

text \<open>None of the two GUIDs occurs in a piece.\<close>

definition off_keys :: "'g \<Rightarrow> 'g \<Rightarrow> 'g ParticipantDiscoveryItem list \<Rightarrow> bool" where
  "off_keys l r ps \<longleftrightarrow> (\<forall>p\<in>set ps. endpoint_guid p \<noteq> l \<and> endpoint_guid p \<noteq> r)"

lemma off_keys_Cons [simp]:
  "off_keys l r (p # ps) \<longleftrightarrow> endpoint_guid p \<noteq> l \<and> endpoint_guid p \<noteq> r \<and> off_keys l r ps"
  by (auto simp: off_keys_def)

lemma eq_walk_tail:
  assumes C: "list_all2 Participant_eq C1 C2" and off: "off_keys l r C1"
    and keys: "pred_option (\<lambda>x. endpoint_guid x = r) R1" "pred_option (\<lambda>x. endpoint_guid x = r) R2"
    and "l \<noteq> r"
  shows "eq_walk l r s (opt_list R1 @ C1) (opt_list R2 @ C2) \<longleftrightarrow>
      (case R2 of None \<Rightarrow> True | Some y \<Rightarrow> (case R1 of Some x \<Rightarrow> Participant_eq x y | None \<Rightarrow> C1 = []))"
proof -
  note same = eq_walk_same [OF C, of l r s]
  show ?thesis
  proof (cases C1)
    case Nil
    then show ?thesis using C keys \<open>l \<noteq> r\<close> by (cases R1; cases R2) simp_all
  next
    case (Cons c cs)
    then obtain c' cs' where C2: "C2 = c' # cs'" and eq: "endpoint_guid c' = endpoint_guid c"
      using C by (cases C2) (auto dest: Participant_eq_guid)
    have "endpoint_guid c \<noteq> l" "endpoint_guid c \<noteq> r" using off Cons by auto
    then show ?thesis using same Cons C2 eq keys \<open>l \<noteq> r\<close> by (cases R1; cases R2) simp_all
  qed
qed

lemma eq_walk_heads:
  assumes B: "list_all2 Participant_eq B1 B2" and C: "list_all2 Participant_eq C1 C2"
    and off: "off_keys l r B1" "off_keys l r C1" and "l \<noteq> r"
    and keys: "pred_option (\<lambda>x. endpoint_guid x = l) L1" "pred_option (\<lambda>x. endpoint_guid x = l) L2"
      "pred_option (\<lambda>x. endpoint_guid x = r) R1" "pred_option (\<lambda>x. endpoint_guid x = r) R2"
    and same: "same \<longleftrightarrow> length (opt_list L1 @ opt_list R1) = length (opt_list L2 @ opt_list R2)"
  shows "eq_walk l r same (opt_list L1 @ B1 @ opt_list R1 @ C1) (opt_list L2 @ B2 @ opt_list R2 @ C2) \<longleftrightarrow>
    (case L1 of None \<Rightarrow> True
     | Some x \<Rightarrow> (case L2 of Some y \<Rightarrow> Participant_eq x y
                 | None \<Rightarrow> B1 = [] \<and> R1 = None \<and> C1 = [] \<and> R2 = None)) \<and>
    (case R2 of None \<Rightarrow> True
     | Some y \<Rightarrow> (case R1 of Some x \<Rightarrow> Participant_eq x y
                 | None \<Rightarrow> C1 = [] \<and> (L1 = None \<and> L2 \<noteq> None \<longrightarrow> B1 \<noteq> [])))"
proof -
  note tail = eq_walk_tail [OF C off(2) keys(3,4) \<open>l \<noteq> r\<close>]
  note mid = eq_walk_common [OF B, of l r same "opt_list R1 @ C1" "opt_list R2 @ C2"]
  show ?thesis
  proof (cases B1)
    case (Cons b bs)
    then obtain b' bs' where B2: "B2 = b' # bs'" and eq: "endpoint_guid b' = endpoint_guid b"
      using B by (cases B2) (auto dest: Participant_eq_guid)
    have b: "endpoint_guid b \<noteq> l" "endpoint_guid b \<noteq> r" using off Cons by auto
    from mid tail show ?thesis using Cons B2 eq b keys(1,2) \<open>l \<noteq> r\<close>
      by (cases L1; cases L2; cases R1; cases R2) simp_all
  next
    case Nil
    then have [simp]: "B1 = []" "B2 = []" using B by auto
    note samec = eq_walk_same [OF C, of l r same]
    show ?thesis
    proof (cases C1)
      case Nil
      then have "C2 = []" using C by auto
      then show ?thesis using Nil keys \<open>l \<noteq> r\<close> same
        by (cases L1; cases L2; cases R1; cases R2) simp_all
    next
      case (Cons c cs)
      then obtain c' cs' where C2: "C2 = c' # cs'" and eq: "endpoint_guid c' = endpoint_guid c"
        using C by (cases C2) (auto dest: Participant_eq_guid)
      have "endpoint_guid c \<noteq> l" "endpoint_guid c \<noteq> r" using off Cons by auto
      then show ?thesis using samec Cons C2 eq keys \<open>l \<noteq> r\<close> same
        by (cases L1; cases L2; cases R1; cases R2) simp_all
    qed
  qed
qed

definition between :: "'g::linorder \<Rightarrow> 'g \<Rightarrow> 'g \<Rightarrow> bool" where
  "between l r g \<longleftrightarrow> l < g \<and> g < r"

lemma split_at_two:
  assumes ok: "items_ok xs" and "l < r"
  shows "xs = keyed (\<lambda>g. g < l) xs @ opt_list (lookup_item xs l) @ keyed (between l r) xs
      @ opt_list (lookup_item xs r) @ keyed (\<lambda>g. r < g) xs"
proof -
  let ?up = "keyed (\<lambda>g. l < g) xs"
  have up: "items_ok ?up" by (rule std_ok_filter [OF ok])
  have "lookup_item ?up r = lookup_item xs r" using \<open>l < r\<close> by (induction xs) auto
  moreover have "keyed (\<lambda>g. g < r) ?up = keyed (between l r) xs"
    by (auto simp: between_def conj_commute intro: filter_cong)
  moreover have "keyed (\<lambda>g. r < g) ?up = keyed (\<lambda>g. r < g) xs"
    using \<open>l < r\<close> by (auto intro!: filter_cong)
  ultimately have "?up = keyed (between l r) xs @ opt_list (lookup_item xs r) @ keyed (\<lambda>g. r < g) xs"
    using split_at_guid [OF up, of r] by simp
  then show ?thesis using split_at_guid [OF ok, of l] by metis
qed

lemma part_nil_iff:
  "items_ok xs \<Longrightarrow> keyed P xs = [] \<longleftrightarrow> (\<forall>g. P g \<longrightarrow> lookup_item xs g = None)"
  by (auto simp: filter_empty_conv std_find_None_iff)

lemma lookup_keyed: "pred_option (\<lambda>x. endpoint_guid x = g) (lookup_item xs g)"
  by (induction xs) auto

lemma part_others: "P l = False \<Longrightarrow> P r = False \<Longrightarrow> keyed P (others l r xs) = keyed P xs"
  by (auto simp: others_def intro: filter_cong)

lemma eq_walk_decides:
  assumes ok: "items_ok xs" "items_ok ys" and "l < r"
    and agree: "list_all2 Participant_eq (others l r xs) (others l r ys)"
  shows "eq_walk l r (length xs = length ys) xs ys \<longleftrightarrow>
    (case lookup_item xs l of None \<Rightarrow> True
     | Some x \<Rightarrow> (case lookup_item ys l of Some y \<Rightarrow> Participant_eq x y
                 | None \<Rightarrow> keyed (between l r) xs = [] \<and> lookup_item xs r = None
                     \<and> keyed (\<lambda>g. r < g) xs = [] \<and> lookup_item ys r = None)) \<and>
    (case lookup_item ys r of None \<Rightarrow> True
     | Some y \<Rightarrow> (case lookup_item xs r of Some x \<Rightarrow> Participant_eq x y
                 | None \<Rightarrow> keyed (\<lambda>g. r < g) xs = [] \<and>
                     (lookup_item xs l = None \<and> lookup_item ys l \<noteq> None \<longrightarrow> keyed (between l r) xs \<noteq> [])))"
proof -
  have parts: "list_all2 Participant_eq (keyed P xs) (keyed P ys)" if "P l = False" "P r = False" for P
    using list_all2_part [OF agree, of P] that by (simp add: part_others)
  have A: "list_all2 Participant_eq (keyed (\<lambda>g. g < l) xs) (keyed (\<lambda>g. g < l) ys)"
    using \<open>l < r\<close> by (intro parts) auto
  have B: "list_all2 Participant_eq (keyed (between l r) xs) (keyed (between l r) ys)"
    by (intro parts) (auto simp: between_def)
  have C: "list_all2 Participant_eq (keyed (\<lambda>g. r < g) xs) (keyed (\<lambda>g. r < g) ys)"
    using \<open>l < r\<close> by (intro parts) auto
  have off: "off_keys l r (keyed (between l r) xs)" "off_keys l r (keyed (\<lambda>g. r < g) xs)"
    using \<open>l < r\<close> by (auto simp: off_keys_def between_def)
  have "length xs = length ys \<longleftrightarrow>
      length (opt_list (lookup_item xs l) @ opt_list (lookup_item xs r)) =
      length (opt_list (lookup_item ys l) @ opt_list (lookup_item ys r))"
    using arg_cong [OF split_at_two [OF ok(1) \<open>l < r\<close>], of length]
      arg_cong [OF split_at_two [OF ok(2) \<open>l < r\<close>], of length]
      list_all2_lengthD [OF A] list_all2_lengthD [OF B] list_all2_lengthD [OF C] by simp
  note heads = eq_walk_heads [OF B C off _ lookup_keyed lookup_keyed lookup_keyed lookup_keyed this]
  have "eq_walk l r (length xs = length ys) xs ys \<longleftrightarrow>
      eq_walk l r (length xs = length ys)
        (opt_list (lookup_item xs l) @ keyed (between l r) xs @ opt_list (lookup_item xs r) @ keyed (\<lambda>g. r < g) xs)
        (opt_list (lookup_item ys l) @ keyed (between l r) ys @ opt_list (lookup_item ys r) @ keyed (\<lambda>g. r < g) ys)"
    using eq_walk_common [OF A] split_at_two [OF ok(1) \<open>l < r\<close>] split_at_two [OF ok(2) \<open>l < r\<close>] by metis
  with heads \<open>l < r\<close> show ?thesis by simp
qed


text \<open>
  \<open>self_ok l r cl cr\<close>, for \<open>l < r\<close>: if \<open>cl\<close> lists its own participant \<open>l\<close>, then \<open>cr\<close> lists it equally,
  or nobody beyond \<open>l\<close> is listed on either side; if \<open>cr\<close> lists its own participant \<open>r\<close>, then \<open>cl\<close>
  lists it equally, or \<open>cl\<close> lists nobody beyond \<open>r\<close> and, where only \<open>cr\<close> lists \<open>l\<close>, somebody beyond \<open>l\<close>.
\<close>

definition self_ok :: "'g \<Rightarrow> 'g \<Rightarrow> ('g::linorder) ParticipantDiscoveryDatabase \<Rightarrow> 'g ParticipantDiscoveryDatabase \<Rightarrow> bool" where
  "self_ok l r cl cr \<longleftrightarrow>
     (case alive_view cl l of
        None \<Rightarrow> True
      | Some x \<Rightarrow> (case alive_view cr l of
            Some y \<Rightarrow> Participant_eq x y
          | None \<Rightarrow> \<forall>g > l. alive_view cl g = None \<and> alive_view cr g = None)) \<and>
     (case alive_view cr r of
        None \<Rightarrow> True
      | Some y \<Rightarrow> (case alive_view cl r of
            Some x \<Rightarrow> Participant_eq x y
          | None \<Rightarrow> (\<forall>g > r. alive_view cl g = None) \<and>
              (alive_view cl l = None \<and> alive_view cr l \<noteq> None \<longrightarrow> (\<exists>g > l. alive_view cl g \<noteq> None))))"

lemma items_ok_alive_nil:
  "database_ok db \<Longrightarrow> keyed P (alive_participants db) = [] \<longleftrightarrow> (\<forall>g. P g \<longrightarrow> alive_view db g = None)"
  by (simp add: alive_view_def part_nil_iff alive_items_ok)

lemma Database_eq_exact:
  assumes ok: "database_ok cl" "database_ok cr" and less: "endpoint_guid cl < endpoint_guid cr"
  shows "Database_eq cl cr \<longleftrightarrow> agree_off (endpoint_guid cl) (endpoint_guid cr) cl cr
    \<and> self_ok (endpoint_guid cl) (endpoint_guid cr) cl cr"
proof -
  let ?l = "endpoint_guid cl" and ?r = "endpoint_guid cr"
  let ?xs = "alive_participants cl" and ?ys = "alive_participants cr"
  have walk: "Database_eq cl cr = eq_walk ?l ?r (length ?xs = length ?ys) ?xs ?ys"
    using less less_not_sym [OF less] by (simp add: Database_eq_walk Let_def)
  have split: "(\<forall>g > ?l. alive_view db g = None) \<longleftrightarrow>
      (\<forall>g. between ?l ?r g \<longrightarrow> alive_view db g = None) \<and> alive_view db ?r = None
      \<and> (\<forall>g. ?r < g \<longrightarrow> alive_view db g = None)" for db :: "'a ParticipantDiscoveryDatabase"
    using less by (auto simp: between_def) (metis linorder_less_linear)+
  have "self_ok ?l ?r cl cr \<longleftrightarrow>
    (case alive_view cl ?l of None \<Rightarrow> True
     | Some x \<Rightarrow> (case alive_view cr ?l of Some y \<Rightarrow> Participant_eq x y
                 | None \<Rightarrow> keyed (between ?l ?r) ?xs = [] \<and> alive_view cl ?r = None
                     \<and> keyed (\<lambda>g. ?r < g) ?xs = [] \<and> alive_view cr ?r = None)) \<and>
    (case alive_view cr ?r of None \<Rightarrow> True
     | Some y \<Rightarrow> (case alive_view cl ?r of Some x \<Rightarrow> Participant_eq x y
                 | None \<Rightarrow> keyed (\<lambda>g. ?r < g) ?xs = [] \<and>
                     (alive_view cl ?l = None \<and> alive_view cr ?l \<noteq> None \<longrightarrow> keyed (between ?l ?r) ?xs \<noteq> [])))"
    if agree: "agree_off ?l ?r cl cr"
  proof -
    have none: "alive_view cr g = None \<longleftrightarrow> alive_view cl g = None" if "g \<noteq> ?l" "g \<noteq> ?r" for g
    proof -
      have "rel_option Participant_eq (alive_view cl g) (alive_view cr g)"
        using agree that by (simp add: agree_off_def)
      then show ?thesis by (cases "alive_view cl g"; cases "alive_view cr g") auto
    qed
    have same: "(\<forall>g. between ?l ?r g \<longrightarrow> alive_view cr g = None) \<longleftrightarrow> (\<forall>g. between ?l ?r g \<longrightarrow> alive_view cl g = None)"
      "(\<forall>g. ?r < g \<longrightarrow> alive_view cr g = None) \<longleftrightarrow> (\<forall>g. ?r < g \<longrightarrow> alive_view cl g = None)"
      using none less by (auto simp: between_def dest: less_trans)
    let ?N = "\<lambda>P. keyed P ?xs = []"
    have E: "(\<forall>g > ?l. alive_view cl g = None \<and> alive_view cr g = None) \<longleftrightarrow>
        ?N (between ?l ?r) \<and> alive_view cl ?r = None \<and> ?N (\<lambda>g. ?r < g) \<and> alive_view cr ?r = None"
      unfolding items_ok_alive_nil [OF ok(1)] all_conj_distrib imp_conjR split same by argo
    have F: "(\<forall>g > ?r. alive_view cl g = None) \<and> (P \<longrightarrow> (\<exists>g > ?l. alive_view cl g \<noteq> None)) \<longleftrightarrow>
        ?N (\<lambda>g. ?r < g) \<and> (P \<longrightarrow> \<not> ?N (between ?l ?r))" if "alive_view cl ?r = None" for P
    proof -
      have "(\<exists>g > ?l. alive_view cl g \<noteq> None) \<longleftrightarrow> \<not> (\<forall>g > ?l. alive_view cl g = None)"
        by (simp only: not_all not_imp)
      then show ?thesis
        unfolding items_ok_alive_nil [OF ok(1)] split using that by argo
    qed
    show ?thesis
      using F [of True] F [of False]
      unfolding self_ok_def E
      by (cases "alive_view cl ?r"; cases "alive_view cr ?r"; cases "alive_view cl ?l"; cases "alive_view cr ?l")
        (simp_all only: option.case simp_thms option.distinct)
  qed
  then have "Database_eq cl cr = self_ok ?l ?r cl cr" if "agree_off ?l ?r cl cr"
    using that eq_walk_decides [OF alive_items_ok [OF ok(1)] alive_items_ok [OF ok(2)] less]
    unfolding walk agree_off_others [OF ok] alive_view_def by (simp only: )
  then show ?thesis using Database_eq_sound [OF ok] by blast
qed

lemma self_ok_unlisted:
  "alive_view cl l = None \<Longrightarrow> alive_view cr r = None \<Longrightarrow> self_ok l r cl cr"
  by (simp add: self_ok_def)

section \<open>Instances\<close>

text \<open>Server 1 and client 2 have discovered each other and client 3.\<close>

definition sample_server :: "nat ParticipantDiscoveryDatabase" where
  "sample_server = (new_database 1 ''server'')\<lparr>participants :=
     [new_participant 2 ''c2'' False 5, new_participant 3 ''c3'' False 5]\<rparr>"

definition sample_client :: "nat ParticipantDiscoveryDatabase" where
  "sample_client = (new_database 2 ''c2'')\<lparr>participants :=
     [new_participant 1 ''server'' True 6, new_participant 3 [] False 7]\<rparr>"

lemma sample_databases_ok: "database_ok sample_server" "database_ok sample_client"
  by code_simp+

lemma sample_databases_eq: "Database_eq sample_server sample_client"
  by (simp add: Database_eq_walk sample_server_def sample_client_def item_defs alive_participants_def
      Participant_eq_def DiscoveryItem_eq_def)

theorem Database_eq_iff_witness:
  "Database_eq sample_server sample_client \<longleftrightarrow> agree_off 1 2 sample_server sample_client"
proof -
  have ids: "endpoint_guid sample_server = 1" "endpoint_guid sample_client = 2" by code_simp+
  have "alive_view sample_server 1 = None" "alive_view sample_client 2 = None" by code_simp+
  with Database_eq_iff [OF sample_databases_ok] show ?thesis by (simp add: ids)
qed

theorem Database_eq_sym_witness:
  "Database_eq sample_client sample_server = Database_eq sample_server sample_client"
proof -
  have "endpoint_guid sample_client \<noteq> endpoint_guid sample_server" by code_simp
  then show ?thesis by (rule Database_eq_sym)
qed

theorem Database_eq_agree_witness: "Database_eq sample_server (sample_server\<lparr>endpoint_guid := 9\<rparr>)"
proof (rule Database_eq_agree)
  show "database_ok sample_server" "database_ok (sample_server\<lparr>endpoint_guid := 9\<rparr>)" by code_simp+
  fix g
  have "alive_view (sample_server\<lparr>endpoint_guid := 9\<rparr>) g = alive_view sample_server g"
    by (simp add: alive_view_def alive_participants_def)
  then show "rel_option Participant_eq (alive_view sample_server g)
      (alive_view (sample_server\<lparr>endpoint_guid := 9\<rparr>) g)"
    by (simp add: option.rel_refl)
qed

end
