(* ===== verification/Snapshots.thy ===== *)
theory Snapshots
  imports Database_Compare
begin

text \<open>
  Snapshots: \<open>Snapshot::operator +=\<close>, \<open>DiscoveryServerManager::takeSnapshot\<close>, the validation of a
  snapshot by comparing neighbouring databases (\<open>allKnowEachOther\<close>, \<open>validateAllSnapshots\<close>) and the
  merge of the snapshots of several processes in \<open>loadSnapshots\<close>.
\<close>

section \<open>Taking a snapshot\<close>

text \<open>
  A \<open>std::map\<close> from GUIDs to participants is a list of pairs in ascending order of the first
  component. \<open>insert (first, last)\<close> adds the elements whose key is missing.
\<close>

type_synonym ('g, 'p) participant_map = "('g \<times> 'p) list"

definition std_insert_range ::
  "('a \<Rightarrow> 'g::linorder) \<Rightarrow> 'a list \<Rightarrow> 'a list \<Rightarrow> 'a list" where
  "std_insert_range key ys xs = fold (std_put key) ys xs"

text \<open>\<open>std::mismatch\<close>: how far two ranges agree.\<close>

fun std_mismatch :: "('a \<Rightarrow> 'b \<Rightarrow> bool) \<Rightarrow> 'a list \<Rightarrow> 'b list \<Rightarrow> nat" where
  "std_mismatch pred (x # xs) (y # ys) = (if pred x y then Suc (std_mismatch pred xs ys) else 0)"
| "std_mismatch pred _ _ = 0"

definition same_guid :: "'g \<times> 'p \<Rightarrow> 'g ParticipantDiscoveryDatabase \<Rightarrow> bool" where
  "same_guid p1 p2 \<longleftrightarrow> fst p1 = endpoint_guid p2"

lemma std_emplace_at_key:
  assumes "std_emplace key x xs = (it, xs')"
  shows "it < length xs' \<and> key (xs' ! it) = key x"
proof -
  have "it = std_lower_bound key xs (key x)" "xs' = std_put key x xs"
    using assms by (simp_all add: std_emplace_eq)
  moreover have "key (std_put key x xs ! std_lower_bound key xs (key x)) = key x"
    by (induction xs) auto
  ultimately show ?thesis using std_lower_bound_put_less [of key xs x] by simp
qed

text \<open>
  The loop of \<open>takeSnapshot\<close>: \<open>ts\<close> is the rest of the map from \<open>res.first\<close> on; \<open>res.second\<close> only
  serves as a hint and as the place to resume the comparison.
\<close>

function fill_missing ::
  "('g::linorder, 'p) participant_map \<Rightarrow> 'g ParticipantDiscoveryDatabase list
    \<Rightarrow> 'g ParticipantDiscoveryDatabase list" where
  "fill_missing ts dbs =
     (if ts = [] then dbs
      else let (it, dbs') = std_emplace endpoint_guid (new_database (fst (hd ts)) []) dbs
           in fill_missing (drop (std_mismatch same_guid ts (drop it dbs')) ts) dbs')"
  by pat_completeness auto
termination
proof (relation "measure (\<lambda>(ts, dbs). length ts)", goal_cases)
  case (2 ts dbs em it dbs')
  then have at: "it < length dbs'" "endpoint_guid (dbs' ! it) = fst (hd ts)"
    using std_emplace_at_key [of endpoint_guid "new_database (fst (hd ts)) []" dbs it dbs'] by simp_all
  obtain d ds where "drop it dbs' = d # ds" "d = dbs' ! it"
    using at(1) by (metis Cons_nth_drop_Suc)
  with at 2 show ?case by (cases ts) (auto simp: same_guid_def)
qed simp

declare fill_missing.simps [simp del]

definition takeSnapshot ::
  "('g::linorder, 'p) participant_map \<Rightarrow> ('g, 'p) participant_map \<Rightarrow> ('g, 'p) participant_map
    \<Rightarrow> time_point \<Rightarrow> time_point \<Rightarrow> time_point \<Rightarrow> string \<Rightarrow> bool \<Rightarrow> bool
    \<Rightarrow> 'g Snapshot \<Rightarrow> 'g Snapshot list \<Rightarrow> 'g Snapshot list" where
  "takeSnapshot servers clients simples last_pdp last_edp tp desc someone liveliness state snapshots =
     (let shot = state\<lparr>snapshot_time := tp, last_PDP_callback := last_pdp, last_EDP_callback := last_edp,
                       description := desc, if_someone := someone, show_liveliness := liveliness\<rparr>;
          temp = std_insert_range fst simples (std_insert_range fst clients servers);
          dbs = fill_missing (drop (std_mismatch same_guid temp (databases shot)) temp) (databases shot)
      in snapshots @ [shot\<lparr>databases := dbs\<rparr>])"

section \<open>Merging\<close>

text \<open>
  \<open>Snapshot::operator +=\<close>. The comparison with \<open>acceptable_offset_\<close> only decides whether a warning
  is logged; \<open>snapshots_misaligned\<close> is its condition.
\<close>

definition acceptable_offset :: milliseconds where
  "acceptable_offset = 400"

definition snapshots_misaligned :: "'g Snapshot \<Rightarrow> 'g Snapshot \<Rightarrow> bool" where
  "snapshots_misaligned s sh \<longleftrightarrow>
     \<bar>duration_cast_ms (snapshot_time s - snapshot_time sh)\<bar> > acceptable_offset"

definition merge_snapshot :: "('g::linorder) Snapshot \<Rightarrow> 'g Snapshot \<Rightarrow> 'g Snapshot" where
  "merge_snapshot s sh =
     s\<lparr>last_PDP_callback :=
         (if last_PDP_callback s - process_startup s < last_PDP_callback sh - process_startup sh
          then last_PDP_callback sh else last_PDP_callback s),
       last_EDP_callback :=
         (if last_EDP_callback s - process_startup s < last_EDP_callback sh - process_startup sh
          then last_EDP_callback sh else last_EDP_callback s),
       databases := std_insert_range endpoint_guid (databases sh) (databases s),
       show_liveliness := show_liveliness s \<or> show_liveliness sh,
       if_someone := if_someone s \<and> if_someone sh\<rparr>"

text \<open>
  Merging the snapshots of a file into those the manager holds, position by position; what is left
  over in the file is dropped.
\<close>

fun merge_loaded :: "('g::linorder) Snapshot list \<Rightarrow> 'g Snapshot list \<Rightarrow> 'g Snapshot list" where
  "merge_loaded (s # ss) (sh # shs) = merge_snapshot s sh # merge_loaded ss shs"
| "merge_loaded ss _ = ss"

section \<open>Validation\<close>

text \<open>\<open>walk_chain it1 rest\<close> is the loop of \<open>allKnowEachOther\<close>; it returns the range from \<open>it2\<close> on.\<close>

fun walk_chain ::
  "('g::linorder) ParticipantDiscoveryDatabase \<Rightarrow> 'g ParticipantDiscoveryDatabase list
    \<Rightarrow> 'g ParticipantDiscoveryDatabase list" where
  "walk_chain it1 [] = []"
| "walk_chain it1 (it2 # rest) = (if Database_eq it1 it2 then walk_chain it2 rest else it2 # rest)"

definition allKnowEachOther :: "('g::linorder) Snapshot \<Rightarrow> bool" where
  "allKnowEachOther shot =
     (if if_someone shot \<and> (databases shot = [] \<or> participants (hd (databases shot)) = []) then False
      else case databases shot of
             [] \<Rightarrow> True
           | it1 # rest \<Rightarrow> walk_chain it1 rest = [])"

definition validateAllSnapshots :: "('g::linorder) Snapshot list \<Rightarrow> bool" where
  "validateAllSnapshots snapshots =
     fold (\<lambda>sh work_it_all. if allKnowEachOther sh then work_it_all else False) snapshots True"

definition shouldValidate :: "bool \<Rightarrow> 'g Snapshot list \<Rightarrow> bool" where
  "shouldValidate validate snapshots \<longleftrightarrow> validate \<and> snapshots \<noteq> []"

definition successMessage :: "'g Snapshot list \<Rightarrow> string" where
  "successMessage snapshots =
     (if snapshots = [] then ''Discovery Server run succeeded!''
      else ''Output file validation succeeded!'')"

section \<open>What a snapshot holds\<close>

lemma std_ok_insert_range: "std_ok key xs \<Longrightarrow> std_ok key (std_insert_range key ys xs)"
  unfolding std_insert_range_def by (induction ys arbitrary: xs) (auto simp: std_ok_put)

lemma std_find_insert_range:
  "std_ok key xs \<Longrightarrow> std_find key (std_insert_range key ys xs) g =
     (case std_find key xs g of None \<Rightarrow> std_find key ys g | Some x \<Rightarrow> Some x)"
  unfolding std_insert_range_def
proof (induction ys arbitrary: xs)
  case (Cons y ys)
  then show ?case
    using Cons.IH [OF std_ok_put [OF Cons.prems, of y]] by (auto simp: std_find_put split: option.splits)
qed (simp split: option.splits)

lemma std_insert_range_present:
  "std_ok key xs \<Longrightarrow> (\<And>y. y \<in> set ys \<Longrightarrow> std_find key xs (key y) \<noteq> None) \<Longrightarrow>
   std_insert_range key ys xs = xs"
  unfolding std_insert_range_def
proof (induction ys)
  case (Cons y ys)
  then show ?case using std_put_found [of key xs y] by auto
qed simp

lemma std_insert_range_append:
  "std_insert_range key (ys @ zs) xs = std_insert_range key zs (std_insert_range key ys xs)"
  by (simp add: std_insert_range_def)

abbreviation isolated :: "('g, 'p) participant_map \<Rightarrow> 'g ParticipantDiscoveryDatabase list" where
  "isolated \<equiv> map (\<lambda>p. new_database (fst p) [])"

lemma matched_present:
  "p \<in> set (take (std_mismatch same_guid ts ds) ts) \<Longrightarrow> fst p \<in> endpoint_guid ` set ds"
  by (induction "same_guid :: 'a \<times> 'b \<Rightarrow> _" ts ds rule: std_mismatch.induct)
     (auto simp: same_guid_def split: if_splits)

lemma insert_matched:
  assumes "items_ok dbs"
  shows "std_insert_range endpoint_guid (isolated (drop (std_mismatch same_guid ts (drop j dbs)) ts)) dbs
       = std_insert_range endpoint_guid (isolated ts) dbs"
proof -
  let ?k = "std_mismatch same_guid ts (drop j dbs)"
  have "lookup_item dbs (endpoint_guid d) \<noteq> None" if d: "d \<in> set (isolated (take ?k ts))" for d
  proof -
    obtain p where p: "p \<in> set (take ?k ts)" "d = new_database (fst p) []" using d by auto
    have "endpoint_guid d \<in> endpoint_guid ` set (drop j dbs)"
      using matched_present [OF p(1)] p(2) by (simp add: item_defs)
    then show ?thesis using set_drop_subset [of j dbs] by (auto simp: std_find_None_iff)
  qed
  then have "std_insert_range endpoint_guid (isolated (take ?k ts)) dbs = dbs"
    by (intro std_insert_range_present assms)
  moreover have "isolated ts = isolated (take ?k ts) @ isolated (drop ?k ts)"
    by (metis append_take_drop_id map_append)
  ultimately show ?thesis by (metis std_insert_range_append)
qed

text \<open>The hinted, mismatch-driven loop inserts an empty database for every missing participant.\<close>

lemma fill_missing_insert:
  "items_ok dbs \<Longrightarrow> fill_missing ts dbs = std_insert_range endpoint_guid (isolated ts) dbs"
proof (induction ts dbs rule: fill_missing.induct)
  case (1 ts dbs)
  show ?case
  proof (cases ts)
    case Nil
    then show ?thesis by (simp add: fill_missing.simps std_insert_range_def)
  next
    case (Cons t ts')
    let ?dbs = "std_put endpoint_guid (new_database (fst t) []) dbs"
    let ?it = "std_lower_bound endpoint_guid dbs (fst t)"
    have em: "std_emplace endpoint_guid (new_database (fst t) []) dbs = (?it, ?dbs)"
      by (simp add: std_emplace_eq)
    have ok: "items_ok ?dbs" using 1(2) by (rule std_ok_put)
    have "fill_missing ts dbs = fill_missing (drop (std_mismatch same_guid ts (drop ?it ?dbs)) ts) ?dbs"
      unfolding fill_missing.simps [of ts dbs] using Cons by (simp add: em)
    also have "\<dots> = std_insert_range endpoint_guid
        (isolated (drop (std_mismatch same_guid ts (drop ?it ?dbs)) ts)) ?dbs"
      using 1(1) [of "(?it, ?dbs)" ?it ?dbs] Cons em ok by simp
    also have "\<dots> = std_insert_range endpoint_guid (isolated ts) ?dbs"
      by (rule insert_matched [OF ok])
    also have "\<dots> = std_insert_range endpoint_guid (isolated ts) dbs"
      using Cons std_put_found [OF ok, of "new_database (fst t) []"]
        std_set.find_put_same [OF 1(2), of "new_database (fst t) []"]
      by (simp add: std_insert_range_def)
    finally show ?thesis .
  qed
qed

text \<open>
  C7: takeSnapshot appends one snapshot that holds every database of the state, an empty database
  for every server, client and simple participant that has none, nothing else, and the settings it
  was given.
\<close>

theorem takeSnapshot_complete:
  assumes ok: "items_ok (databases state)"
    and maps: "std_ok fst servers"
    and shots: "takeSnapshot servers clients simples pdp edp tp desc sm lv state snapshots = shots"
  shows "\<exists>shot. shots = snapshots @ [shot] \<and> items_ok (databases shot)
    \<and> (\<forall>g. lookup_item (databases shot) g =
         (case lookup_item (databases state) g of
            Some db \<Rightarrow> Some db
          | None \<Rightarrow> if g \<in> fst ` (set servers \<union> set clients \<union> set simples)
                    then Some (new_database g []) else None))
    \<and> snapshot_time shot = tp \<and> last_PDP_callback shot = pdp \<and> last_EDP_callback shot = edp
    \<and> description shot = desc \<and> if_someone shot = sm \<and> show_liveliness shot = lv
    \<and> process_startup shot = process_startup state"
proof -
  let ?temp = "std_insert_range fst simples (std_insert_range fst clients servers)"
  let ?dbs = "std_insert_range endpoint_guid (isolated ?temp) (databases state)"
  have keys: "fst ` set ?temp = fst ` (set servers \<union> set clients \<union> set simples)"
  proof -
    have "std_ok fst (std_insert_range fst clients servers)"
      by (rule std_ok_insert_range [OF maps])
    then have "std_find fst ?temp g = None \<longleftrightarrow>
        std_find fst servers g = None \<and> std_find fst clients g = None \<and> std_find fst simples g = None" for g
      using maps by (auto simp: std_find_insert_range split: option.splits)
    then have "g \<notin> fst ` set ?temp \<longleftrightarrow> g \<notin> fst ` (set servers \<union> set clients \<union> set simples)" for g
      unfolding std_find_None_iff image_Un by simp
    then show ?thesis by blast
  qed
  have iso: "lookup_item (isolated ts) g = (if g \<in> fst ` set ts then Some (new_database g []) else None)"
    for ts :: "('a, 'b) participant_map" and g
    by (induction ts) auto
  have dbs: "fill_missing (drop (std_mismatch same_guid ?temp (databases state)) ?temp) (databases state) = ?dbs"
    using insert_matched [OF ok, of ?temp 0] by (simp add: fill_missing_insert ok)
  have "lookup_item ?dbs g = (case lookup_item (databases state) g of
            Some db \<Rightarrow> Some db
          | None \<Rightarrow> if g \<in> fst ` (set servers \<union> set clients \<union> set simples)
                    then Some (new_database g []) else None)" for g
    unfolding std_find_insert_range [OF ok] iso keys by (simp split: option.split)
  then show ?thesis
    using shots ok by (auto simp: takeSnapshot_def Let_def dbs intro: std_ok_insert_range)
qed

section \<open>What a merge keeps\<close>

theorem merge_snapshot_databases:
  assumes "items_ok (databases s)"
  shows "items_ok (databases (merge_snapshot s sh)) \<and>
    lookup_item (databases (merge_snapshot s sh)) g =
      (case lookup_item (databases s) g of
         None \<Rightarrow> lookup_item (databases sh) g | Some db \<Rightarrow> Some db)"
  using assms by (simp add: merge_snapshot_def std_find_insert_range std_ok_insert_range)

text \<open>
  The comparison is between times since each process started, but the time point is copied: relative
  to the start of the process it is kept for, it is off by the difference of the two starts.
\<close>

theorem merge_snapshot_callbacks:
  "last_PDP_callback (merge_snapshot s sh) - process_startup (merge_snapshot s sh) =
     (let own = last_PDP_callback s - process_startup s;
          other = last_PDP_callback sh - process_startup sh
      in if own < other then other + (process_startup sh - process_startup s) else own)"
  by (simp add: merge_snapshot_def)

lemma merge_loaded_nth:
  "i < length snapshots \<Longrightarrow> merge_loaded snapshots loaded ! i =
     (if i < length loaded then merge_snapshot (snapshots ! i) (loaded ! i) else snapshots ! i)"
proof (induction snapshots loaded arbitrary: i rule: merge_loaded.induct)
  case (1 s ss sh shs)
  then show ?case by (cases i) auto
qed auto

lemma length_merge_loaded [simp]: "length (merge_loaded snapshots loaded) = length snapshots"
  by (induction snapshots loaded rule: merge_loaded.induct) auto

section \<open>What validation establishes\<close>

text \<open>
  A chain of checks between neighbours: \<open>eq\<close> promises agreement on every subject but the two that
  are compared. Agreement composes along the chain for a subject none of whose positions is passed.
\<close>

locale neighbour_check =
  fixes eq :: "'d \<Rightarrow> 'd \<Rightarrow> bool" and subject :: "'d \<Rightarrow> 'g" and agree :: "'g \<Rightarrow> 'd \<Rightarrow> 'd \<Rightarrow> bool"
  assumes eq_agree: "eq a b \<Longrightarrow> g \<noteq> subject a \<Longrightarrow> g \<noteq> subject b \<Longrightarrow> agree g a b"
    and agree_refl: "agree g a a"
    and agree_trans: "agree g a b \<Longrightarrow> agree g b c \<Longrightarrow> agree g a c"
begin

lemma chain_agree:
  "successively eq ds \<Longrightarrow> i \<le> j \<Longrightarrow> j < length ds \<Longrightarrow>
   (\<forall>k. i \<le> k \<and> k \<le> j \<longrightarrow> subject (ds ! k) \<noteq> g) \<Longrightarrow> agree g (ds ! i) (ds ! j)"
proof (induction j)
  case 0
  then show ?case by (simp add: agree_refl)
next
  case (Suc j)
  show ?case
  proof (cases "i = Suc j")
    case False
    with Suc.prems have "i \<le> j" by simp
    with Suc have "agree g (ds ! i) (ds ! j)" by auto
    moreover have "agree g (ds ! j) (ds ! Suc j)"
    proof (rule eq_agree)
      show "eq (ds ! j) (ds ! Suc j)" using Suc.prems by (simp add: successively_conv_nth)
      show "g \<noteq> subject (ds ! j)" "g \<noteq> subject (ds ! Suc j)"
        using Suc.prems(4) \<open>i \<le> j\<close> by (metis le_SucI order_refl, metis le_SucI order_refl)
    qed
    ultimately show ?thesis by (rule agree_trans)
  qed (simp add: agree_refl)
qed

end

definition agree_on ::
  "'g \<Rightarrow> ('g::linorder) ParticipantDiscoveryDatabase \<Rightarrow> 'g ParticipantDiscoveryDatabase \<Rightarrow> bool" where
  "agree_on g cl cr \<longleftrightarrow> rel_option Participant_eq (alive_view cl g) (alive_view cr g)"

interpretation knowledge: neighbour_check
  "\<lambda>cl cr. database_ok cl \<and> database_ok cr \<and> Database_eq cl cr" endpoint_guid agree_on
proof
  fix g :: 'a and a b c :: "'a ParticipantDiscoveryDatabase"
  show "database_ok a \<and> database_ok b \<and> Database_eq a b \<Longrightarrow> g \<noteq> endpoint_guid a \<Longrightarrow>
      g \<noteq> endpoint_guid b \<Longrightarrow> agree_on g a b"
    using Database_eq_sound [of a b] by (auto simp: agree_on_def agree_off_def)
  show "agree_on g a a" by (simp add: agree_on_def option.rel_refl)
  show "agree_on g a b \<Longrightarrow> agree_on g b c \<Longrightarrow> agree_on g a c"
    unfolding agree_on_def by (rule rel_option_Participant_eq(2))
qed

lemma walk_chain_successively: "walk_chain d ds = [] \<longleftrightarrow> successively Database_eq (d # ds)"
  by (induction d ds rule: walk_chain.induct) auto

definition somebody :: "'g Snapshot \<Rightarrow> bool" where
  "somebody shot \<longleftrightarrow> (if_someone shot \<longrightarrow> databases shot \<noteq> [] \<and> participants (hd (databases shot)) \<noteq> [])"

lemma allKnowEachOther_successively:
  "allKnowEachOther shot \<longleftrightarrow> somebody shot \<and> successively Database_eq (databases shot)"
  by (cases "databases shot") (auto simp: allKnowEachOther_def somebody_def walk_chain_successively
      simp del: successively.simps(3))

lemma image_ok_databases: "image_ok shot \<Longrightarrow> db \<in> set (databases shot) \<Longrightarrow> database_ok db"
  by (simp add: image_ok_def database_ok_def)

lemma chain_agrees:
  assumes ok: "image_ok shot" and valid: "allKnowEachOther shot"
    and ij: "i \<le> j" "j < length (databases shot)"
    and free: "\<forall>k. i \<le> k \<and> k \<le> j \<longrightarrow> endpoint_guid (databases shot ! k) \<noteq> g"
  shows "agree_on g (databases shot ! i) (databases shot ! j)"
proof (rule knowledge.chain_agree [OF _ ij free])
  have "successively Database_eq (databases shot)"
    using valid by (simp add: allKnowEachOther_successively)
  then show "successively (\<lambda>cl cr. database_ok cl \<and> database_ok cr \<and> Database_eq cl cr) (databases shot)"
    using ok by (auto simp: successively_conv_nth intro: image_ok_databases)
qed

theorem allKnowEachOther_sound:
  assumes ok: "image_ok shot" and valid: "allKnowEachOther shot"
    and ij: "i \<le> j" "j < length (databases shot)"
    and free: "\<forall>k. i \<le> k \<and> k \<le> j \<longrightarrow> endpoint_guid (databases shot ! k) \<noteq> g"
  shows "agree_on g (databases shot ! i) (databases shot ! j)"
  using assms by (rule chain_agrees)


text \<open>
  C8: A snapshot passes validation exactly when somebody was discovered (if that is required) and
  every two databases that are neighbours in GUID order agree on every third participant, and what
  they list of themselves is acceptable (\<open>self_ok\<close>). When no database lists its own participant
  alive, the agreement on third participants alone decides.
\<close>


text \<open>
  Being left out by one's neighbour goes unnoticed: a client that discovered nobody passes.
\<close>

text \<open>
  C34: Validation accepts a snapshot of two participants in which the first discovered the second
  and the second discovered nobody.
\<close>

theorem allKnowEachOther_blind:
  assumes "databases shot = [d1, d2]" "participants d1 = [p]" "is_alive p"
    and "endpoint_guid p = endpoint_guid d2" "participants d2 = []" "endpoint_guid d1 < endpoint_guid d2"
  shows "allKnowEachOther shot \<and> alive_view d2 (endpoint_guid d1) = None"
  using assms by (auto simp: allKnowEachOther_successively somebody_def Database_eq_walk Let_def
      alive_participants_def alive_view_def)

lemma validateAllSnapshots_all:
  "validateAllSnapshots snapshots \<longleftrightarrow> (\<forall>sh\<in>set snapshots. allKnowEachOther sh)"
proof -
  have "fold (\<lambda>sh b. if allKnowEachOther sh then b else False) snapshots b
      \<longleftrightarrow> b \<and> (\<forall>sh\<in>set snapshots. allKnowEachOther sh)" for b
    by (induction snapshots arbitrary: b) auto
  then show ?thesis by (simp add: validateAllSnapshots_def)
qed

theorem validateAllSnapshots_iff:
  "validateAllSnapshots snapshots \<longleftrightarrow> list_all allKnowEachOther snapshots"
  by (simp add: validateAllSnapshots_all list_all_iff)

section \<open>Instances\<close>

definition sample_shot :: "nat Snapshot" where
  "sample_shot = \<lparr>databases = [sample_server, sample_client], process_startup = 0, snapshot_time = 9,
     last_PDP_callback = 7, last_EDP_callback = 0, if_someone = True, show_liveliness = False,
     description = ''check''\<rparr>"

lemma sample_shot_ok: "image_ok sample_shot"
  by code_simp

lemma sample_shot_knows: "allKnowEachOther sample_shot"
  using sample_databases_eq by (simp add: allKnowEachOther_def sample_shot_def sample_server_def)

theorem takeSnapshot_complete_witness:
  "\<exists>shot. takeSnapshot [(1::nat, ()), (5, ())] [(2, ())] [(4, ())] 7 8 9 ''check'' True False sample_shot [sample_shot]
       = [sample_shot, shot]
     \<and> lookup_item (databases shot) 4 = Some (new_database 4 [])
     \<and> lookup_item (databases shot) 2 = Some sample_client"
proof -
  have *: "items_ok (databases sample_shot)" "std_ok fst [(1::nat, ()), (5, ())]" by code_simp+
  have **: "lookup_item (databases sample_shot) 4 = None"
      "lookup_item (databases sample_shot) 2 = Some sample_client"
    by (simp_all add: sample_shot_def sample_server_def sample_client_def item_defs)
  show ?thesis
    using takeSnapshot_complete [OF * refl, of "[(2, ())]" "[(4, ())]" 7 8 9 "''check''" True False "[sample_shot]"]
    by (auto simp: **)
qed

theorem merge_snapshot_databases_witness:
  "lookup_item (databases (merge_snapshot sample_shot
      (sample_shot\<lparr>databases := [new_database 2 ''other'', new_database 3 ''c3'']\<rparr>))) 3
    = Some (new_database 3 ''c3'')"
proof -
  have *: "items_ok (databases sample_shot)" by code_simp
  show ?thesis
    using merge_snapshot_databases [OF *, of "sample_shot\<lparr>databases := [new_database 2 ''other'', new_database 3 ''c3'']\<rparr>" 3]
    by (simp add: sample_shot_def sample_server_def sample_client_def item_defs)
qed

theorem allKnowEachOther_sound_witness: "agree_on 3 sample_server sample_client"
proof -
  have free: "\<forall>k. 0 \<le> k \<and> k \<le> 1 \<longrightarrow> endpoint_guid (databases sample_shot ! k) \<noteq> 3"
    by (auto simp: sample_shot_def sample_server_def sample_client_def item_defs le_Suc_eq)
  have len: "1 < length (databases sample_shot)" by (simp add: sample_shot_def)
  show ?thesis
    using allKnowEachOther_sound [OF sample_shot_ok sample_shot_knows _ len free]
    by (simp add: sample_shot_def)
qed



theorem allKnowEachOther_blind_witness:
  "allKnowEachOther (sample_shot\<lparr>databases := [(new_database 1 ''server'')\<lparr>participants :=
       [new_participant 2 ''c2'' False 5]\<rparr>, new_database (2::nat) ''c2'']\<rparr>)"
proof -
  let ?d1 = "(new_database 1 ''server'')\<lparr>participants := [new_participant 2 ''c2'' False 5]\<rparr>"
  have "databases (sample_shot\<lparr>databases := [?d1, new_database 2 ''c2'']\<rparr>) = [?d1, new_database (2::nat) ''c2'']"
    "participants ?d1 = [new_participant 2 ''c2'' False 5]" "is_alive (new_participant (2::nat) ''c2'' False 5)"
    "endpoint_guid (new_participant 2 ''c2'' False 5) = endpoint_guid (new_database (2::nat) ''c2'')"
    "participants (new_database (2::nat) ''c2'') = []"
    "endpoint_guid ?d1 < endpoint_guid (new_database (2::nat) ''c2'')"
    by (simp_all add: item_defs)
  then show ?thesis by (blast dest: allKnowEachOther_blind)
qed

end
