(* ===== verification/Manager.thy ===== *)
theory Manager
  imports Std_Map Snapshots
begin

text \<open>
  \<open>DiscoveryServerManager\<close>: its state, the registries of participants, endpoints and created entities,
  and the discovery callbacks that feed the database. Every method that takes \<open>management_mutex\<close> for
  its whole body is one function of the state.

  The entities of Fast DDS are handles \<open>'d\<close> (a pointer that is not null; a nullable pointer is an
  option), and what Fast DDS does is the parameter \<open>dds\<close>, over a state \<open>'w\<close> of its own.
\<close>

section \<open>Fast DDS\<close>

datatype ReturnCode = RETCODE_OK | RETCODE_ERROR | RETCODE_OTHER int

text \<open>
  \<open>dds_owner\<close> is the participant an endpoint, a publisher or a subscriber belongs to; \<open>dds_name\<close> the
  name in a participant's QoS or the name of a topic.
\<close>

record ('g, 'd, 'q, 'w) dds =
  dds_guid :: "'d \<Rightarrow> 'g"
  dds_owner :: "'d \<Rightarrow> 'd"
  dds_name :: "'d \<Rightarrow> string"
  same_guid_prefix :: "'g \<Rightarrow> 'g \<Rightarrow> bool"
  guid_unknown :: 'g
  participant_guid_of :: "'g \<Rightarrow> 'g"
  create_participant :: "'q \<Rightarrow> 'w \<Rightarrow> 'd option \<times> 'w"
  create_publisher :: "'d \<Rightarrow> 'w \<Rightarrow> 'd option \<times> 'w"
  create_subscriber :: "'d \<Rightarrow> 'w \<Rightarrow> 'd option \<times> 'w"
  register_type :: "'d \<Rightarrow> 'w \<Rightarrow> 'w"
  create_topic :: "'d \<Rightarrow> string \<Rightarrow> string \<Rightarrow> 'w \<Rightarrow> 'd option \<times> 'w"
  create_topic_with_profile :: "'d \<Rightarrow> string \<Rightarrow> string \<Rightarrow> string \<Rightarrow> 'w \<Rightarrow> 'd option \<times> 'w"
  create_datawriter :: "'d \<Rightarrow> 'd option \<Rightarrow> 'w \<Rightarrow> 'd option \<times> 'w"
  create_datawriter_with_profile :: "'d \<Rightarrow> 'd option \<Rightarrow> string \<Rightarrow> 'w \<Rightarrow> 'd option \<times> 'w"
  create_datareader :: "'d \<Rightarrow> 'd option \<Rightarrow> 'w \<Rightarrow> 'd option \<times> 'w"
  create_datareader_with_profile :: "'d \<Rightarrow> 'd option \<Rightarrow> string \<Rightarrow> 'w \<Rightarrow> 'd option \<times> 'w"
  set_no_listener :: "'d \<Rightarrow> 'w \<Rightarrow> 'w"
  delete_contained_entities :: "'d \<Rightarrow> 'w \<Rightarrow> ReturnCode \<times> 'w"
  delete_participant :: "'d \<Rightarrow> 'w \<Rightarrow> ReturnCode \<times> 'w"
  delete_datareader :: "'d \<Rightarrow> 'd \<Rightarrow> 'w \<Rightarrow> ReturnCode \<times> 'w"
  delete_datawriter :: "'d \<Rightarrow> 'd \<Rightarrow> 'w \<Rightarrow> ReturnCode \<times> 'w"

section \<open>Late joiner events\<close>

text \<open>
  The objects of the \<open>LateJoinerData\<close> hierarchy. They refer to one another and to themselves through
  pointers, so they live in a store and a pointer is an address of it. Member function pointers are
  the constructors of \<open>role\<close> (\<open>addServer\<close>, \<open>addClient\<close>, \<open>addSimple\<close>) and \<open>endpoint_kind\<close> (the template
  argument).
\<close>

datatype role = Server_Role | Client_Role | Simple_Role

datatype endpoint_kind = Reader_Kind | Writer_Kind

type_synonym address = nat

datatype ('g, 'q) event_action =
    DelayedParticipantCreation 'q role "address option" 'g
  | DelayedParticipantDestruction 'g
  | DelayedEndpointCreation endpoint_kind string string string string 'g "address option" "address option"
  | DelayedEndpointDestruction endpoint_kind 'g
  | DelayedSnapshot string bool bool
  | DelayedEnvironmentModification string string

record ('g, 'q) LateJoinerData =
  event_time :: time_point
  event_action :: "('g, 'q) event_action"

section \<open>State\<close>

record TopicDescriptionItem =
  topic_item_name :: string
  topic_item_type :: string

definition undefined_topic :: TopicDescriptionItem where
  "undefined_topic = \<lparr>topic_item_name = ''UNDEF'', topic_item_type = ''UNDEF''\<rparr>"

definition default_topic_description :: TopicDescriptionItem where
  "default_topic_description = \<lparr>topic_item_name = ''HelloWorldTopic'', topic_item_type = ''HelloWorld''\<rparr>"

text \<open>\<open>registeredTopics\<close> is a map whose values are nullable pointers.\<close>

record 'd ParticipantCreatedEntityInfo =
  info_participant :: "'d option"
  info_publisher :: "'d option"
  info_publisherTopic :: "'d option"
  info_publisherType :: "'d option"
  info_subscriber :: "'d option"
  info_subscriberTopic :: "'d option"
  info_subscriberType :: "'d option"
  registeredTopics :: "string \<rightharpoonup> 'd option"

definition blank_info :: "'d ParticipantCreatedEntityInfo" where
  "blank_info = \<lparr>info_participant = None, info_publisher = None, info_publisherTopic = None,
     info_publisherType = None, info_subscriber = None, info_subscriberTopic = None,
     info_subscriberType = None, registeredTopics = Map.empty\<rparr>"

text \<open>
  \<open>events\<close> is the vector of pointers, \<open>event_store\<close> the objects they point to. \<open>'l\<close> stands for the
  locator lists of Fast DDS.
\<close>

record ('g, 'd, 'q, 'l) Manager =
  servers :: "('g \<times> 'd) list"
  clients :: "('g \<times> 'd) list"
  simples :: "('g \<times> 'd) list"
  entity_map :: "('g \<times> 'd ParticipantCreatedEntityInfo) list"
  data_readers :: "('g \<times> 'd) list"
  data_writers :: "('g \<times> 'd) list"
  server_locators :: "('g \<times> 'l \<times> 'l) list"
  state :: "'g Snapshot"
  events :: "address list"
  event_store :: "address \<rightharpoonup> ('g, 'q) LateJoinerData"
  snapshots :: "'g Snapshot list"
  topic_description_profiles :: "string \<rightharpoonup> TopicDescriptionItem"
  no_callbacks :: bool
  auto_shutdown :: bool
  enable_prefix_validation :: bool
  correctly_created :: bool
  snapshots_output_file :: string
  validate :: bool
  last_PDP :: time_point
  last_EDP :: time_point
  shared_memory_off :: bool

section \<open>Participants\<close>

text \<open>
  The assertions read \<open>servers[guid]\<close>, which adds a null pointer where there is none; the assignment
  that follows replaces it.
\<close>

definition addServer :: "('g::linorder, 'd, 'q, 'w) dds \<Rightarrow> bool \<Rightarrow> 'd \<Rightarrow> ('g, 'd, 'q, 'l) Manager
    \<Rightarrow> ('g, 'd, 'q, 'l) Manager run" where
  "addServer D dbg s m =
     assert_run dbg (map_find (dds_guid D s) (servers m) = None)
       (m\<lparr>servers := map_assign (dds_guid D s) s (servers m)\<rparr>)"

definition addClient :: "('g::linorder, 'd, 'q, 'w) dds \<Rightarrow> bool \<Rightarrow> 'd \<Rightarrow> ('g, 'd, 'q, 'l) Manager
    \<Rightarrow> ('g, 'd, 'q, 'l) Manager run" where
  "addClient D dbg c m =
     assert_run dbg (map_find (dds_guid D c) (clients m) = None)
       (m\<lparr>clients := map_assign (dds_guid D c) c (clients m)\<rparr>)"

definition addSimple :: "('g::linorder, 'd, 'q, 'w) dds \<Rightarrow> bool \<Rightarrow> 'd \<Rightarrow> ('g, 'd, 'q, 'l) Manager
    \<Rightarrow> ('g, 'd, 'q, 'l) Manager run" where
  "addSimple D dbg s m =
     assert_run dbg (map_find (dds_guid D s) (simples m) = None)
       (m\<lparr>simples := map_assign (dds_guid D s) s (simples m)\<rparr>)"

definition getParticipant :: "'g::linorder \<Rightarrow> ('g, 'd, 'q, 'l) Manager \<Rightarrow> 'd option" where
  "getParticipant guid m =
     (case List.find (\<lambda>info. fst info = guid) (entity_map m) of
        Some info \<Rightarrow> info_participant (snd info)
      | None \<Rightarrow>
          (case map_find guid (clients m) of
             Some p \<Rightarrow> Some p
           | None \<Rightarrow>
               (case map_find guid (servers m) of
                  Some p \<Rightarrow> Some p
                | None \<Rightarrow>
                    (case map_find guid (simples m) of
                       Some p \<Rightarrow> Some p
                     | None \<Rightarrow> None))))"

definition removeParticipant ::
  "('g::linorder, 'd, 'q, 'w) dds \<Rightarrow> 'g \<Rightarrow> ('g, 'd, 'q, 'l) Manager
    \<Rightarrow> 'd option \<times> ('g, 'd, 'q, 'l) Manager" where
  "removeParticipant D guid m =
     (let (returnState, img) = RemoveSpokesman guid (state m);
          m = m\<lparr>state := img,
                data_writers := filter (\<lambda>it. \<not> same_guid_prefix D guid (fst it)) (data_writers m),
                data_readers := filter (\<lambda>it. \<not> same_guid_prefix D guid (fst it)) (data_readers m)\<rparr>
      in case map_find guid (clients m) of
           Some p \<Rightarrow> (Some p, m\<lparr>clients := map_erase guid (clients m)\<rparr>)
         | None \<Rightarrow>
             (case map_find guid (servers m) of
                Some p \<Rightarrow> (Some p, m\<lparr>servers := map_erase guid (servers m)\<rparr>)
              | None \<Rightarrow>
                  (case map_find guid (simples m) of
                     Some p \<Rightarrow> (Some p, m\<lparr>simples := map_erase guid (simples m)\<rparr>)
                   | None \<Rightarrow> (None, m))))"

section \<open>Endpoints\<close>

definition addDataReader :: "('g::linorder, 'd, 'q, 'w) dds \<Rightarrow> bool \<Rightarrow> 'd option \<Rightarrow> ('g, 'd, 'q, 'l) Manager
    \<Rightarrow> ('g, 'd, 'q, 'l) Manager run" where
  "addDataReader D dbg dr m =
     (case dr of
        None \<Rightarrow> Inr m
      | Some d \<Rightarrow> assert_run dbg (map_find (dds_guid D d) (data_readers m) = None)
                    (m\<lparr>data_readers := map_assign (dds_guid D d) d (data_readers m)\<rparr>))"

definition getDataReader :: "'g::linorder \<Rightarrow> ('g, 'd, 'q, 'l) Manager \<Rightarrow> 'd option" where
  "getDataReader guid m = map_find guid (data_readers m)"

definition removeSubscriber ::
  "'g::linorder \<Rightarrow> ('g, 'd, 'q, 'l) Manager \<Rightarrow> 'd option \<times> ('g, 'd, 'q, 'l) Manager" where
  "removeSubscriber guid m =
     (case map_find guid (data_readers m) of
        Some d \<Rightarrow> (Some d, m\<lparr>data_readers := map_erase guid (data_readers m)\<rparr>)
      | None \<Rightarrow> (None, m))"

definition addDataWriter :: "('g::linorder, 'd, 'q, 'w) dds \<Rightarrow> bool \<Rightarrow> 'd option \<Rightarrow> ('g, 'd, 'q, 'l) Manager
    \<Rightarrow> ('g, 'd, 'q, 'l) Manager run" where
  "addDataWriter D dbg dw m =
     (case dw of
        None \<Rightarrow> Inr m
      | Some d \<Rightarrow> assert_run dbg (map_find (dds_guid D d) (data_writers m) = None)
                    (m\<lparr>data_writers := map_assign (dds_guid D d) d (data_writers m)\<rparr>))"

definition getDataWriter :: "'g::linorder \<Rightarrow> ('g, 'd, 'q, 'l) Manager \<Rightarrow> 'd option" where
  "getDataWriter guid m = map_find guid (data_writers m)"

definition removePublisher ::
  "'g::linorder \<Rightarrow> ('g, 'd, 'q, 'l) Manager \<Rightarrow> 'd option \<times> ('g, 'd, 'q, 'l) Manager" where
  "removePublisher guid m =
     (case map_find guid (data_writers m) of
        Some d \<Rightarrow> (Some d, m\<lparr>data_writers := map_erase guid (data_writers m)\<rparr>)
      | None \<Rightarrow> (None, m))"

section \<open>Created entities\<close>

text \<open>
  \<open>entity_map[guid]\<close>: the entry, which is created blank where there is none, and the map with it.
\<close>

definition entity_index ::
  "'g::linorder \<Rightarrow> ('g, 'd, 'q, 'l) Manager
    \<Rightarrow> 'd ParticipantCreatedEntityInfo \<times> ('g, 'd, 'q, 'l) Manager" where
  "entity_index g m =
     (let (info, em) = map_index blank_info g (entity_map m) in (info, m\<lparr>entity_map := em\<rparr>))"

definition entity_assign ::
  "'g::linorder \<Rightarrow> ('d ParticipantCreatedEntityInfo \<Rightarrow> 'd ParticipantCreatedEntityInfo)
    \<Rightarrow> ('g, 'd, 'q, 'l) Manager \<Rightarrow> ('g, 'd, 'q, 'l) Manager" where
  "entity_assign g f m =
     (let (info, m) = entity_index g m in m\<lparr>entity_map := map_assign g (f info) (entity_map m)\<rparr>)"

definition deleteDataReader ::
  "('g::linorder, 'd, 'q, 'w) dds \<Rightarrow> 'd option \<Rightarrow> ('g, 'd, 'q, 'l) Manager \<times> 'w
    \<Rightarrow> ReturnCode \<times> ('g, 'd, 'q, 'l) Manager \<times> 'w" where
  "deleteDataReader D dr mw =
     (case dr of
        None \<Rightarrow> (RETCODE_ERROR, mw)
      | Some d \<Rightarrow>
          let (info, m) = entity_index (dds_guid D (dds_owner D d)) (fst mw)
          in case info_subscriber info of
               Some sub \<Rightarrow> let (ret, w) = delete_datareader D sub d (snd mw) in (ret, m, w)
             | None \<Rightarrow> (RETCODE_ERROR, m, snd mw))"

definition deleteDataWriter ::
  "('g::linorder, 'd, 'q, 'w) dds \<Rightarrow> 'd option \<Rightarrow> ('g, 'd, 'q, 'l) Manager \<times> 'w
    \<Rightarrow> ReturnCode \<times> ('g, 'd, 'q, 'l) Manager \<times> 'w" where
  "deleteDataWriter D dw mw =
     (case dw of
        None \<Rightarrow> (RETCODE_ERROR, mw)
      | Some d \<Rightarrow>
          let (info, m) = entity_index (dds_guid D (dds_owner D d)) (fst mw)
          in case info_publisher info of
               Some pub \<Rightarrow> let (ret, w) = delete_datawriter D pub d (snd mw) in (ret, m, w)
             | None \<Rightarrow> (RETCODE_ERROR, m, snd mw))"

definition deleteParticipant ::
  "('g::linorder, 'd, 'q, 'w) dds \<Rightarrow> 'd option \<Rightarrow> ('g, 'd, 'q, 'l) Manager \<times> 'w
    \<Rightarrow> ReturnCode \<times> ('g, 'd, 'q, 'l) Manager \<times> 'w" where
  "deleteParticipant D participant mw =
     (case participant of
        None \<Rightarrow> (RETCODE_ERROR, mw)
      | Some p \<Rightarrow>
          let w = set_no_listener D p (snd mw);
              m = (fst mw)\<lparr>entity_map := map_erase (dds_guid D p) (entity_map (fst mw))\<rparr>;
              (ret, w) = delete_contained_entities D p w;
              (ret, w) = delete_participant D p w
          in (ret, m, w))"

definition setDomainEntityTopic ::
  "endpoint_kind \<Rightarrow> ('g::linorder, 'd, 'q, 'w) dds \<Rightarrow> 'd option \<Rightarrow> 'd option
    \<Rightarrow> ('g, 'd, 'q, 'l) Manager \<Rightarrow> ('g, 'd, 'q, 'l) Manager" where
  "setDomainEntityTopic kind D entity t m =
     (case entity of
        None \<Rightarrow> m
      | Some e \<Rightarrow>
          (case t of
             None \<Rightarrow> m
           | Some t \<Rightarrow>
               entity_assign (dds_guid D (dds_owner D e))
                 (case kind of
                    Writer_Kind \<Rightarrow> info_publisherTopic_update (\<lambda>_. Some t)
                  | Reader_Kind \<Rightarrow> info_subscriberTopic_update (\<lambda>_. Some t)) m))"

definition setDomainEntityType ::
  "endpoint_kind \<Rightarrow> ('g::linorder, 'd, 'q, 'w) dds \<Rightarrow> 'd option \<Rightarrow> 'd option
    \<Rightarrow> ('g, 'd, 'q, 'l) Manager \<Rightarrow> ('g, 'd, 'q, 'l) Manager" where
  "setDomainEntityType kind D entity t m =
     (case entity of
        None \<Rightarrow> m
      | Some e \<Rightarrow>
          (case t of
             None \<Rightarrow> m
           | Some t \<Rightarrow>
               entity_assign (dds_guid D (dds_owner D e))
                 (case kind of
                    Writer_Kind \<Rightarrow> info_publisherType_update (\<lambda>_. Some t)
                  | Reader_Kind \<Rightarrow> info_subscriberType_update (\<lambda>_. Some t)) m))"

definition getPubSubEntityFromParticipantGuid ::
  "endpoint_kind \<Rightarrow> 'g::linorder \<Rightarrow> ('g, 'd, 'q, 'l) Manager \<Rightarrow> 'd option \<times> ('g, 'd, 'q, 'l) Manager" where
  "getPubSubEntityFromParticipantGuid kind guid m =
     (let (info, m) = entity_index guid m
      in (case kind of Writer_Kind \<Rightarrow> info_publisher info | Reader_Kind \<Rightarrow> info_subscriber info, m))"

definition setParticipantInfo ::
  "'g::linorder \<Rightarrow> 'd ParticipantCreatedEntityInfo \<Rightarrow> ('g, 'd, 'q, 'l) Manager
    \<Rightarrow> ('g, 'd, 'q, 'l) Manager" where
  "setParticipantInfo guid info m = entity_assign guid (\<lambda>_. info) m"

definition setParticipantTopic ::
  "('g::linorder, 'd, 'q, 'w) dds \<Rightarrow> 'd option \<Rightarrow> 'd option
    \<Rightarrow> ('g, 'd, 'q, 'l) Manager \<Rightarrow> ('g, 'd, 'q, 'l) Manager" where
  "setParticipantTopic D p t m =
     (case p of
        None \<Rightarrow> m
      | Some p \<Rightarrow>
          (case t of
             None \<Rightarrow> m
           | Some t \<Rightarrow>
               if map_find (dds_guid D p) (entity_map m) = None then m
               else entity_assign (dds_guid D p)
                      (registeredTopics_update (\<lambda>ts. ts(dds_name D t \<mapsto> Some t))) m))"

definition getParticipantTopicByName ::
  "('g::linorder, 'd, 'q, 'w) dds \<Rightarrow> 'd option \<Rightarrow> string
    \<Rightarrow> ('g, 'd, 'q, 'l) Manager \<Rightarrow> 'd option \<times> ('g, 'd, 'q, 'l) Manager" where
  "getParticipantTopicByName D p name m =
     (case p of
        None \<Rightarrow> (None, m)
      | Some p \<Rightarrow>
          (case map_find (dds_guid D p) (entity_map m) of
             None \<Rightarrow> (None, m)
           | Some info \<Rightarrow>
               let t = (case registeredTopics info name of None \<Rightarrow> None | Some t \<Rightarrow> t)
               in (t, entity_assign (dds_guid D p)
                        (registeredTopics_update (\<lambda>ts. ts(name \<mapsto> t))) m)))"

section \<open>Termination\<close>

definition shutdown_participants ::
  "('g, 'd, 'q, 'w) dds \<Rightarrow> ('g \<times> 'd) list \<Rightarrow> 'w \<Rightarrow> 'w" where
  "shutdown_participants D ps w =
     fold (\<lambda>entity w.
       let w = set_no_listener D (snd entity) w;
           (ret, w) = delete_contained_entities D (snd entity) w;
           (ret, w) = delete_participant D (snd entity) w
       in w) ps w"

definition onTerminate ::
  "('g, 'd, 'q, 'w) dds \<Rightarrow> ('g, 'd, 'q, 'l) Manager \<times> 'w \<Rightarrow> ('g, 'd, 'q, 'l) Manager \<times> 'w" where
  "onTerminate D mw =
     (let (m, w) = mw
      in if no_callbacks m then (m, w)
         else
           let m = m\<lparr>no_callbacks := True\<rparr>;
               w = shutdown_participants D (clients m) w;
               w = shutdown_participants D (simples m) w;
               w = shutdown_participants D (servers m) w
           in (m\<lparr>entity_map := [], data_readers := [], data_writers := [],
                 event_store := (\<lambda>a. if a \<in> set (events m) then None else event_store m a),
                 events := []\<rparr>, w))"

section \<open>Callbacks\<close>

text \<open>
  The enumerators the source names; any other value takes the \<open>default\<close> label.
\<close>

datatype ParticipantDiscoveryStatus =
    DISCOVERED_PARTICIPANT
  | CHANGED_QOS_PARTICIPANT
  | REMOVED_PARTICIPANT
  | DROPPED_PARTICIPANT
  | OTHER_PARTICIPANT_STATUS int

datatype ReaderDiscoveryStatus =
    DISCOVERED_READER | CHANGED_QOS_READER | REMOVED_READER | OTHER_READER_STATUS int

datatype WriterDiscoveryStatus =
    DISCOVERED_WRITER | CHANGED_QOS_WRITER | REMOVED_WRITER | OTHER_WRITER_STATUS int

record 'g ParticipantBuiltinTopicData =
  pdata_guid :: 'g
  pdata_name :: string

record 'g EndpointBuiltinTopicData =
  edata_guid :: 'g
  edata_participant_guid :: 'g
  edata_type_name :: string
  edata_topic_name :: string

text \<open>
  \<open>callback_time\<close> is the clock reading the callback makes, \<open>now\<close> the one a constructor of the database
  makes later. The name of the reported participant is only computed for the log.
\<close>

definition on_participant_discovery ::
  "('g::linorder, 'd, 'q, 'w) dds \<Rightarrow> bool \<Rightarrow> time_point \<Rightarrow> time_point \<Rightarrow> 'd
    \<Rightarrow> ParticipantDiscoveryStatus \<Rightarrow> 'g ParticipantBuiltinTopicData
    \<Rightarrow> ('g, 'd, 'q, 'l) Manager \<Rightarrow> ('g, 'd, 'q, 'l) Manager run" where
  "on_participant_discovery D dbg callback_time now participant status info m =
     (let partid = pdata_guid info;
          srcGuid = dds_guid D participant;
          srcName = dds_name D participant
      in if getParticipant srcGuid m = None then Inr m
         else
           let m = m\<lparr>last_PDP := callback_time\<rparr>;
               server = (if \<not> no_callbacks m then map_find partid (servers m) \<noteq> None else False)
           in case status of
                DISCOVERED_PARTICIPANT \<Rightarrow>
                  bind_run (AddParticipant dbg now srcGuid srcName partid (pdata_name info)
                              callback_time server (state m))
                    (\<lambda>(_, img). Inr (m\<lparr>state := img\<rparr>))
              | REMOVED_PARTICIPANT \<Rightarrow>
                  Inr (m\<lparr>state := snd (RemoveParticipant srcGuid partid (state m))\<rparr>)
              | DROPPED_PARTICIPANT \<Rightarrow>
                  Inr (m\<lparr>state := snd (RemoveParticipant srcGuid partid (state m))\<rparr>)
              | _ \<Rightarrow> Inr m)"

definition on_data_reader_discovery ::
  "('g::linorder, 'd, 'q, 'w) dds \<Rightarrow> bool \<Rightarrow> time_point \<Rightarrow> time_point \<Rightarrow> 'd
    \<Rightarrow> ReaderDiscoveryStatus \<Rightarrow> 'g EndpointBuiltinTopicData
    \<Rightarrow> ('g, 'd, 'q, 'l) Manager \<Rightarrow> ('g, 'd, 'q, 'l) Manager run" where
  "on_data_reader_discovery D dbg callback_time now participant reason info m =
     (let srcGuid = dds_guid D participant;
          srcName = dds_name D participant
      in if getParticipant srcGuid m = None then Inr m
         else
           let subsid = edata_guid info;
               partid = edata_participant_guid info;
               m = m\<lparr>last_EDP := callback_time\<rparr>
           in case reason of
                DISCOVERED_READER \<Rightarrow>
                  bind_run (AddDataReader dbg now srcGuid srcName partid subsid (edata_type_name info)
                              (edata_topic_name info) callback_time (state m))
                    (\<lambda>(_, img). Inr (m\<lparr>state := img\<rparr>))
              | REMOVED_READER \<Rightarrow>
                  Inr (m\<lparr>state := snd (RemoveDataReader srcGuid partid subsid (state m))\<rparr>)
              | _ \<Rightarrow> Inr m)"

definition on_data_writer_discovery ::
  "('g::linorder, 'd, 'q, 'w) dds \<Rightarrow> bool \<Rightarrow> time_point \<Rightarrow> time_point \<Rightarrow> 'd
    \<Rightarrow> WriterDiscoveryStatus \<Rightarrow> 'g EndpointBuiltinTopicData
    \<Rightarrow> ('g, 'd, 'q, 'l) Manager \<Rightarrow> ('g, 'd, 'q, 'l) Manager run" where
  "on_data_writer_discovery D dbg callback_time now participant reason info m =
     (let srcGuid = dds_guid D participant;
          srcName = dds_name D participant
      in if getParticipant srcGuid m = None then Inr m
         else
           let pubsid = edata_guid info;
               partid = edata_participant_guid info;
               m = m\<lparr>last_EDP := callback_time\<rparr>
           in case reason of
                DISCOVERED_WRITER \<Rightarrow>
                  bind_run (AddDataWriter dbg now srcGuid srcName partid pubsid (edata_type_name info)
                              (edata_topic_name info) callback_time (state m))
                    (\<lambda>(_, img). Inr (m\<lparr>state := img\<rparr>))
              | REMOVED_WRITER \<Rightarrow>
                  Inr (m\<lparr>state := snd (RemoveDataWriter srcGuid partid pubsid (state m))\<rparr>)
              | _ \<Rightarrow> Inr m)"

definition on_liveliness_changed ::
  "('g::linorder, 'd, 'q, 'w) dds \<Rightarrow> 'd \<Rightarrow> int32 \<Rightarrow> int32
    \<Rightarrow> ('g, 'd, 'q, 'l) Manager \<Rightarrow> ('g, 'd, 'q, 'l) Manager" where
  "on_liveliness_changed D sub alive not_alive m =
     m\<lparr>state := UpdateSubLiveliness (participant_guid_of D) (dds_guid D sub) alive not_alive (state m)\<rparr>"

section \<open>Snapshots of the manager\<close>

definition getTime :: "('g, 'd, 'q, 'l) Manager \<Rightarrow> time_point" where
  "getTime m = snapshot_time (state m)"

definition manager_takeSnapshot ::
  "time_point \<Rightarrow> string \<Rightarrow> bool \<Rightarrow> bool \<Rightarrow> ('g::linorder, 'd, 'q, 'l) Manager
    \<Rightarrow> ('g, 'd, 'q, 'l) Manager" where
  "manager_takeSnapshot tp desc someone liveliness m =
     m\<lparr>snapshots := takeSnapshot (servers m) (clients m) (simples m) (last_PDP m) (last_EDP m)
        tp desc someone liveliness (state m) (snapshots m)\<rparr>"

definition manager_allKnowEachOther :: "('g::linorder, 'd, 'q, 'l) Manager \<Rightarrow> bool" where
  "manager_allKnowEachOther m = allKnowEachOther (state m)"

end
