(* ===== verification/Late_Joiner.thy ===== *)
theory Late_Joiner
  imports Manager
begin

text \<open>
  Late joiner events: what each \<open>operator ()\<close> of the \<open>LateJoinerData\<close> hierarchy does to the manager
  and to Fast DDS, the links between events, and \<open>DiscoveryServerManager::runEvents\<close>.
\<close>

section \<open>The platform\<close>

text \<open>
  The clock, the environment and files. \<open>pause\<close> names what \<open>runEvents\<close> waits for; during a pause the
  other threads run, whose effect is the parameter \<open>waiting\<close> of \<open>runEvents\<close>.
\<close>

record 'w platform =
  steady_now :: "'w \<Rightarrow> time_point"
  getenv :: "string \<Rightarrow> 'w \<Rightarrow> string option"
  write_file :: "string \<Rightarrow> string \<Rightarrow> 'w \<Rightarrow> 'w"

datatype pause = Sleep_Until time_point | Last_Snapshot_Delay | Press_Any_Key

section \<open>Links between events\<close>

text \<open>
  \<open>DelayedParticipantDestruction::SetGuid\<close> and \<open>DelayedEndpointDestruction::SetGuid\<close>, through a
  nullable pointer.
\<close>

definition participant_destruction_SetGuid ::
  "('g, 'd, 'q, 'w) dds \<Rightarrow> address option \<Rightarrow> 'g \<Rightarrow> ('g, 'd, 'q, 'l) Manager \<Rightarrow> ('g, 'd, 'q, 'l) Manager" where
  "participant_destruction_SetGuid D p guid m =
     (case p of
        None \<Rightarrow> m
      | Some a \<Rightarrow>
          (case event_store m a of
             Some e \<Rightarrow>
               (case event_action e of
                  DelayedParticipantDestruction participant_id \<Rightarrow>
                    if guid \<noteq> guid_unknown D
                    then m\<lparr>event_store := (event_store m)(a \<mapsto>
                           e\<lparr>event_action := DelayedParticipantDestruction guid\<rparr>)\<rparr>
                    else m
                | _ \<Rightarrow> m)
           | None \<Rightarrow> m))"

definition endpoint_destruction_SetGuid ::
  "('g, 'd, 'q, 'w) dds \<Rightarrow> address option \<Rightarrow> 'g \<Rightarrow> ('g, 'd, 'q, 'l) Manager \<Rightarrow> ('g, 'd, 'q, 'l) Manager" where
  "endpoint_destruction_SetGuid D p guid m =
     (case p of
        None \<Rightarrow> m
      | Some a \<Rightarrow>
          (case event_store m a of
             Some e \<Rightarrow>
               (case event_action e of
                  DelayedEndpointDestruction kind eguid \<Rightarrow>
                    if eguid = guid_unknown D
                    then m\<lparr>event_store := (event_store m)(a \<mapsto>
                           e\<lparr>event_action := DelayedEndpointDestruction kind guid\<rparr>)\<rparr>
                    else m
                | _ \<Rightarrow> m)
           | None \<Rightarrow> m))"

text \<open>The member \<open>participant_guid\<close> of a \<open>DelayedParticipantCreation\<close>.\<close>

definition creation_guid :: "address \<Rightarrow> ('g, 'd, 'q, 'l) Manager \<Rightarrow> 'g option" where
  "creation_guid a m =
     (case event_store m a of
        Some e \<Rightarrow>
          (case event_action e of DelayedParticipantCreation q r d guid \<Rightarrow> Some guid | _ \<Rightarrow> None)
      | None \<Rightarrow> None)"

section \<open>Participants\<close>

definition add_role ::
  "role \<Rightarrow> ('g::linorder, 'd, 'q, 'w) dds \<Rightarrow> bool \<Rightarrow> 'd \<Rightarrow> ('g, 'd, 'q, 'l) Manager
    \<Rightarrow> ('g, 'd, 'q, 'l) Manager run" where
  "add_role r =
     (case r of Server_Role \<Rightarrow> addServer | Client_Role \<Rightarrow> addClient | Simple_Role \<Rightarrow> addSimple)"

text \<open>
  \<open>DelayedParticipantCreation::operator ()\<close>. The publisher and the subscriber are created through the
  pointer \<open>create_participant\<close> returned, before it is checked. The result is the new value of the member
  \<open>participant_guid\<close>; the members of \<open>info\<close> that are not set are never read.
\<close>

definition participant_creation ::
  "('g::linorder, 'd, 'q, 'w) dds \<Rightarrow> bool \<Rightarrow> 'q \<Rightarrow> role \<Rightarrow> address option
    \<Rightarrow> ('g, 'd, 'q, 'l) Manager \<times> 'w \<Rightarrow> ('g \<times> ('g, 'd, 'q, 'l) Manager \<times> 'w) run" where
  "participant_creation D dbg qos role removal_event mw =
     (let (m, w) = mw;
          (p, w) = create_participant D qos w
      in case p of
           None \<Rightarrow> Inl Null_Dereference
         | Some p \<Rightarrow>
             let (publisher, w) = create_publisher D p w;
                 (subscriber, w) = create_subscriber D p w;
                 info = blank_info\<lparr>info_participant := Some p, info_publisher := publisher,
                          info_subscriber := subscriber\<rparr>
             in bind_run (add_role role D dbg p m) (\<lambda>m.
                let participant_guid = dds_guid D p;
                    m = participant_destruction_SetGuid D removal_event participant_guid m;
                    m = setParticipantInfo participant_guid info m
                in Inr (participant_guid, m, w)))"

definition participant_destruction ::
  "('g::linorder, 'd, 'q, 'w) dds \<Rightarrow> 'g \<Rightarrow> ('g, 'd, 'q, 'l) Manager \<times> 'w
    \<Rightarrow> ('g, 'd, 'q, 'l) Manager \<times> 'w" where
  "participant_destruction D participant_id mw =
     (let (m, w) = mw;
          (p, m) = removeParticipant D participant_id m
      in case p of
           Some p \<Rightarrow> let (ret, mw) = deleteParticipant D (Some p) (m, w) in mw
         | None \<Rightarrow> (m, w))"

section \<open>Endpoints\<close>

definition createEndpoint ::
  "endpoint_kind \<Rightarrow> ('g, 'd, 'q, 'w) dds \<Rightarrow> 'd option \<Rightarrow> 'd option \<Rightarrow> string \<Rightarrow> 'w
    \<Rightarrow> ('d option \<times> 'w) run" where
  "createEndpoint kind D pubsub topic profile_name w =
     (case pubsub of
        None \<Rightarrow> Inl Null_Dereference
      | Some ps \<Rightarrow>
          (case kind of
             Writer_Kind \<Rightarrow>
               if profile_name = [] then Inr (create_datawriter D ps topic w)
               else Inr (create_datawriter_with_profile D ps topic profile_name w)
           | Reader_Kind \<Rightarrow>
               if profile_name = [] then Inr (create_datareader D ps topic w)
               else Inr (create_datareader_with_profile D ps topic profile_name w)))"

definition add_endpoint ::
  "endpoint_kind \<Rightarrow> ('g::linorder, 'd, 'q, 'w) dds \<Rightarrow> bool \<Rightarrow> 'd option \<Rightarrow> ('g, 'd, 'q, 'l) Manager
    \<Rightarrow> ('g, 'd, 'q, 'l) Manager run" where
  "add_endpoint kind = (case kind of Writer_Kind \<Rightarrow> addDataWriter | Reader_Kind \<Rightarrow> addDataReader)"

definition retrieve_endpoint ::
  "endpoint_kind \<Rightarrow> 'g::linorder \<Rightarrow> ('g, 'd, 'q, 'l) Manager \<Rightarrow> 'd option \<times> ('g, 'd, 'q, 'l) Manager" where
  "retrieve_endpoint kind = (case kind of Writer_Kind \<Rightarrow> removePublisher | Reader_Kind \<Rightarrow> removeSubscriber)"

definition remove_endpoint ::
  "endpoint_kind \<Rightarrow> ('g::linorder, 'd, 'q, 'w) dds \<Rightarrow> 'd option \<Rightarrow> ('g, 'd, 'q, 'l) Manager \<times> 'w
    \<Rightarrow> ReturnCode \<times> ('g, 'd, 'q, 'l) Manager \<times> 'w" where
  "remove_endpoint kind = (case kind of Writer_Kind \<Rightarrow> deleteDataWriter | Reader_Kind \<Rightarrow> deleteDataReader)"

text \<open>The topic of the new endpoint: one the participant already has, or a new one that is registered.\<close>

definition endpoint_topic ::
  "('g::linorder, 'd, 'q, 'w) dds \<Rightarrow> 'd \<Rightarrow> string \<Rightarrow> string \<Rightarrow> string
    \<Rightarrow> ('g, 'd, 'q, 'l) Manager \<times> 'w \<Rightarrow> 'd option \<times> ('g, 'd, 'q, 'l) Manager \<times> 'w" where
  "endpoint_topic D part topicname typename topic_profile_name mw =
     (let (m, w) = mw;
          name = (if typename = ''UNDEF'' then topic_item_name default_topic_description else topicname);
          (topic, m) = getParticipantTopicByName D (Some part) name m
      in case topic of
           Some t \<Rightarrow> (Some t, m, w)
         | None \<Rightarrow>
             let (topic, w) =
                   (if typename = ''UNDEF''
                    then create_topic D part (topic_item_name default_topic_description)
                           (topic_item_type default_topic_description) w
                    else create_topic_with_profile D part topicname typename topic_profile_name w)
             in (topic, setParticipantTopic D (Some part) topic m, w))"

definition endpoint_creation ::
  "('g::linorder, 'd, 'q, 'w) dds \<Rightarrow> bool \<Rightarrow> endpoint_kind \<Rightarrow> string \<Rightarrow> string \<Rightarrow> string \<Rightarrow> string
    \<Rightarrow> 'g \<Rightarrow> address option \<Rightarrow> address option \<Rightarrow> ('g, 'd, 'q, 'l) Manager \<times> 'w
    \<Rightarrow> (('g, 'd, 'q, 'l) Manager \<times> 'w) run" where
  "endpoint_creation D dbg kind topicname typename topic_profile_name endpoint_profile_name
     participant_guid linked_destruction_event owner_event mw =
     (let (m, w) = mw;
          part = getParticipant participant_guid m;
          (pubsub, m) = getPubSubEntityFromParticipantGuid kind participant_guid m;
          part = (case part of
                    Some p \<Rightarrow> Some p
                  | None \<Rightarrow>
                      (case owner_event of
                         None \<Rightarrow> None
                       | Some a \<Rightarrow>
                           (case creation_guid a m of
                              None \<Rightarrow> None
                            | Some g \<Rightarrow> getParticipant g m)))
      in case part of
           None \<Rightarrow> Inr (m, w)
         | Some part \<Rightarrow>
             let w = register_type D part w;
                 (topic, m, w) = endpoint_topic D part topicname typename topic_profile_name (m, w)
             in bind_run (createEndpoint kind D pubsub topic endpoint_profile_name w) (\<lambda>(endpoint, w).
                let m = setDomainEntityTopic kind D endpoint topic m
                in case endpoint of
                     None \<Rightarrow> Inr (m, w)
                   | Some e \<Rightarrow>
                       let m = endpoint_destruction_SetGuid D linked_destruction_event (dds_guid D e) m
                       in bind_run (add_endpoint kind D dbg (Some e) m) (\<lambda>m. Inr (m, w))))"

definition endpoint_destruction ::
  "('g::linorder, 'd, 'q, 'w) dds \<Rightarrow> endpoint_kind \<Rightarrow> 'g \<Rightarrow> ('g, 'd, 'q, 'l) Manager \<times> 'w
    \<Rightarrow> ('g, 'd, 'q, 'l) Manager \<times> 'w" where
  "endpoint_destruction D kind eguid mw =
     (let (m, w) = mw;
          (endpoint, m) = retrieve_endpoint kind eguid m
      in case endpoint of
           None \<Rightarrow> (m, w)
         | Some e \<Rightarrow> let (ret, mw) = remove_endpoint kind D (Some e) (m, w) in mw)"

section \<open>Snapshots and the environment file\<close>

definition snapshot_event ::
  "'w platform \<Rightarrow> string \<Rightarrow> bool \<Rightarrow> bool \<Rightarrow> ('g::linorder, 'd, 'q, 'l) Manager \<times> 'w
    \<Rightarrow> ('g, 'd, 'q, 'l) Manager \<times> 'w" where
  "snapshot_event P desc someone liveliness mw =
     (manager_takeSnapshot (steady_now P (snd mw)) desc someone liveliness (fst mw), snd mw)"

definition environment_modification ::
  "'w platform \<Rightarrow> string \<Rightarrow> string \<Rightarrow> ('g, 'd, 'q, 'l) Manager \<times> 'w \<Rightarrow> ('g, 'd, 'q, 'l) Manager \<times> 'w" where
  "environment_modification P key val mw =
     (case getenv P ''FASTDDS_ENVIRONMENT_FILE'' (snd mw) of
        Some path \<Rightarrow>
          (fst mw, write_file P path
             (''{'' @ [CHR 0x0A, CHR 0x09, CHR 0x22] @ key @ [CHR 0x22] @ '' :'' @ [CHR 0x22] @ val
                @ [CHR 0x22, CHR 0x0A] @ ''}'' @ [CHR 0x0A]) (snd mw))
      | None \<Rightarrow> mw)"

section \<open>Running the events\<close>

text \<open>
  The virtual call \<open>(*p)(*this)\<close>. A creation stores the GUID of its participant in the event itself.
  The pointers of the vector always point to live objects.
\<close>

definition execute_event ::
  "('g::linorder, 'd, 'q, 'w) dds \<Rightarrow> 'w platform \<Rightarrow> bool \<Rightarrow> address
    \<Rightarrow> ('g, 'd, 'q, 'l) Manager \<times> 'w \<Rightarrow> (('g, 'd, 'q, 'l) Manager \<times> 'w) run" where
  "execute_event D P dbg a mw =
     (case event_store (fst mw) a of
        None \<Rightarrow> Inl Null_Dereference
      | Some e \<Rightarrow>
          (case event_action e of
             DelayedParticipantCreation qos role removal participant_guid \<Rightarrow>
               bind_run (participant_creation D dbg qos role removal mw) (\<lambda>(guid, m, w).
                 Inr (m\<lparr>event_store := (event_store m)(a \<mapsto>
                          e\<lparr>event_action := DelayedParticipantCreation qos role removal guid\<rparr>)\<rparr>, w))
           | DelayedParticipantDestruction participant_id \<Rightarrow>
               Inr (participant_destruction D participant_id mw)
           | DelayedEndpointCreation kind topic type topic_profile profile guid destruction owner \<Rightarrow>
               endpoint_creation D dbg kind topic type topic_profile profile guid destruction owner mw
           | DelayedEndpointDestruction kind guid \<Rightarrow> Inr (endpoint_destruction D kind guid mw)
           | DelayedSnapshot desc someone liveliness \<Rightarrow> Inr (snapshot_event P desc someone liveliness mw)
           | DelayedEnvironmentModification key val \<Rightarrow> Inr (environment_modification P key val mw)))"

definition stored_event_time :: "(address \<rightharpoonup> ('g, 'q) LateJoinerData) \<Rightarrow> address \<Rightarrow> time_point" where
  "stored_event_time store a = (case store a of Some e \<Rightarrow> event_time e | None \<Rightarrow> 0)"

text \<open>
  \<open>std::sort\<close> is a parameter: it promises an ordered permutation and nothing about equal times.
\<close>

definition runEvents ::
  "((address \<Rightarrow> address \<Rightarrow> bool) \<Rightarrow> address list \<Rightarrow> address list)
    \<Rightarrow> (pause \<Rightarrow> ('g, 'd, 'q, 'l) Manager \<times> 'w \<Rightarrow> ('g, 'd, 'q, 'l) Manager \<times> 'w)
    \<Rightarrow> ('g::linorder, 'd, 'q, 'w) dds \<Rightarrow> 'w platform \<Rightarrow> bool
    \<Rightarrow> ('g, 'd, 'q, 'l) Manager \<times> 'w \<Rightarrow> (('g, 'd, 'q, 'l) Manager \<times> 'w) run" where
  "runEvents std_sort waiting D P dbg mw =
     (let (m, w) = mw;
          time = stored_event_time (event_store m);
          order = std_sort (\<lambda>p1 p2. time p1 < time p2) (events m);
          m = m\<lparr>events := order\<rparr>
      in bind_run
           (fold_run (\<lambda>p mw. execute_event D P dbg p (waiting (Sleep_Until (time p)) mw)) order (m, w))
           (\<lambda>mw.
             let mw = (if snapshots_output_file (fst mw) \<noteq> [] then waiting Last_Snapshot_Delay mw else mw);
                 mw = (if \<not> auto_shutdown (fst mw) then waiting Press_Any_Key mw else mw)
             in Inr mw))"

end
