(* ===== verification/Manager_Facts.thy ===== *)
theory Manager_Facts
  imports Manager Discovery_Contract
begin

text \<open>
  What the methods of \<open>DiscoveryServerManager\<close> guarantee: the registries as maps, the effect of the
  callbacks on the database, the invariant of every reachable manager, and what a validated snapshot
  of such a manager means.
\<close>

section \<open>The invariant\<close>

definition manager_ok :: "('g::linorder, 'd, 'q, 'l) Manager \<Rightarrow> bool" where
  "manager_ok m \<longleftrightarrow> map_ok (servers m) \<and> map_ok (clients m) \<and> map_ok (simples m)
     \<and> map_ok (entity_map m) \<and> map_ok (data_readers m) \<and> map_ok (data_writers m)
     \<and> db_inv (state m) \<and> (\<forall>s\<in>set (snapshots m). image_ok s)"

lemma manager_okD:
  assumes "manager_ok m"
  shows "map_ok (servers m)" "map_ok (clients m)" "map_ok (simples m)" "map_ok (entity_map m)"
    "map_ok (data_readers m)" "map_ok (data_writers m)" "db_inv (state m)"
    "\<forall>s\<in>set (snapshots m). image_ok s" "image_ok (state m)"
  using assms by (simp_all add: manager_ok_def db_inv_def)

lemma find_map_find: "map_option snd (List.find (\<lambda>x. fst x = g) xs) = map_find g xs"
  by (simp add: map_find_def std_find_def)

text \<open>The participant a GUID stands for.\<close>

definition first_registered :: "'g::linorder \<Rightarrow> ('g, 'd, 'q, 'l) Manager \<Rightarrow> 'd option" where
  "first_registered g m =
     (case map_find g (clients m) of
        Some p \<Rightarrow> Some p
      | None \<Rightarrow> (case map_find g (servers m) of Some p \<Rightarrow> Some p | None \<Rightarrow> map_find g (simples m)))"

lemma getParticipant_eq:
  "getParticipant g m =
     (case map_find g (entity_map m) of
        Some info \<Rightarrow> info_participant info
      | None \<Rightarrow> first_registered g m)"
  unfolding getParticipant_def first_registered_def find_map_find [symmetric]
  by (auto split: option.splits)

lemma entity_index_eq:
  "map_ok (entity_map m) \<Longrightarrow> entity_index g m =
     (case map_find g (entity_map m) of None \<Rightarrow> blank_info | Some i \<Rightarrow> i,
      m\<lparr>entity_map := std_put fst (g, blank_info) (entity_map m)\<rparr>)"
  by (simp add: entity_index_def map_index_eq)

lemma entity_assign_eq:
  assumes ok: "map_ok (entity_map m)"
  obtains em where "entity_assign g f m = m\<lparr>entity_map := em\<rparr>" "map_ok em"
    "\<And>h. map_find h em = (if h = g
       then Some (f (case map_find g (entity_map m) of None \<Rightarrow> blank_info | Some i \<Rightarrow> i))
       else map_find h (entity_map m))"
proof
  let ?i = "case map_find g (entity_map m) of None \<Rightarrow> blank_info | Some i \<Rightarrow> i"
  let ?em = "map_assign g (f ?i) (std_put fst (g, blank_info) (entity_map m))"
  have put: "map_ok (std_put fst (g, blank_info) (entity_map m))" by (rule std_ok_put [OF ok])
  show "entity_assign g f m = m\<lparr>entity_map := ?em\<rparr>" by (simp add: entity_assign_def entity_index_eq ok)
  show "map_ok ?em" by (rule map_ok_assign [OF put])
  show "map_find h ?em = (if h = g then Some (f ?i) else map_find h (entity_map m))" for h
    by (simp add: map_find_assign [OF put] map_find_put [OF ok])
qed

section \<open>Every method keeps the invariant\<close>

lemma ok_add [ok_intros]:
  "addServer D dbg p m = Inr m' \<Longrightarrow> manager_ok m \<Longrightarrow> manager_ok m'"
  "addClient D dbg p m = Inr m' \<Longrightarrow> manager_ok m \<Longrightarrow> manager_ok m'"
  "addSimple D dbg p m = Inr m' \<Longrightarrow> manager_ok m \<Longrightarrow> manager_ok m'"
  "addDataReader D dbg d m = Inr m' \<Longrightarrow> manager_ok m \<Longrightarrow> manager_ok m'"
  "addDataWriter D dbg d m = Inr m' \<Longrightarrow> manager_ok m \<Longrightarrow> manager_ok m'"
  by (auto simp: addServer_def addClient_def addSimple_def addDataReader_def addDataWriter_def
      manager_ok_def map_ok_assign split: option.splits)

lemma db_inv_RemoveSpokesman: "db_inv img \<Longrightarrow> db_inv (snd (RemoveSpokesman s img))"
  using db_inv_step [OF db_step.remove_spokesman [of s img "fst (RemoveSpokesman s img)"]] by simp

lemma ok_removeParticipant [ok_intros]: "manager_ok m \<Longrightarrow> manager_ok (snd (removeParticipant D g m))"
  using db_inv_RemoveSpokesman [of "state m" g]
  by (auto simp: removeParticipant_def Let_def manager_ok_def map_ok_filter map_ok_erase
      split: prod.split option.split)

lemma ok_removeEndpoint [ok_intros]:
  "manager_ok m \<Longrightarrow> manager_ok (snd (removeSubscriber g m))"
  "manager_ok m \<Longrightarrow> manager_ok (snd (removePublisher g m))"
  by (auto simp: removeSubscriber_def removePublisher_def manager_ok_def map_ok_erase split: option.split)

lemma ok_entity_index [ok_intros]: "manager_ok m \<Longrightarrow> manager_ok (snd (entity_index g m))"
  by (simp add: entity_index_eq manager_ok_def std_ok_put)

lemma ok_entity_assign [ok_intros]: "manager_ok m \<Longrightarrow> manager_ok (entity_assign g f m)"
  by (rule entity_assign_eq [of m g f]) (auto simp: manager_ok_def)

lemma ok_setters [ok_intros]:
  assumes "manager_ok m"
  shows "manager_ok (setDomainEntityTopic k D d t m)"
    and "manager_ok (setDomainEntityType k D d t m)"
    and "manager_ok (setParticipantInfo g info m)"
    and "manager_ok (setParticipantTopic D d t m)"
    and "manager_ok (snd (getPubSubEntityFromParticipantGuid k g m))"
    and "manager_ok (snd (getParticipantTopicByName D d name m))"
  using assms ok_entity_index [OF assms]
  by (auto simp: setDomainEntityTopic_def setDomainEntityType_def setParticipantInfo_def
      setParticipantTopic_def getPubSubEntityFromParticipantGuid_def getParticipantTopicByName_def
      Let_def split_beta intro: ok_entity_assign split: option.split)

lemma ok_deletes [ok_intros]:
  assumes "manager_ok m"
  shows "manager_ok (fst (snd (deleteDataReader D d (m, w))))"
    and "manager_ok (fst (snd (deleteDataWriter D d (m, w))))"
    and "manager_ok (fst (snd (deleteParticipant D d (m, w))))"
proof -
  note index = ok_entity_index [OF assms]
  show "manager_ok (fst (snd (deleteDataReader D d (m, w))))"
    using assms index by (auto simp: deleteDataReader_def Let_def split_beta split: option.split)
  show "manager_ok (fst (snd (deleteDataWriter D d (m, w))))"
    using assms index by (auto simp: deleteDataWriter_def Let_def split_beta split: option.split)
  show "manager_ok (fst (snd (deleteParticipant D d (m, w))))"
    using assms by (auto simp: deleteParticipant_def Let_def split_beta manager_ok_def map_ok_erase
        split: option.split)
qed

lemma ok_onTerminate [ok_intros]: "manager_ok m \<Longrightarrow> manager_ok (fst (onTerminate D (m, w)))"
  by (auto simp: onTerminate_def Let_def manager_ok_def)

lemma manager_ok_state: "manager_ok m \<Longrightarrow> db_inv img \<Longrightarrow> manager_ok (m\<lparr>state := img\<rparr>)"
  by (simp add: manager_ok_def)

lemma manager_ok_clocks [simp]:
  "manager_ok (m\<lparr>last_PDP := t\<rparr>) = manager_ok m" "manager_ok (m\<lparr>last_EDP := t\<rparr>) = manager_ok m"
  by (simp_all add: manager_ok_def)

text \<open>
  A callback is a guard and then one step of the database.
\<close>

lemma on_participant_discovery_cases:
  assumes "on_participant_discovery D dbg t now p status info m = Inr m'"
  obtains "m' = m" "getParticipant (dds_guid D p) m = None"
  | "getParticipant (dds_guid D p) m \<noteq> None" "m' = m\<lparr>last_PDP := t\<rparr>"
    "status \<notin> {DISCOVERED_PARTICIPANT, REMOVED_PARTICIPANT, DROPPED_PARTICIPANT}"
  | b img where "getParticipant (dds_guid D p) m \<noteq> None" "status = DISCOVERED_PARTICIPANT"
    "AddParticipant dbg now (dds_guid D p) (dds_name D p) (pdata_guid info) (pdata_name info) t
       (\<not> no_callbacks m \<and> map_find (pdata_guid info) (servers m) \<noteq> None) (state m) = Inr (b, img)"
    "m' = m\<lparr>last_PDP := t, state := img\<rparr>"
  | "getParticipant (dds_guid D p) m \<noteq> None" "status \<in> {REMOVED_PARTICIPANT, DROPPED_PARTICIPANT}"
    "m' = m\<lparr>last_PDP := t, state := snd (RemoveParticipant (dds_guid D p) (pdata_guid info) (state m))\<rparr>"
proof (cases "getParticipant (dds_guid D p) m = None")
  case True
  with assms that(1) show thesis by (simp add: on_participant_discovery_def)
next
  case False
  with assms that(2-) show thesis
    by (cases status) (auto simp: on_participant_discovery_def Let_def bind_run_Inr_iff split: if_splits)
qed

lemma on_data_reader_discovery_cases:
  assumes "on_data_reader_discovery D dbg t now p reason info m = Inr m'"
  obtains "m' = m" "getParticipant (dds_guid D p) m = None"
  | "getParticipant (dds_guid D p) m \<noteq> None" "m' = m\<lparr>last_EDP := t\<rparr>"
    "reason \<notin> {DISCOVERED_READER, REMOVED_READER}"
  | b img where "getParticipant (dds_guid D p) m \<noteq> None" "reason = DISCOVERED_READER"
    "AddDataReader dbg now (dds_guid D p) (dds_name D p) (edata_participant_guid info) (edata_guid info)
       (edata_type_name info) (edata_topic_name info) t (state m) = Inr (b, img)"
    "m' = m\<lparr>last_EDP := t, state := img\<rparr>"
  | "getParticipant (dds_guid D p) m \<noteq> None" "reason = REMOVED_READER"
    "m' = m\<lparr>last_EDP := t, state :=
       snd (RemoveDataReader (dds_guid D p) (edata_participant_guid info) (edata_guid info) (state m))\<rparr>"
proof (cases "getParticipant (dds_guid D p) m = None")
  case True
  with assms that(1) show thesis by (simp add: on_data_reader_discovery_def)
next
  case False
  with assms that(2-) show thesis
    by (cases reason) (auto simp: on_data_reader_discovery_def Let_def bind_run_Inr_iff)
qed

lemma on_data_writer_discovery_cases:
  assumes "on_data_writer_discovery D dbg t now p reason info m = Inr m'"
  obtains "m' = m" "getParticipant (dds_guid D p) m = None"
  | "getParticipant (dds_guid D p) m \<noteq> None" "m' = m\<lparr>last_EDP := t\<rparr>"
    "reason \<notin> {DISCOVERED_WRITER, REMOVED_WRITER}"
  | b img where "getParticipant (dds_guid D p) m \<noteq> None" "reason = DISCOVERED_WRITER"
    "AddDataWriter dbg now (dds_guid D p) (dds_name D p) (edata_participant_guid info) (edata_guid info)
       (edata_type_name info) (edata_topic_name info) t (state m) = Inr (b, img)"
    "m' = m\<lparr>last_EDP := t, state := img\<rparr>"
  | "getParticipant (dds_guid D p) m \<noteq> None" "reason = REMOVED_WRITER"
    "m' = m\<lparr>last_EDP := t, state :=
       snd (RemoveDataWriter (dds_guid D p) (edata_participant_guid info) (edata_guid info) (state m))\<rparr>"
proof (cases "getParticipant (dds_guid D p) m = None")
  case True
  with assms that(1) show thesis by (simp add: on_data_writer_discovery_def)
next
  case False
  with assms that(2-) show thesis
    by (cases reason) (auto simp: on_data_writer_discovery_def Let_def bind_run_Inr_iff)
qed

lemma db_inv_removes:
  assumes "db_inv img"
  shows "db_inv (snd (RemoveParticipant s p img))"
    and "db_inv (snd (RemoveDataReader s p e img))"
    and "db_inv (snd (RemoveDataWriter s p e img))"
proof -
  note step = db_inv_step [OF _ assms]
  show "db_inv (snd (RemoveParticipant s p img))"
    using step [OF db_step.remove_participant [of s p img "fst (RemoveParticipant s p img)"]] by simp
  show "db_inv (snd (RemoveDataReader s p e img))"
    using step [OF db_step.remove_reader [of s p e img "fst (RemoveDataReader s p e img)"]] by simp
  show "db_inv (snd (RemoveDataWriter s p e img))"
    using step [OF db_step.remove_writer [of s p e img "fst (RemoveDataWriter s p e img)"]] by simp
qed

lemma db_inv_adds:
  assumes "db_inv img"
  shows "AddParticipant dbg now s n p nm ts sv img = Inr (b, img') \<Longrightarrow> db_inv img'"
    and "AddDataReader dbg now s n p e ty tp ts img = Inr (b, img') \<Longrightarrow> db_inv img'"
    and "AddDataWriter dbg now s n p e ty tp ts img = Inr (b, img') \<Longrightarrow> db_inv img'"
  by (blast intro: db_inv_step [OF _ assms] db_step.intros)+

lemma ok_callbacks [ok_intros]:
  assumes ok: "manager_ok m"
  shows "on_participant_discovery D dbg t now p status pinfo m = Inr m' \<Longrightarrow> manager_ok m'"
    and "on_data_reader_discovery D dbg t now p rreason einfo m = Inr m' \<Longrightarrow> manager_ok m'"
    and "on_data_writer_discovery D dbg t now p wreason einfo m = Inr m' \<Longrightarrow> manager_ok m'"
    and "manager_ok (on_liveliness_changed D sub a n m)"
proof -
  have inv: "db_inv (state m)" using ok by (rule manager_okD)
  note facts = ok db_inv_removes [OF inv] db_inv_adds [OF inv]
  show "on_participant_discovery D dbg t now p status pinfo m = Inr m' \<Longrightarrow> manager_ok m'"
    by (erule on_participant_discovery_cases) (use facts in \<open>auto intro: manager_ok_state\<close>)
  show "on_data_reader_discovery D dbg t now p rreason einfo m = Inr m' \<Longrightarrow> manager_ok m'"
    by (erule on_data_reader_discovery_cases) (use facts in \<open>auto intro: manager_ok_state\<close>)
  show "on_data_writer_discovery D dbg t now p wreason einfo m = Inr m' \<Longrightarrow> manager_ok m'"
    by (erule on_data_writer_discovery_cases) (use facts in \<open>auto intro: manager_ok_state\<close>)
  show "manager_ok (on_liveliness_changed D sub a n m)"
    unfolding on_liveliness_changed_def
    by (intro manager_ok_state db_inv_UpdateSubLiveliness ok inv)
qed


section \<open>Snapshots of the manager\<close>

lemma insert_databases_ok:
  "\<forall>d\<in>set dbs. participants_ok (participants d) \<Longrightarrow>
   \<forall>d\<in>set xs. participants_ok (participants d) \<Longrightarrow>
   \<forall>d\<in>set (std_insert_range endpoint_guid xs dbs). participants_ok (participants d)"
  unfolding std_insert_range_def
proof (induction xs arbitrary: dbs)
  case (Cons x xs)
  have "\<forall>d\<in>set (std_put endpoint_guid x dbs). participants_ok (participants d)"
    using Cons.prems set_std_put [of endpoint_guid x dbs] by auto
  with Cons show ?case by simp
qed simp

lemma takeSnapshot_ok:
  assumes ok: "image_ok img"
  shows "\<exists>shot. takeSnapshot sv cl si pdp edp tp desc sm lv img ss = ss @ [shot] \<and> image_ok shot"
proof -
  let ?temp = "std_insert_range fst si (std_insert_range fst cl sv)"
  let ?dbs = "std_insert_range endpoint_guid (isolated ?temp) (databases img)"
  have dbs: "fill_missing (drop (std_mismatch same_guid ?temp (databases img)) ?temp) (databases img) = ?dbs"
    using ok insert_matched [of "databases img" ?temp 0] by (auto simp: fill_missing_insert image_ok_def)
  have "\<forall>d\<in>set ?dbs. participants_ok (participants d)"
    using ok by (intro insert_databases_ok) (auto simp: image_ok_def item_defs)
  then show ?thesis
    using ok by (auto simp: takeSnapshot_def Let_def dbs image_ok_def intro: std_ok_insert_range)
qed

lemma ok_takeSnapshot [ok_intros]:
  assumes "manager_ok m"
  shows "manager_ok (manager_takeSnapshot tp desc sm lv m)"
proof -
  obtain shot where "takeSnapshot (servers m) (clients m) (simples m) (last_PDP m) (last_EDP m)
      tp desc sm lv (state m) (snapshots m) = snapshots m @ [shot]" "image_ok shot"
    using takeSnapshot_ok assms by (metis manager_okD(9))
  with assms show ?thesis by (auto simp: manager_takeSnapshot_def manager_ok_def)
qed

section \<open>Reachable managers\<close>

text \<open>
  The members as the constructor initialises them before it reads the configuration;
  \<open>DiscoveryItemDatabase\<close> starts with nothing discovered.
\<close>

definition new_manager :: "time_point \<Rightarrow> 'g Snapshot \<Rightarrow> bool \<Rightarrow> ('g, 'd, 'q, 'l) Manager" where
  "new_manager steady img shm_off =
     \<lparr>servers = [], clients = [], simples = [], entity_map = [], data_readers = [], data_writers = [],
      server_locators = [], state = img, events = [], event_store = Map.empty, snapshots = [],
      topic_description_profiles = Map.empty, no_callbacks = False, auto_shutdown = True,
      enable_prefix_validation = True, correctly_created = False, snapshots_output_file = [],
      validate = False, last_PDP = steady, last_EDP = steady, shared_memory_off = shm_off\<rparr>"

text \<open>
  A step is one method call, made by the main thread or by a callback of Fast DDS; \<open>frame\<close> covers
  what the methods below do not touch (events, configuration).
\<close>

inductive manager_step ::
  "('g::linorder, 'd, 'q, 'w) dds \<Rightarrow> bool \<Rightarrow> ('g, 'd, 'q, 'l) Manager \<Rightarrow> ('g, 'd, 'q, 'l) Manager \<Rightarrow> bool"
  for D dbg where
  add_server: "addServer D dbg p m = Inr m' \<Longrightarrow> manager_step D dbg m m'"
| add_client: "addClient D dbg p m = Inr m' \<Longrightarrow> manager_step D dbg m m'"
| add_simple: "addSimple D dbg p m = Inr m' \<Longrightarrow> manager_step D dbg m m'"
| add_reader: "addDataReader D dbg d m = Inr m' \<Longrightarrow> manager_step D dbg m m'"
| add_writer: "addDataWriter D dbg d m = Inr m' \<Longrightarrow> manager_step D dbg m m'"
| remove_participant: "removeParticipant D g m = (r, m') \<Longrightarrow> manager_step D dbg m m'"
| remove_reader: "removeSubscriber g m = (r, m') \<Longrightarrow> manager_step D dbg m m'"
| remove_writer: "removePublisher g m = (r, m') \<Longrightarrow> manager_step D dbg m m'"
| delete_reader: "deleteDataReader D d (m, w) = (r, m', w') \<Longrightarrow> manager_step D dbg m m'"
| delete_writer: "deleteDataWriter D d (m, w) = (r, m', w') \<Longrightarrow> manager_step D dbg m m'"
| delete_participant: "deleteParticipant D d (m, w) = (r, m', w') \<Longrightarrow> manager_step D dbg m m'"
| set_topic: "manager_step D dbg m (setDomainEntityTopic k D d t m)"
| set_type: "manager_step D dbg m (setDomainEntityType k D d t m)"
| set_info: "manager_step D dbg m (setParticipantInfo g info m)"
| register_topic: "manager_step D dbg m (setParticipantTopic D d t m)"
| get_entity: "getPubSubEntityFromParticipantGuid k g m = (r, m') \<Longrightarrow> manager_step D dbg m m'"
| get_topic: "getParticipantTopicByName D d name m = (r, m') \<Longrightarrow> manager_step D dbg m m'"
| participant_discovery:
    "on_participant_discovery D dbg t now p status pinfo m = Inr m' \<Longrightarrow> manager_step D dbg m m'"
| reader_discovery:
    "on_data_reader_discovery D dbg t now p rreason einfo m = Inr m' \<Longrightarrow> manager_step D dbg m m'"
| writer_discovery:
    "on_data_writer_discovery D dbg t now p wreason einfo m = Inr m' \<Longrightarrow> manager_step D dbg m m'"
| liveliness: "manager_step D dbg m (on_liveliness_changed D sub a n m)"
| snapshot: "manager_step D dbg m (manager_takeSnapshot tp desc sm lv m)"
| terminate: "onTerminate D (m, w) = (m', w') \<Longrightarrow> manager_step D dbg m m'"
| frame: "servers m' = servers m \<Longrightarrow> clients m' = clients m \<Longrightarrow> simples m' = simples m \<Longrightarrow>
    entity_map m' = entity_map m \<Longrightarrow> data_readers m' = data_readers m \<Longrightarrow>
    data_writers m' = data_writers m \<Longrightarrow> state m' = state m \<Longrightarrow> snapshots m' = snapshots m \<Longrightarrow>
    manager_step D dbg m m'"

inductive manager_reachable ::
  "('g::linorder, 'd, 'q, 'w) dds \<Rightarrow> bool \<Rightarrow> ('g, 'd, 'q, 'l) Manager \<Rightarrow> bool" for D dbg where
  start: "manager_reachable D dbg (new_manager steady (new_image t0 t1 t2) shm)"
| step: "manager_reachable D dbg m \<Longrightarrow> manager_step D dbg m m' \<Longrightarrow> manager_reachable D dbg m'"

lemma manager_step_ok: "manager_step D dbg m m' \<Longrightarrow> manager_ok m \<Longrightarrow> manager_ok m'"
proof (induction rule: manager_step.induct)
  case (remove_participant g m r m')
  then show ?case using ok_removeParticipant [of m D g] by simp
next
  case (remove_reader g m r m')
  then show ?case using ok_removeEndpoint(1) [of m g] by simp
next
  case (remove_writer g m r m')
  then show ?case using ok_removeEndpoint(2) [of m g] by simp
next
  case (delete_reader d m w r m' w')
  then show ?case using ok_deletes(1) [of m D d w] by simp
next
  case (delete_writer d m w r m' w')
  then show ?case using ok_deletes(2) [of m D d w] by simp
next
  case (delete_participant d m w r m' w')
  then show ?case using ok_deletes(3) [of m D d w] by simp
next
  case (get_entity k g m r m')
  then show ?case using ok_setters(5) [of m k g] by simp
next
  case (get_topic d name m r m')
  then show ?case using ok_setters(6) [of m D d name] by simp
next
  case (terminate m w m' w')
  then show ?case using ok_onTerminate [of m D w] by simp
next
  case (frame m' m)
  then show ?case by (simp add: manager_ok_def)
qed (auto intro: ok_intros)

lemma manager_reachable_inv: "manager_reachable D dbg m \<Longrightarrow> manager_ok m"
proof (induction rule: manager_reachable.induct)
  case (start steady t0 t1 t2 shm)
  then show ?case by (simp add: manager_ok_def new_manager_def db_inv_new)
qed (rule manager_step_ok)

end
