(* ===== verification/Manager_Contract.thy ===== *)
theory Manager_Contract
  imports Manager_Facts
begin

text \<open>
  The contract of \<open>DiscoveryServerManager\<close>: which participant a GUID resolves to, what removing a
  participant forgets, what a callback records, the order of the shutdown, and what it means that
  the snapshots of a run pass the validation.
\<close>

section \<open>Registration\<close>

theorem getParticipant_resolves:
  "getParticipant g m =
     (if map_find g (entity_map m) \<noteq> None then info_participant (the (map_find g (entity_map m)))
      else if map_find g (clients m) \<noteq> None then map_find g (clients m)
      else if map_find g (servers m) \<noteq> None then map_find g (servers m)
      else map_find g (simples m))"
  by (auto simp: getParticipant_eq first_registered_def split: option.split)

theorem added_participant_resolves:
  assumes ok: "manager_ok m" and fresh: "map_find (dds_guid D p) (entity_map m) = None"
    "first_registered (dds_guid D p) m = None"
  shows "(\<exists>m'. addServer D dbg p m = Inr m' \<and> getParticipant (dds_guid D p) m' = Some p)
    \<and> (\<exists>m'. addClient D dbg p m = Inr m' \<and> getParticipant (dds_guid D p) m' = Some p)
    \<and> (\<exists>m'. addSimple D dbg p m = Inr m' \<and> getParticipant (dds_guid D p) m' = Some p)"
proof -
  have none: "map_find (dds_guid D p) (clients m) = None" "map_find (dds_guid D p) (servers m) = None"
    "map_find (dds_guid D p) (simples m) = None"
    using fresh(2) by (auto simp: first_registered_def split: option.splits)
  then show ?thesis
    using fresh(1) manager_okD [OF ok]
    by (simp add: addServer_def addClient_def addSimple_def getParticipant_eq first_registered_def
        std_map.find_assign)
qed

theorem add_twice_asserts:
  "addServer D dbg p m = Inl e \<longleftrightarrow>
     dbg \<and> e = Assertion_Failed \<and> map_find (dds_guid D p) (servers m) \<noteq> None"
  "addClient D dbg p m = Inl e \<longleftrightarrow>
     dbg \<and> e = Assertion_Failed \<and> map_find (dds_guid D p) (clients m) \<noteq> None"
  "addSimple D dbg p m = Inl e \<longleftrightarrow>
     dbg \<and> e = Assertion_Failed \<and> map_find (dds_guid D p) (simples m) \<noteq> None"
  by (auto simp: addServer_def addClient_def addSimple_def)

theorem endpoint_registry_roundtrip:
  assumes ok: "manager_ok m" and fresh: "map_find (dds_guid D d) (data_readers m) = None"
  shows "\<exists>m'. addDataReader D dbg (Some d) m = Inr m' \<and> getDataReader (dds_guid D d) m' = Some d
    \<and> fst (removeSubscriber (dds_guid D d) m') = Some d
    \<and> getDataReader h (snd (removeSubscriber (dds_guid D d) m')) = getDataReader h m
    \<and> removeSubscriber (dds_guid D d) (snd (removeSubscriber (dds_guid D d) m')) =
        (None, snd (removeSubscriber (dds_guid D d) m'))"
  using fresh manager_okD(5) [OF ok]
  by (auto simp: addDataReader_def getDataReader_def removeSubscriber_def std_map.find_assign
      std_map.find_erase std_map.ok_assign)

section \<open>Removal\<close>

lemma removeParticipant_forgets_aux:
  assumes ok: "manager_ok m" and run: "removeParticipant D g m = (r, m')"
  shows "r = first_registered g m
    \<and> view (state m') = spec_forget g (view (state m))
    \<and> lookup_item (databases (state m')) g = None
    \<and> (\<forall>h. getDataReader h m' = (if same_guid_prefix D g h then None else getDataReader h m))
    \<and> (\<forall>h. getDataWriter h m' = (if same_guid_prefix D g h then None else getDataWriter h m))
    \<and> entity_map m' = entity_map m"
proof -
  note okD = manager_okD [OF ok]
  let ?m = "m\<lparr>state := snd (RemoveSpokesman g (state m)),
      data_writers := filter (\<lambda>it. \<not> same_guid_prefix D g (fst it)) (data_writers m),
      data_readers := filter (\<lambda>it. \<not> same_guid_prefix D g (fst it)) (data_readers m)\<rparr>"
  have m': "r = first_registered g m \<and> state m' = state ?m \<and> data_writers m' = data_writers ?m
      \<and> data_readers m' = data_readers ?m \<and> entity_map m' = entity_map m"
  proof -
    have r: "r = fst (removeParticipant D g m)" "m' = snd (removeParticipant D g m)" using run by simp_all
    show ?thesis unfolding r
      by (simp add: removeParticipant_def Let_def first_registered_def split_beta split: option.split)
  qed
  have "lookup_item (databases (snd (RemoveSpokesman g (state m)))) g = None"
    by (auto simp: RemoveSpokesman_def std_erase_key_def std_find_None_iff)
  moreover have "view (snd (RemoveSpokesman g (state m))) = spec_forget g (view (state m))"
    using RemoveSpokesman_spec [OF okD(9), of g] by blast
  moreover have "map_find h (filter (\<lambda>it. \<not> same_guid_prefix D g (fst it)) xs) =
      (if same_guid_prefix D g h then None else map_find h xs)" if "map_ok xs" for h and xs :: "('a \<times> 'b) list"
    using map_find_filter [OF that, of "\<lambda>it. \<not> same_guid_prefix D g (fst it)" "\<lambda>h. \<not> same_guid_prefix D g h" h]
    by simp
  ultimately show ?thesis using m' okD(5,6) by (auto simp: getDataReader_def getDataWriter_def)
qed

text \<open>
  C13: removeParticipant returns the participant registered under the GUID and leaves neither its
  database nor any endpoint with its prefix, while all other endpoints and the created entities
  stay.
\<close>

theorem removeParticipant_forgets:
  assumes ok: "manager_ok m" and run: "removeParticipant D g m = (r, m')"
  shows "r = first_registered g m
    \<and> view (state m') = spec_forget g (view (state m))
    \<and> lookup_item (databases (state m')) g = None
    \<and> (\<forall>h. getDataReader h m' = (if same_guid_prefix D g h then None else getDataReader h m))
    \<and> (\<forall>h. getDataWriter h m' = (if same_guid_prefix D g h then None else getDataWriter h m))
    \<and> entity_map m' = entity_map m"
  using assms by (rule removeParticipant_forgets_aux)

text \<open>
  Removal leaves the entry in the map of created entities, which only \<open>deleteParticipant\<close> erases:
  until then the callbacks of the removed participant are still accepted and bring its database back.
\<close>

text \<open>
  C38: A callback of a participant between its removal and its deletion brings back its database.
\<close>

theorem removed_participant_still_heard:
  assumes ok: "manager_ok m" and entry: "map_find (dds_guid D p) (entity_map m) = Some i"
    "info_participant i \<noteq> None"
    and removed: "removeParticipant D (dds_guid D p) m = (r, m')"
    and heard: "on_participant_discovery D dbg t now p DISCOVERED_PARTICIPANT info m' = Inr m''"
    and deleted: "deleteParticipant D (Some p) (m'', w) = (ret, m''', w')"
  shows "view (state m') (dds_guid D p) (pdata_guid info) = None
    \<and> view (state m''') (dds_guid D p) (pdata_guid info) \<noteq> None"
proof -
  have m': "entity_map m' = entity_map m" "view (state m') = spec_forget (dds_guid D p) (view (state m))"
    using removeParticipant_forgets_aux [OF ok removed] by auto
  have ok': "image_ok (state m')"
    using ok_removeParticipant [OF ok, of D "dds_guid D p"] removed manager_okD(9) by fastforce
  have "getParticipant (dds_guid D p) m' \<noteq> None" using entry m' by (simp add: getParticipant_eq)
  with heard obtain b img where add: "AddParticipant dbg now (dds_guid D p) (dds_name D p) (pdata_guid info)
      (pdata_name info) t (\<not> no_callbacks m' \<and> map_find (pdata_guid info) (servers m') \<noteq> None)
      (state m') = Inr (b, img)" and "m'' = m'\<lparr>last_PDP := t, state := img\<rparr>"
    by (elim on_participant_discovery_cases) auto
  moreover have "state m''' = state m''" using deleted by (auto simp: deleteParticipant_def Let_def split_beta)
  ultimately show ?thesis
    using AddParticipant_spec [OF ok' add] m'(2) by (simp add: spec_report_def spec_forget_def)
qed

section \<open>Callbacks\<close>

text \<open>
  C11: The participant discovery callback ignores an unregistered listener; otherwise it stores
  the callback time and performs exactly the abstract report or burial of the discovered
  participant.
\<close>

theorem on_participant_discovery_refines:
  assumes ok: "manager_ok m"
    and run: "on_participant_discovery D dbg t now p status info m = Inr m'"
  shows "manager_ok m' \<and>
    (if getParticipant (dds_guid D p) m = None then m' = m
     else m' = m\<lparr>last_PDP := t, state := state m'\<rparr> \<and>
       view (state m') =
         (case status of
            DISCOVERED_PARTICIPANT \<Rightarrow>
              spec_report (dds_guid D p) (pdata_guid info) (pdata_name info)
                (\<not> no_callbacks m \<and> map_find (pdata_guid info) (servers m) \<noteq> None) now t (view (state m))
          | REMOVED_PARTICIPANT \<Rightarrow> spec_bury (dds_guid D p) (pdata_guid info) (view (state m))
          | DROPPED_PARTICIPANT \<Rightarrow> spec_bury (dds_guid D p) (pdata_guid info) (view (state m))
          | _ \<Rightarrow> view (state m)))"
proof -
  have img: "image_ok (state m)" using ok by (rule manager_okD)
  have ok': "manager_ok m'" by (rule ok_callbacks(1) [OF ok run])
  from run show ?thesis
  proof (cases rule: on_participant_discovery_cases [consumes 1, case_names ignored other added removed])
    case (added b img')
    then show ?thesis using AddParticipant_spec [OF img added(3)] ok' by auto
  next
    case removed
    then show ?thesis
      using RemoveParticipant_spec [OF img, of "dds_guid D p" "pdata_guid info"] ok' by auto
  next
    case ignored
    then show ?thesis using ok' by simp
  next
    case other
    then show ?thesis using ok' by (cases status) auto
  qed
qed

text \<open>
  Where an endpoint that was discovered is filed: under its participant \<open>p\<close> when that is the spokesman
  \<open>s\<close>, is recorded already or is beyond every recorded one; otherwise with the next recorded
  participant, the one \<open>lower_bound\<close> finds.
\<close>

definition spec_file_endpoint ::
  "((('g::linorder, 'a) EndpointItem_scheme list \<Rightarrow> ('g, 'a) EndpointItem_scheme list)
      \<Rightarrow> 'g ParticipantDiscoveryItem \<Rightarrow> 'g ParticipantDiscoveryItem)
    \<Rightarrow> ('g, 'a) EndpointItem_scheme \<Rightarrow> 'g \<Rightarrow> 'g \<Rightarrow> time_point
    \<Rightarrow> 'g discovery_view \<Rightarrow> 'g discovery_view \<Rightarrow> bool" where
  "spec_file_endpoint upd x s p now V V' \<longleftrightarrow>
     (if p = s \<or> V s p \<noteq> None \<or> (\<forall>g. V s g \<noteq> None \<longrightarrow> g < p)
      then V' = spec_add_endpoint upd x s p now V
      else \<exists>g q. V s g = Some q \<and> p < g \<and> (\<forall>h. V s h \<noteq> None \<longrightarrow> p < h \<longrightarrow> g \<le> h)
        \<and> V' = V(s := (V s)(g \<mapsto> upd (std_put endpoint_guid x) q)))"

lemma spec_file_endpointI:
  assumes ok: "image_ok img"
    and files: "V' = (view img)(s := (view img s)(owner_of s p (known img s) \<mapsto>
      upd (std_put endpoint_guid x) (owner_item s p now (known img s))))"
  shows "spec_file_endpoint upd x s p now (view img) V'"
proof (cases "owner_of s p (known img s) = p")
  case True
  then have "p = s \<or> view img s p \<noteq> None \<or> (\<forall>g. view img s g \<noteq> None \<longrightarrow> g < p)"
    using owner_of_iff [OF image_ok_known_items [OF ok], of s p] by (simp add: view_fun)
  then show ?thesis
    using files owner_item_known [OF ok True] True by (simp add: spec_file_endpoint_def spec_add_endpoint_def)
next
  case False
  let ?o = "owner_of s p (known img s)"
  have away: "p \<noteq> s" "view img s p = None" "\<not> (\<forall>g. view img s g \<noteq> None \<longrightarrow> g < p)"
    using False owner_of_iff [OF image_ok_known_items [OF ok], of s p] by (simp_all add: view_fun)
  then obtain g y where g: "view img s g = Some y" "\<not> g < p" by blast
  then have "p < g" using away(2) by (cases "g = p") auto
  then have o: "view img s ?o \<noteq> None" "p < ?o" "\<forall>h. view img s h \<noteq> None \<longrightarrow> p < h \<longrightarrow> ?o \<le> h"
    using owner_of_unknown [OF image_ok_known_items [OF ok] away(1) _ _ \<open>p < g\<close>] g(1) away(2)
    by (simp_all add: view_fun)
  then obtain q where q: "view img s ?o = Some q" by blast
  then have "owner_item s p now (known img s) = q"
    using away(1) by (simp add: owner_item_def view_fun)
  with files have "V' = (view img)(s := (view img s)(?o \<mapsto> upd (std_put endpoint_guid x) q))" by simp
  with o q have "\<exists>g q. view img s g = Some q \<and> p < g \<and> (\<forall>h. view img s h \<noteq> None \<longrightarrow> p < h \<longrightarrow> g \<le> h)
      \<and> V' = (view img)(s := (view img s)(g \<mapsto> upd (std_put endpoint_guid x) q))" by blast
  then show ?thesis unfolding spec_file_endpoint_def using away by (simp only: if_False simp_thms not_True_eq_False)
qed

lemma AddEndPoint_filed:
  assumes ok: "image_ok img"
  shows "AddDataReader dbg now s n p e ty tp ts img = Inr (b, img') \<Longrightarrow>
      spec_file_endpoint datareaders_update (new_datareader e ty tp ts) s p now (view img) (view img')"
    and "AddDataWriter dbg now s n p e ty tp ts img = Inr (b, img') \<Longrightarrow>
      spec_file_endpoint datawriters_update (new_datawriter e ty tp ts) s p now (view img) (view img')"
  unfolding AddDataReader_def AddDataWriter_def
  by (rule spec_file_endpointI [OF ok], drule readers.AddEndPoint_files [OF ok], elim conjE, assumption)
    (rule spec_file_endpointI [OF ok], drule writers.AddEndPoint_files [OF ok], elim conjE, assumption)

lemma on_data_reader_discovery_effect:
  assumes ok: "manager_ok m"
    and run: "on_data_reader_discovery D dbg t now p rreason info m = Inr m'"
  shows "manager_ok m' \<and>
      (if getParticipant (dds_guid D p) m = None then m' = m
       else m' = m\<lparr>last_EDP := t, state := state m'\<rparr> \<and>
         (case rreason of
            DISCOVERED_READER \<Rightarrow>
              spec_file_endpoint datareaders_update
                (new_datareader (edata_guid info) (edata_type_name info) (edata_topic_name info) t)
                (dds_guid D p) (edata_participant_guid info) now (view (state m)) (view (state m'))
          | REMOVED_READER \<Rightarrow> view (state m') =
              spec_remove_endpoint datareaders datareaders_update (dds_guid D p)
                (edata_participant_guid info) (edata_guid info) (view (state m))
          | _ \<Rightarrow> state m' = state m))"
proof -
  have img: "image_ok (state m)" using ok by (rule manager_okD)
  note remove = RemoveEndPoint_spec [OF img, of "dds_guid D p" "edata_participant_guid info" "edata_guid info"]
  have ok': "manager_ok m'" using run by (rule ok_callbacks(2) [OF ok])
  from run show ?thesis
  proof (cases rule: on_data_reader_discovery_cases [consumes 1, case_names ignored other added removed])
    case other
    then show ?thesis using ok' by (cases rreason) auto
  next
    case added
    then show ?thesis using ok' AddEndPoint_filed(1) [OF img added(3)] by auto
  next
    case removed
    then show ?thesis using ok' remove by auto
  qed (use ok' in simp)
qed

lemma on_data_writer_discovery_effect:
  assumes ok: "manager_ok m"
    and run: "on_data_writer_discovery D dbg t now p wreason info m = Inr m'"
  shows "manager_ok m' \<and>
      (if getParticipant (dds_guid D p) m = None then m' = m
       else m' = m\<lparr>last_EDP := t, state := state m'\<rparr> \<and>
         (case wreason of
            DISCOVERED_WRITER \<Rightarrow>
              spec_file_endpoint datawriters_update
                (new_datawriter (edata_guid info) (edata_type_name info) (edata_topic_name info) t)
                (dds_guid D p) (edata_participant_guid info) now (view (state m)) (view (state m'))
          | REMOVED_WRITER \<Rightarrow> view (state m') =
              spec_remove_endpoint datawriters datawriters_update (dds_guid D p)
                (edata_participant_guid info) (edata_guid info) (view (state m))
          | _ \<Rightarrow> state m' = state m))"
proof -
  have img: "image_ok (state m)" using ok by (rule manager_okD)
  note remove = RemoveEndPoint_spec [OF img, of "dds_guid D p" "edata_participant_guid info" "edata_guid info"]
  have ok': "manager_ok m'" using run by (rule ok_callbacks(3) [OF ok])
  from run show ?thesis
  proof (cases rule: on_data_writer_discovery_cases [consumes 1, case_names ignored other added removed])
    case other
    then show ?thesis using ok' by (cases wreason) auto
  next
    case added
    then show ?thesis using ok' AddEndPoint_filed(2) [OF img added(3)] by auto
  next
    case removed
    then show ?thesis using ok' remove by auto
  qed (use ok' in simp)
qed

text \<open>
  C12: Whatever the reader and writer discovery callbacks report, they ignore an unregistered
  listener; otherwise they store the callback time and file a discovered endpoint, remove a
  removed one as the abstract removal says, or change nothing else. A discovered endpoint goes to
  its participant when that is the listener itself, is already recorded or is beyond every
  recorded one, and to the next recorded participant in every other case.
\<close>

theorem on_endpoint_discovery_refines:
  assumes "manager_ok m"
  shows "(on_data_reader_discovery D dbg t now p rreason info m = Inr m' \<longrightarrow> manager_ok m' \<and>
      (if getParticipant (dds_guid D p) m = None then m' = m
       else m' = m\<lparr>last_EDP := t, state := state m'\<rparr> \<and>
         (case rreason of
            DISCOVERED_READER \<Rightarrow>
              spec_file_endpoint datareaders_update
                (new_datareader (edata_guid info) (edata_type_name info) (edata_topic_name info) t)
                (dds_guid D p) (edata_participant_guid info) now (view (state m)) (view (state m'))
          | REMOVED_READER \<Rightarrow> view (state m') =
              spec_remove_endpoint datareaders datareaders_update (dds_guid D p)
                (edata_participant_guid info) (edata_guid info) (view (state m))
          | _ \<Rightarrow> state m' = state m)))
    \<and> (on_data_writer_discovery D dbg t now p wreason info m = Inr m' \<longrightarrow> manager_ok m' \<and>
      (if getParticipant (dds_guid D p) m = None then m' = m
       else m' = m\<lparr>last_EDP := t, state := state m'\<rparr> \<and>
         (case wreason of
            DISCOVERED_WRITER \<Rightarrow>
              spec_file_endpoint datawriters_update
                (new_datawriter (edata_guid info) (edata_type_name info) (edata_topic_name info) t)
                (dds_guid D p) (edata_participant_guid info) now (view (state m)) (view (state m'))
          | REMOVED_WRITER \<Rightarrow> view (state m') =
              spec_remove_endpoint datawriters datawriters_update (dds_guid D p)
                (edata_participant_guid info) (edata_guid info) (view (state m))
          | _ \<Rightarrow> state m' = state m)))"
  using on_data_reader_discovery_effect [OF assms] on_data_writer_discovery_effect [OF assms]
  by (intro conjI impI) blast+

section \<open>Shutdown\<close>

datatype 'd shutdown_call = No_Listener 'd | Delete_Contained 'd | Delete_Participant 'd

definition records_shutdown :: "('g, 'd, 'q, 'd shutdown_call list) dds \<Rightarrow> bool" where
  "records_shutdown D \<longleftrightarrow>
     (\<forall>p w. set_no_listener D p w = w @ [No_Listener p])
   \<and> (\<forall>p w. snd (delete_contained_entities D p w) = w @ [Delete_Contained p])
   \<and> (\<forall>p w. snd (delete_participant D p w) = w @ [Delete_Participant p])"

lemma shutdown_participants_log:
  "records_shutdown D \<Longrightarrow> shutdown_participants D ps w =
     w @ concat (map (\<lambda>p. [No_Listener p, Delete_Contained p, Delete_Participant p]) (map snd ps))"
  unfolding shutdown_participants_def
proof (induction ps arbitrary: w)
  case (Cons p ps)
  then show ?case by (simp add: records_shutdown_def Let_def split_beta)
qed simp

text \<open>
  C37: onTerminate deletes all clients, then all simple participants, then all servers, each one
  without its listener and its entities first, and a second call does nothing.
\<close>

theorem onTerminate_order:
  assumes log: "records_shutdown D" and running: "\<not> no_callbacks m"
  shows "snd (onTerminate D (m, w)) = w @
      concat (map (\<lambda>p. [No_Listener p, Delete_Contained p, Delete_Participant p])
        (map snd (clients m) @ map snd (simples m) @ map snd (servers m)))
    \<and> onTerminate D (onTerminate D (m, w)) = onTerminate D (m, w)"
  using running by (simp add: onTerminate_def Let_def shutdown_participants_log [OF log])

text \<open>The maps of participants keep the pointers to the participants that were deleted.\<close>

theorem onTerminate_keeps_pointers:
  assumes "\<not> no_callbacks m"
  shows "getParticipant g (fst (onTerminate D (m, w))) = first_registered g m
    \<and> data_readers (fst (onTerminate D (m, w))) = [] \<and> data_writers (fst (onTerminate D (m, w))) = []
    \<and> events (fst (onTerminate D (m, w))) = []"
  using assms by (auto simp: onTerminate_def Let_def getParticipant_eq first_registered_def
      split: option.split)

section \<open>Validated runs\<close>

text \<open>
  C15: If all snapshots a run of the manager took pass validation, any two databases of one of
  them agree on every participant that is not the spokesman of a database between them.
\<close>

theorem validated_run_agrees:
  assumes run: "manager_reachable D dbg m" and valid: "validateAllSnapshots (snapshots m)"
    and shot: "shot \<in> set (snapshots m)"
    and ij: "i \<le> j" "j < length (databases shot)"
    and free: "\<forall>k. i \<le> k \<and> k \<le> j \<longrightarrow> endpoint_guid (databases shot ! k) \<noteq> g"
  shows "agree_on g (databases shot ! i) (databases shot ! j)"
proof -
  have "image_ok shot" using manager_reachable_inv [OF run] shot by (auto dest: manager_okD(8))
  moreover have "allKnowEachOther shot" using valid shot by (simp add: validateAllSnapshots_all)
  ultimately show ?thesis by (rule chain_agrees [OF _ _ ij free])
qed

text \<open>
  C14: In every state the manager can reach, whatever the order of registrations, callbacks and
  snapshots, its maps are sorted, its discovery state and all its snapshots are well formed and
  dead participants own endpoints.
\<close>

theorem manager_invariant:
  assumes "manager_reachable D dbg m"
  shows "image_ok (state m)
    \<and> (\<forall>s p q. view (state m) s p = Some q \<longrightarrow> is_alive q \<or> 0 < CountEndpoints q)
    \<and> (\<forall>shot\<in>set (snapshots m). image_ok shot)
    \<and> map_ok (servers m) \<and> map_ok (clients m) \<and> map_ok (simples m) \<and> map_ok (entity_map m)"
  using manager_reachable_inv [OF assms] manager_okD
  by (auto simp: manager_ok_def db_inv_def zombies_own_def view_fun)

section \<open>Instances\<close>

text \<open>
  Handles are GUIDs; endpoint \<open>10 p + k\<close> belongs to participant \<open>p\<close>. Every creation succeeds with a fixed
  handle and every shutdown call is recorded.
\<close>

definition sample_dds :: "(nat, nat, nat, nat shutdown_call list) dds" where
  "sample_dds = \<lparr>dds_guid = (\<lambda>d. d), dds_owner = (\<lambda>d. d div 10), dds_name = (\<lambda>d. ''p''),
     same_guid_prefix = (\<lambda>g h. g = h \<or> g = h div 10), guid_unknown = 0,
     participant_guid_of = (\<lambda>g. g div 10),
     create_participant = (\<lambda>q w. (Some q, w)), create_publisher = (\<lambda>p w. (Some (100 + p), w)),
     create_subscriber = (\<lambda>p w. (Some (200 + p), w)), register_type = (\<lambda>p w. w),
     create_topic = (\<lambda>p n t w. (Some 300, w)), create_topic_with_profile = (\<lambda>p n t c w. (Some 301, w)),
     create_datawriter = (\<lambda>p t w. (Some (10 * (p - 100)), w)),
     create_datawriter_with_profile = (\<lambda>p t c w. (Some (10 * (p - 100) + 1), w)),
     create_datareader = (\<lambda>p t w. (Some (10 * (p - 200) + 2), w)),
     create_datareader_with_profile = (\<lambda>p t c w. (Some (10 * (p - 200) + 3), w)),
     set_no_listener = (\<lambda>p w. w @ [No_Listener p]),
     delete_contained_entities = (\<lambda>p w. (RETCODE_OK, w @ [Delete_Contained p])),
     delete_participant = (\<lambda>p w. (RETCODE_OK, w @ [Delete_Participant p])),
     delete_datareader = (\<lambda>s d w. (RETCODE_OK, w)), delete_datawriter = (\<lambda>s d w. (RETCODE_OK, w))\<rparr>"

lemma sample_dds_simps [simp]:
  "dds_guid sample_dds d = d" "dds_owner sample_dds d = d div 10" "dds_name sample_dds d = ''p''"
  "same_guid_prefix sample_dds g h \<longleftrightarrow> g = h \<or> g = h div 10"
  by (simp_all add: sample_dds_def)

lemma sample_records: "records_shutdown sample_dds"
  by (simp add: records_shutdown_def sample_dds_def)

definition sample_manager :: "(nat, nat, nat, unit) Manager" where
  "sample_manager = (new_manager 0 (new_image 0 1 2) False)
     \<lparr>servers := [(1, 1)], clients := [(2, 2)],
      entity_map := [(1, blank_info\<lparr>info_participant := Some 1\<rparr>), (2, blank_info\<lparr>info_participant := Some 2\<rparr>)],
      data_readers := [(21, 21), (31, 31)]\<rparr>"

lemma sample_manager_ok: "manager_ok sample_manager"
  by (simp add: manager_ok_def sample_manager_def new_manager_def db_inv_new)

lemma sample_state: "state sample_manager = new_image 0 1 2" "no_callbacks sample_manager = False"
  by (simp_all add: sample_manager_def new_manager_def)

lemma sample_registered:
  "map_find 2 (entity_map sample_manager) = Some (blank_info\<lparr>info_participant := Some 2\<rparr>)"
  "map_find 3 (entity_map sample_manager) = None" "first_registered 3 sample_manager = None"
  "first_registered 2 sample_manager = Some 2"
  by (simp_all add: sample_manager_def new_manager_def map_find_def first_registered_def)

theorem added_participant_resolves_witness:
  "\<exists>m'. addClient sample_dds True 3 sample_manager = Inr m' \<and> getParticipant 3 m' = Some 3"
  using added_participant_resolves [OF sample_manager_ok, of sample_dds 3 True] sample_registered by simp

theorem endpoint_registry_roundtrip_witness:
  "\<exists>m'. addDataReader sample_dds True (Some 41) sample_manager = Inr m'
     \<and> fst (removeSubscriber 41 m') = Some 41"
proof -
  have "map_find (dds_guid sample_dds 41) (data_readers sample_manager) = None"
    by (simp add: sample_manager_def new_manager_def map_find_def)
  from endpoint_registry_roundtrip [OF sample_manager_ok this, of True] show ?thesis by auto
qed

theorem removeParticipant_forgets_witness:
  "fst (removeParticipant sample_dds 2 sample_manager) = Some 2
    \<and> getDataReader 21 (snd (removeParticipant sample_dds 2 sample_manager)) = None
    \<and> getDataReader 31 (snd (removeParticipant sample_dds 2 sample_manager)) = Some 31"
proof -
  have "getDataReader 31 sample_manager = Some 31"
    by (simp add: sample_manager_def new_manager_def getDataReader_def map_find_def)
  then show ?thesis
    using removeParticipant_forgets [OF sample_manager_ok prod.collapse [symmetric], of sample_dds 2]
      sample_registered by simp
qed

theorem onTerminate_order_witness:
  "snd (onTerminate sample_dds (sample_manager, [])) =
     [No_Listener 2, Delete_Contained 2, Delete_Participant 2,
      No_Listener 1, Delete_Contained 1, Delete_Participant 1]"
  using onTerminate_order [OF sample_records, of sample_manager "[]"]
  by (simp add: sample_state) (simp add: sample_manager_def new_manager_def)

theorem onTerminate_keeps_pointers_witness:
  "getParticipant 2 (fst (onTerminate sample_dds (sample_manager, []))) = Some 2"
  using onTerminate_keeps_pointers [of sample_manager 2 sample_dds "[]"] sample_state sample_registered by simp

definition sample_pdata :: "nat ParticipantBuiltinTopicData" where
  "sample_pdata = \<lparr>pdata_guid = 1, pdata_name = ''server''\<rparr>"

theorem on_participant_discovery_refines_witness:
  "\<exists>m'. on_participant_discovery sample_dds True 7 8 2 DISCOVERED_PARTICIPANT sample_pdata sample_manager = Inr m'
     \<and> last_PDP m' = 7 \<and> view (state m') 2 1 = Some (new_participant 1 ''server'' True 8)"
proof -
  have "\<not> isl (on_participant_discovery sample_dds True 7 8 2 DISCOVERED_PARTICIPANT sample_pdata sample_manager)"
    by code_simp
  then obtain m' where run:
    "on_participant_discovery sample_dds True 7 8 2 DISCOVERED_PARTICIPANT sample_pdata sample_manager = Inr m'"
    by (cases "on_participant_discovery sample_dds True 7 8 2 DISCOVERED_PARTICIPANT sample_pdata sample_manager") auto
  have "getParticipant 2 sample_manager = Some 2" by code_simp
  moreover have "map_find 1 (servers sample_manager) = Some 1" by code_simp
  moreover have "view (state sample_manager) 2 1 = None" by code_simp
  ultimately have "m' = sample_manager\<lparr>last_PDP := 7, state := state m'\<rparr>"
    "view (state m') 2 1 = Some (new_participant 1 ''server'' True 8)"
    using on_participant_discovery_refines [OF sample_manager_ok run]
    by (simp_all add: sample_state spec_report_def sample_pdata_def)
  moreover from arg_cong [OF this(1), of last_PDP] have "last_PDP m' = 7" by simp
  ultimately show ?thesis using run by blast
qed


lemma run_some: "\<not> isl r \<Longrightarrow> \<exists>x. r = Inr x"
  by (cases r) auto

definition sample_edata :: "nat EndpointBuiltinTopicData" where
  "sample_edata = \<lparr>edata_guid = 22, edata_participant_guid = 2, edata_type_name = ''T'', edata_topic_name = ''t''\<rparr>"

theorem on_endpoint_discovery_refines_witness:
  "\<exists>m'. on_data_reader_discovery sample_dds True 7 8 2 DISCOVERED_READER sample_edata sample_manager = Inr m'
     \<and> view (state m') = spec_add_endpoint datareaders_update (new_datareader 22 ''T'' ''t'' 7) 2 2 8
          (view (state sample_manager))"
proof -
  have "\<not> isl (on_data_reader_discovery sample_dds True 7 8 2 DISCOVERED_READER sample_edata sample_manager)"
    by code_simp
  then obtain m' where run:
    "on_data_reader_discovery sample_dds True 7 8 2 DISCOVERED_READER sample_edata sample_manager = Inr m'"
    using run_some by blast
  have heard: "getParticipant (dds_guid sample_dds 2) sample_manager \<noteq> None" by code_simp
  have "edata_participant_guid sample_edata = dds_guid sample_dds 2"
    by (simp add: sample_edata_def)
  with on_endpoint_discovery_refines [OF sample_manager_ok, of sample_dds True 7 8 2 DISCOVERED_READER sample_edata m']
    heard run
  have "spec_file_endpoint datareaders_update (new_datareader 22 ''T'' ''t'' 7) 2 2 8
      (view (state sample_manager)) (view (state m'))"
    by (auto simp: sample_edata_def)
  with run show ?thesis by (auto simp: spec_file_endpoint_def)
qed

theorem removed_participant_still_heard_witness:
  "\<exists>m' m''. removeParticipant sample_dds 2 sample_manager = (Some 2, m')
     \<and> on_participant_discovery sample_dds True 7 8 2 DISCOVERED_PARTICIPANT sample_pdata m' = Inr m''
     \<and> view (state m') 2 1 = None
     \<and> view (state (fst (snd (deleteParticipant sample_dds (Some 2) (m'', []))))) 2 1 \<noteq> None"
proof -
  define m' where "m' = snd (removeParticipant sample_dds 2 sample_manager)"
  have "fst (removeParticipant sample_dds 2 sample_manager) = Some 2" by code_simp
  then have removed: "removeParticipant sample_dds (dds_guid sample_dds 2) sample_manager = (Some 2, m')"
    by (simp add: m'_def prod_eq_iff)
  have "\<not> isl (on_participant_discovery sample_dds True 7 8 2 DISCOVERED_PARTICIPANT sample_pdata m')"
    unfolding m'_def by code_simp
  then obtain m'' where heard:
    "on_participant_discovery sample_dds True 7 8 2 DISCOVERED_PARTICIPANT sample_pdata m' = Inr m''"
    using run_some by blast
  have entry: "map_find (dds_guid sample_dds 2) (entity_map sample_manager) =
      Some (blank_info\<lparr>info_participant := Some 2\<rparr>)" using sample_registered by simp
  obtain ret m3 w3 where deleted: "deleteParticipant sample_dds (Some 2) (m'', []) = (ret, m3, w3)"
    by (metis prod.collapse)
  from removed_participant_still_heard [OF sample_manager_ok entry _ removed heard deleted]
  show ?thesis using removed heard deleted by (auto simp: sample_pdata_def)
qed

text \<open>A server and a client register and a snapshot is taken before any discovery.\<close>

definition sample_start :: "(nat, nat, nat, unit) Manager" where
  "sample_start = new_manager 0 (new_image 0 1 2) False"

definition sample_run :: "(nat, nat, nat, unit) Manager" where
  "sample_run = manager_takeSnapshot 9 ''start'' False False
     (sample_start\<lparr>servers := [(1, 1)], clients := [(2, 2)]\<rparr>)"

lemma sample_run_reachable: "manager_reachable sample_dds True sample_run"
proof -
  note reach = manager_reachable.step
  have start: "manager_reachable sample_dds True sample_start"
    unfolding sample_start_def by (rule manager_reachable.start)
  have "addServer sample_dds True 1 sample_start = Inr (sample_start\<lparr>servers := [(1, 1)]\<rparr>)"
    by (simp add: addServer_def sample_start_def new_manager_def map_assign_def)
  note server = reach [OF start manager_step.add_server [OF this]]
  have "addClient sample_dds True 2 (sample_start\<lparr>servers := [(1, 1)]\<rparr>) =
      Inr (sample_start\<lparr>servers := [(1, 1)], clients := [(2, 2)]\<rparr>)"
    by (simp add: addClient_def sample_start_def new_manager_def map_assign_def)
  note client = reach [OF server manager_step.add_client [OF this]]
  show ?thesis unfolding sample_run_def by (rule reach [OF client manager_step.snapshot])
qed

theorem manager_invariant_witness:
  "manager_reachable sample_dds True sample_run \<and> length (snapshots sample_run) = 1
    \<and> list_all image_ok (snapshots sample_run)"
proof -
  have "length (snapshots sample_run) = 1" by code_simp
  with manager_invariant [OF sample_run_reachable] sample_run_reachable show ?thesis
    unfolding list_all_iff by blast
qed

theorem validated_run_agrees_witness:
  "agree_on 3 (databases (hd (snapshots sample_run)) ! 0) (databases (hd (snapshots sample_run)) ! 1)
    \<and> map endpoint_guid (databases (hd (snapshots sample_run))) = [1, 2]"
proof -
  have valid: "validateAllSnapshots (snapshots sample_run)" by code_simp
  have guids: "map endpoint_guid (databases (hd (snapshots sample_run))) = [1, 2]" by code_simp
  then have len: "1 < length (databases (hd (snapshots sample_run)))" by (metis length_map One_nat_def
        length_Cons lessI list.size(3))
  have "snapshots sample_run \<noteq> []" by code_simp
  then have shot: "hd (snapshots sample_run) \<in> set (snapshots sample_run)" by simp
  have "endpoint_guid (databases (hd (snapshots sample_run)) ! k) \<noteq> 3" if "k \<le> 1" for k
    using that guids len by (cases k) (auto simp: nth_map [symmetric] simp del: nth_map)
  with validated_run_agrees [OF sample_run_reachable valid shot _ len, of 0 3] guids show ?thesis by auto
qed

end
