(* ===== verification/Late_Joiner_Contract.thy ===== *)
theory Late_Joiner_Contract
  imports Late_Joiner Manager_Contract "HOL-Library.Multiset"
begin

text \<open>
  What the late joiner events guarantee: a participant can be created and destroyed again, an endpoint
  ends up registered under its participant, events run in the order of their times and every snapshot
  event leaves one snapshot; and the inputs on which an event ends in a null pointer.
\<close>

section \<open>Frames\<close>

text \<open>What the main thread's bookkeeping of events does not touch.\<close>

lemma SetGuid_frame:
  obtains es where "participant_destruction_SetGuid D a g m = m\<lparr>event_store := es\<rparr>"
proof -
  have "\<exists>es. participant_destruction_SetGuid D a g m = m\<lparr>event_store := es\<rparr>"
  proof (cases "participant_destruction_SetGuid D a g m = m")
    case True
    then show ?thesis by (intro exI [of _ "event_store m"]) simp
  next
    case False
    then show ?thesis
      by (auto simp: participant_destruction_SetGuid_def split: option.splits event_action.splits if_splits)
  qed
  then show thesis using that by blast
qed

lemma endpoint_SetGuid_frame:
  obtains es where "endpoint_destruction_SetGuid D a g m = m\<lparr>event_store := es\<rparr>"
proof -
  have "\<exists>es. endpoint_destruction_SetGuid D a g m = m\<lparr>event_store := es\<rparr>"
  proof (cases "endpoint_destruction_SetGuid D a g m = m")
    case True
    then show ?thesis by (intro exI [of _ "event_store m"]) simp
  next
    case False
    then show ?thesis
      by (auto simp: endpoint_destruction_SetGuid_def split: option.splits event_action.splits if_splits)
  qed
  then show thesis using that by blast
qed

lemma manager_ok_store [simp]: "manager_ok (m\<lparr>event_store := es\<rparr>) = manager_ok m"
  by (simp add: manager_ok_def)

lemma first_registered_store [simp]: "first_registered g (m\<lparr>event_store := es\<rparr>) = first_registered g m"
  and first_registered_entities [simp]: "first_registered g (m\<lparr>entity_map := em\<rparr>) = first_registered g m"
  by (simp_all add: first_registered_def split: option.split)

lemma getParticipant_store [simp]: "getParticipant g (m\<lparr>event_store := es\<rparr>) = getParticipant g m"
  by (simp add: getParticipant_eq split: option.split)

section \<open>Participants\<close>

lemma add_role_effect:
  assumes ok: "manager_ok m" and fresh: "first_registered (dds_guid D p) m = None"
  obtains m' where "add_role r D dbg p m = Inr m'" "manager_ok m'"
    "first_registered (dds_guid D p) m' = Some p"
    "\<And>h. h \<noteq> dds_guid D p \<Longrightarrow> first_registered h m' = first_registered h m"
    "entity_map m' = entity_map m" "state m' = state m" "event_store m' = event_store m"
    "snapshots m' = snapshots m"
    "length (filter (\<lambda>ps. map_find (dds_guid D p) ps \<noteq> None) [clients m', servers m', simples m']) = 1"
proof -
  have none: "map_find (dds_guid D p) (clients m) = None" "map_find (dds_guid D p) (servers m) = None"
    "map_find (dds_guid D p) (simples m) = None"
    using fresh by (auto simp: first_registered_def split: option.splits)
  obtain m' where run: "add_role r D dbg p m = Inr m'"
    using none by (cases r) (auto simp: add_role_def addServer_def addClient_def addSimple_def)
  have "manager_ok m'"
    using run ok by (cases r) (auto simp: add_role_def intro: ok_add)
  moreover have "first_registered (dds_guid D p) m' = Some p"
    "\<And>h. h \<noteq> dds_guid D p \<Longrightarrow> first_registered h m' = first_registered h m"
    "entity_map m' = entity_map m" "state m' = state m" "event_store m' = event_store m"
    "snapshots m' = snapshots m"
    "length (filter (\<lambda>ps. map_find (dds_guid D p) ps \<noteq> None) [clients m', servers m', simples m']) = 1"
    using run none manager_okD [OF ok]
    by (cases r; auto simp: add_role_def addServer_def addClient_def addSimple_def first_registered_def
        std_map.find_assign split: option.split)+
  ultimately show thesis using that run by blast
qed

lemma setParticipantInfo_effect:
  assumes "manager_ok m"
  obtains em where "setParticipantInfo g info m = m\<lparr>entity_map := em\<rparr>" "map_ok em"
    "\<And>h. map_find h em = (if h = g then Some info else map_find h (entity_map m))"
  using entity_assign_eq [OF manager_okD(4) [OF assms], of g "\<lambda>_. info"] that
  by (metis setParticipantInfo_def)

lemma participant_creation_effect:
  assumes ok: "manager_ok m" and created: "create_participant D qos w = (Some p, w1)"
    and fresh: "first_registered (dds_guid D p) m = None"
  shows "\<exists>m1 es em w2 info.
    participant_creation D dbg qos r removal (m, w) = Inr (dds_guid D p, m1\<lparr>event_store := es, entity_map := em\<rparr>, w2)
    \<and> add_role r D dbg p m = Inr m1
    \<and> m1\<lparr>event_store := es\<rparr> = participant_destruction_SetGuid D removal (dds_guid D p) m1
    \<and> map_ok em \<and> (\<forall>h. map_find h em = (if h = dds_guid D p then Some info else map_find h (entity_map m)))
    \<and> info_participant info = Some p \<and> manager_ok m1"
proof -
  let ?g = "dds_guid D p"
  obtain m1 where m1: "add_role r D dbg p m = Inr m1" "manager_ok m1" "entity_map m1 = entity_map m"
    by (rule add_role_effect [OF ok fresh])
  obtain pub w2 where pub: "create_publisher D p w1 = (pub, w2)" by (metis prod.collapse)
  obtain sub w3 where sub: "create_subscriber D p w2 = (sub, w3)" by (metis prod.collapse)
  let ?info = "blank_info\<lparr>info_participant := Some p, info_publisher := pub, info_subscriber := sub\<rparr>"
  obtain es where es: "participant_destruction_SetGuid D removal ?g m1 = m1\<lparr>event_store := es\<rparr>"
    by (rule SetGuid_frame)
  let ?m = "m1\<lparr>event_store := es\<rparr>"
  have "manager_ok ?m" using m1(2) by simp
  then obtain em where em: "setParticipantInfo ?g ?info ?m = ?m\<lparr>entity_map := em\<rparr>" "map_ok em"
    "\<And>h. map_find h em = (if h = ?g then Some ?info else map_find h (entity_map ?m))"
    by (rule setParticipantInfo_effect) blast
  have "participant_creation D dbg qos r removal (m, w) = Inr (?g, m1\<lparr>event_store := es, entity_map := em\<rparr>, w3)"
    by (simp add: participant_creation_def created pub sub m1(1) es em(1))
  then show ?thesis
    using m1 es em by (intro exI [of _ m1] exI [of _ es] exI [of _ em] exI [of _ w3] exI [of _ ?info]) simp
qed

theorem participant_creation_registers:
  assumes ok: "manager_ok m" and created: "create_participant D qos w = (Some p, w1)"
    and fresh: "first_registered (dds_guid D p) m = None"
  shows "\<exists>m' w'. participant_creation D dbg qos r removal (m, w) = Inr (dds_guid D p, m', w')
    \<and> manager_ok m' \<and> getParticipant (dds_guid D p) m' = Some p \<and> state m' = state m
    \<and> (case r of Server_Role \<Rightarrow> map_find (dds_guid D p) (servers m')
       | Client_Role \<Rightarrow> map_find (dds_guid D p) (clients m')
       | Simple_Role \<Rightarrow> map_find (dds_guid D p) (simples m')) = Some p"
proof -
  obtain m1 es em w2 info where run:
    "participant_creation D dbg qos r removal (m, w) = Inr (dds_guid D p, m1\<lparr>event_store := es, entity_map := em\<rparr>, w2)"
    and m1: "add_role r D dbg p m = Inr m1"
    and "m1\<lparr>event_store := es\<rparr> = participant_destruction_SetGuid D removal (dds_guid D p) m1"
    and em: "map_ok em" "\<forall>h. map_find h em = (if h = dds_guid D p then Some info else map_find h (entity_map m))"
      "info_participant info = Some p" and ok1: "manager_ok m1"
    using participant_creation_effect [OF assms, of dbg r removal] by blast
  have "state m1 = state m" using m1
    by (cases r) (auto simp: add_role_def addServer_def addClient_def addSimple_def)
  moreover have "(case r of Server_Role \<Rightarrow> map_find (dds_guid D p) (servers m1)
       | Client_Role \<Rightarrow> map_find (dds_guid D p) (clients m1)
       | Simple_Role \<Rightarrow> map_find (dds_guid D p) (simples m1)) = Some p"
    using m1 manager_okD [OF ok]
    by (cases r) (auto simp: add_role_def addServer_def addClient_def addSimple_def std_map.find_assign)
  moreover have "manager_ok (m1\<lparr>event_store := es, entity_map := em\<rparr>)"
    using ok1 em(1) by (simp add: manager_ok_def)
  ultimately show ?thesis using run em by (auto simp: getParticipant_eq split: role.split)
qed

theorem participant_creation_null:
  assumes "create_participant D qos w = (None, w')"
  shows "participant_creation D dbg qos r removal (m, w) = Inl Null_Dereference"
  using assms by (simp add: participant_creation_def)

text \<open>The event that will remove the participant learns the GUID it was given.\<close>

theorem participant_creation_links_removal:
  assumes ok: "manager_ok m" and created: "create_participant D qos w = (Some p, w1)"
    and fresh: "first_registered (dds_guid D p) m = None" and known: "dds_guid D p \<noteq> guid_unknown D"
    and link: "event_store m a = Some e" "event_action e = DelayedParticipantDestruction g"
  shows "\<exists>m' w'. participant_creation D dbg qos r (Some a) (m, w) = Inr (dds_guid D p, m', w')
    \<and> event_store m' = (event_store m)(a \<mapsto> e\<lparr>event_action := DelayedParticipantDestruction (dds_guid D p)\<rparr>)"
proof -
  obtain m1 es em w2 info where run:
    "participant_creation D dbg qos r (Some a) (m, w) = Inr (dds_guid D p, m1\<lparr>event_store := es, entity_map := em\<rparr>, w2)"
    and m1: "add_role r D dbg p m = Inr m1"
    and es: "m1\<lparr>event_store := es\<rparr> = participant_destruction_SetGuid D (Some a) (dds_guid D p) m1"
    and "map_ok em" "\<forall>h. map_find h em = (if h = dds_guid D p then Some info else map_find h (entity_map m))"
      "info_participant info = Some p" "manager_ok m1"
    using participant_creation_effect [OF ok created fresh, of dbg r "Some a"] by blast
  have "event_store m1 = event_store m" using m1
    by (cases r) (auto simp: add_role_def addServer_def addClient_def addSimple_def)
  then have "es = (event_store m)(a \<mapsto> e\<lparr>event_action := DelayedParticipantDestruction (dds_guid D p)\<rparr>)"
    using arg_cong [OF es, of event_store] link known by (simp add: participant_destruction_SetGuid_def)
  with run show ?thesis by simp
qed

lemma first_registered_removed:
  assumes ok: "manager_ok m"
    and one: "length (filter (\<lambda>ps. map_find g ps \<noteq> None) [clients m, servers m, simples m]) \<le> 1"
  shows "first_registered h (snd (removeParticipant D g m)) = (if h = g then None else first_registered h m)"
  using one manager_okD [OF ok]
  by (auto simp: removeParticipant_def Let_def first_registered_def split_beta std_map.find_erase
      split: option.splits if_splits)

text \<open>
  C29: Creating a participant and destroying it again leaves every other participant registered as
  it was and no trace of its GUID.
\<close>

theorem participant_lifecycle:
  assumes ok: "manager_ok m" and created: "create_participant D qos w = (Some p, w1)"
    and fresh: "first_registered (dds_guid D p) m = None"
    and run: "participant_creation D dbg qos r removal (m, w) = Inr (g, m', w')"
    and over: "participant_destruction D g (m', w') = (m'', w'')"
  shows "g = dds_guid D p \<and> getParticipant g m'' = None
    \<and> (\<forall>h. h \<noteq> g \<longrightarrow> getParticipant h m'' = getParticipant h m)
    \<and> lookup_item (databases (state m'')) g = None"
proof -
  obtain m1 es em w2 info where run':
    "participant_creation D dbg qos r removal (m, w) = Inr (dds_guid D p, m1\<lparr>event_store := es, entity_map := em\<rparr>, w2)"
    and m1: "add_role r D dbg p m = Inr m1"
    and em: "map_ok em" "\<forall>h. map_find h em = (if h = dds_guid D p then Some info else map_find h (entity_map m))"
    and ok1: "manager_ok m1"
    using participant_creation_effect [OF ok created fresh, of dbg r removal] by blast
  have g: "g = dds_guid D p" and m': "m' = m1\<lparr>event_store := es, entity_map := em\<rparr>" and "w' = w2"
    using run run' by simp_all
  obtain m1' where "add_role r D dbg p m = Inr m1'"
    and regs: "first_registered g m1' = Some p" "\<And>h. h \<noteq> g \<Longrightarrow> first_registered h m1' = first_registered h m"
      "length (filter (\<lambda>ps. map_find g ps \<noteq> None) [clients m1', servers m1', simples m1']) = 1"
    unfolding g by (rule add_role_effect [OF ok fresh, where dbg = dbg and r = r]) blast
  then have "m1' = m1" using m1 by simp
  note regs = regs [unfolded this]
  have regs': "first_registered g m' = Some p" "\<And>h. h \<noteq> g \<Longrightarrow> first_registered h m' = first_registered h m"
      "length (filter (\<lambda>ps. map_find g ps \<noteq> None) [clients m', servers m', simples m']) \<le> 1"
    using regs by (simp_all add: m')
  have ok': "manager_ok m'" using ok1 em(1) by (simp add: m' manager_ok_def)
  define m2 where "m2 = snd (removeParticipant D g m')"
  have m2: "removeParticipant D g m' = (Some p, m2)" "entity_map m2 = em"
      "lookup_item (databases (state m2)) g = None"
    using removeParticipant_forgets_aux [OF ok' prod.collapse [symmetric], of D g] regs'(1)
    by (simp_all add: m2_def prod_eq_iff m')
  have m'': "m'' = m2\<lparr>entity_map := map_erase g (entity_map m2)\<rparr>"
    using over m2(1) by (auto simp: participant_destruction_def deleteParticipant_def Let_def split_beta g)
  have "first_registered h m2 = (if h = g then None else first_registered h m')" for h
    using first_registered_removed [OF ok' regs'(3), of h D] m2(1) by simp
  then have "first_registered h m'' = (if h = g then None else first_registered h m)" for h
    using regs'(2) by (simp add: m'')
  moreover have "map_find h (entity_map m'') = (if h = g then None else map_find h (entity_map m))" for h
    using em by (simp add: m'' m2(2) std_map.find_erase g)
  ultimately show ?thesis
    using m2(3) by (simp add: g [symmetric] getParticipant_eq split: option.split) (simp add: m'')
qed

section \<open>Endpoints\<close>

lemma getPubSub_eq:
  assumes "manager_ok m"
  shows "getPubSubEntityFromParticipantGuid kind g m =
    (let info = (case map_find g (entity_map m) of None \<Rightarrow> blank_info | Some i \<Rightarrow> i)
     in (case kind of Writer_Kind \<Rightarrow> info_publisher info | Reader_Kind \<Rightarrow> info_subscriber info,
         m\<lparr>entity_map := std_put fst (g, blank_info) (entity_map m)\<rparr>))"
  using manager_okD(4) [OF assms]
  by (simp add: getPubSubEntityFromParticipantGuid_def entity_index_eq Let_def)

theorem endpoint_creation_orphan:
  assumes ok: "manager_ok m" and orphan: "getParticipant g m = None"
  shows "\<exists>m'. endpoint_creation D dbg kind tn ty tp ep g link None (m, w) = Inr (m', w)
    \<and> manager_ok m' \<and> m' = m\<lparr>entity_map := entity_map m'\<rparr> \<and> (\<forall>h. getParticipant h m' = getParticipant h m)"
proof -
  let ?m = "m\<lparr>entity_map := std_put fst (g, blank_info) (entity_map m)\<rparr>"
  have "endpoint_creation D dbg kind tn ty tp ep g link None (m, w) = Inr (?m, w)"
    by (simp add: endpoint_creation_def orphan getPubSub_eq [OF ok] Let_def)
  moreover have "manager_ok ?m" using ok by (simp add: manager_ok_def std_ok_put)
  moreover have "getParticipant h ?m = getParticipant h m" for h
    using orphan manager_okD(4) [OF ok]
    by (auto simp: getParticipant_eq map_find_put first_registered_def blank_info_def split: option.splits)
  ultimately show ?thesis by auto
qed


text \<open>
  A late client whose GUID was unknown when its configuration was read: the participant is found
  through its creation event, but the publisher or subscriber is looked up under the old GUID.
\<close>

text \<open>
  C40: An endpoint of a late client whose GUID was unknown when it was configured ends in a null
  pointer: its participant is found through the creation event, its publisher or subscriber is
  looked up under the old GUID.
\<close>

theorem endpoint_creation_late_owner:
  assumes ok: "manager_ok m" and unknown: "map_find g (entity_map m) = None" "first_registered g m = None"
    and owner: "creation_guid a m = Some o'" "getParticipant o' m = Some part" "o' \<noteq> g"
  shows "endpoint_creation D dbg kind tn ty tp ep g link (Some a) (m, w) = Inl Null_Dereference"
proof -
  let ?m = "m\<lparr>entity_map := std_put fst (g, blank_info) (entity_map m)\<rparr>"
  have "creation_guid a ?m = Some o'" using owner(1) by (simp add: creation_guid_def)
  moreover have "getParticipant o' ?m = Some part"
    using owner(2,3) manager_okD(4) [OF ok]
    by (auto simp: getParticipant_eq map_find_put first_registered_def split: option.splits)
  moreover have "getParticipant g m = None" using unknown by (simp add: getParticipant_eq)
  ultimately show ?thesis
    using unknown(1)
    by (cases kind) (simp_all add: endpoint_creation_def getPubSub_eq [OF ok] Let_def split_beta
        createEndpoint_def blank_info_def)
qed

lemma topic_frame:
  assumes ok: "manager_ok m"
  shows "\<exists>em. snd (getParticipantTopicByName D p name m) = m\<lparr>entity_map := em\<rparr> \<and> map_ok em"
    and "\<exists>em. setParticipantTopic D p t m = m\<lparr>entity_map := em\<rparr> \<and> map_ok em"
    and "\<exists>em. setDomainEntityTopic kind D p t m = m\<lparr>entity_map := em\<rparr> \<and> map_ok em"
proof -
  have em: "map_ok (entity_map m)" using ok by (rule manager_okD)
  have assign: "\<exists>em. entity_assign g f m = m\<lparr>entity_map := em\<rparr> \<and> map_ok em" for g f
    by (rule entity_assign_eq [OF em, of g f]) blast
  have same: "\<exists>em. m = m\<lparr>entity_map := em\<rparr> \<and> map_ok em" by (intro exI [of _ "entity_map m"]) (simp add: em)
  show "\<exists>em. snd (getParticipantTopicByName D p name m) = m\<lparr>entity_map := em\<rparr> \<and> map_ok em"
    using assign same by (auto simp: getParticipantTopicByName_def Let_def split: option.split)
  show "\<exists>em. setParticipantTopic D p t m = m\<lparr>entity_map := em\<rparr> \<and> map_ok em"
    using assign same by (auto simp: setParticipantTopic_def split: option.split)
  show "\<exists>em. setDomainEntityTopic kind D p t m = m\<lparr>entity_map := em\<rparr> \<and> map_ok em"
    using assign same by (auto simp: setDomainEntityTopic_def split: option.split)
qed

lemma manager_ok_entities: "manager_ok m \<Longrightarrow> map_ok em \<Longrightarrow> manager_ok (m\<lparr>entity_map := em\<rparr>)"
  by (simp add: manager_ok_def)

lemma endpoint_topic_frame:
  assumes ok: "manager_ok m"
  shows "\<exists>t em w'. endpoint_topic D part tn ty tp (m, w) = (t, m\<lparr>entity_map := em\<rparr>, w') \<and> map_ok em"
proof -
  let ?name = "if ty = ''UNDEF'' then topic_item_name default_topic_description else tn"
  obtain em where em: "snd (getParticipantTopicByName D (Some part) ?name m) = m\<lparr>entity_map := em\<rparr>" "map_ok em"
    using topic_frame(1) [OF ok] by blast
  obtain t where t: "getParticipantTopicByName D (Some part) ?name m = (t, m\<lparr>entity_map := em\<rparr>)"
    using em(1) by (metis prod.collapse)
  show ?thesis
  proof (cases t)
    case (Some x)
    then show ?thesis using t em(2) by (auto simp: endpoint_topic_def Let_def)
  next
    case None
    have "\<exists>em'. setParticipantTopic D (Some part) x (m\<lparr>entity_map := em\<rparr>) = m\<lparr>entity_map := em'\<rparr> \<and> map_ok em'" for x
      using topic_frame(2) [OF manager_ok_entities [OF ok em(2)]] by simp
    with None t show ?thesis by (simp add: endpoint_topic_def Let_def split_beta)
  qed
qed

lemma createEndpoint_total: "\<exists>e w'. createEndpoint kind D (Some ps) t ep w = Inr (e, w')"
  by (cases kind) (auto simp: createEndpoint_def prod_eq_iff)

lemma endpoint_SetGuid_commute:
  "endpoint_destruction_SetGuid D a g (m\<lparr>entity_map := em\<rparr>) =
     (endpoint_destruction_SetGuid D a g m)\<lparr>entity_map := em\<rparr>"
  by (simp add: endpoint_destruction_SetGuid_def split: option.split event_action.split)

text \<open>
  C30: In a release build, an endpoint creation event of a registered participant with its
  publisher or subscriber always returns; the endpoint that createEndpoint makes for the topic of
  the event, and no other, is registered under its GUID, its topic is recorded, and its GUID is
  made known to the linked destruction event; when createEndpoint fails, nothing is registered.
\<close>

theorem endpoint_creation_registers:
  assumes ok: "manager_ok m" and part: "getParticipant g m = Some part"
    and info: "map_find g (entity_map m) = Some info"
    and ps: "(case kind of Writer_Kind \<Rightarrow> info_publisher info | Reader_Kind \<Rightarrow> info_subscriber info) = Some ps"
  shows "\<exists>m' w' t em w1 e.
      endpoint_topic D part tn ty tp (m, register_type D part w) = (t, m\<lparr>entity_map := em\<rparr>, w1)
    \<and> createEndpoint kind D (Some ps) t ep w1 = Inr (e, w')
    \<and> endpoint_creation D False kind tn ty tp ep g link owner (m, w) = Inr (m', w')
    \<and> manager_ok m' \<and> state m' = state m \<and> servers m' = servers m \<and> clients m' = clients m
    \<and> entity_map m' = entity_map (setDomainEntityTopic kind D e t (m\<lparr>entity_map := em\<rparr>))
    \<and> data_readers m' = (case (kind, e) of (Reader_Kind, Some d) \<Rightarrow> map_assign (dds_guid D d) d (data_readers m)
        | _ \<Rightarrow> data_readers m)
    \<and> data_writers m' = (case (kind, e) of (Writer_Kind, Some d) \<Rightarrow> map_assign (dds_guid D d) d (data_writers m)
        | _ \<Rightarrow> data_writers m)
    \<and> event_store m' = (case e of None \<Rightarrow> event_store m
        | Some d \<Rightarrow> event_store (endpoint_destruction_SetGuid D link (dds_guid D d) m))"
proof -
  have put: "std_put fst (g, blank_info) (entity_map m) = entity_map m"
    using info manager_okD(4) [OF ok] by (intro std_put_found) (auto simp: map_find_def)
  have pubsub: "getPubSubEntityFromParticipantGuid kind g m = (Some ps, m)"
    using ps by (cases kind) (simp_all add: getPubSub_eq [OF ok] info put)
  let ?w = "register_type D part w"
  obtain t em w1 where topic: "endpoint_topic D part tn ty tp (m, ?w) = (t, m\<lparr>entity_map := em\<rparr>, w1)"
      "map_ok em"
    using endpoint_topic_frame [OF ok, of D part tn ty tp ?w] by blast
  obtain e w2 where e: "createEndpoint kind D (Some ps) t ep w1 = Inr (e, w2)"
    using createEndpoint_total [of kind D ps t ep w1] by blast
  obtain em' where em': "setDomainEntityTopic kind D e t (m\<lparr>entity_map := em\<rparr>) = m\<lparr>entity_map := em'\<rparr>" "map_ok em'"
    using topic_frame(3) [OF manager_ok_entities [OF ok topic(2)], of kind D e t] by auto
  have run: "endpoint_creation D False kind tn ty tp ep g link owner (m, w) =
      (case e of None \<Rightarrow> Inr (m\<lparr>entity_map := em'\<rparr>, w2)
       | Some d \<Rightarrow> bind_run (add_endpoint kind D False (Some d)
            (endpoint_destruction_SetGuid D link (dds_guid D d) (m\<lparr>entity_map := em'\<rparr>))) (\<lambda>m. Inr (m, w2)))"
    using em'(1) by (cases e) (simp_all add: endpoint_creation_def pubsub part topic e Let_def)
  have "\<exists>m'. endpoint_creation D False kind tn ty tp ep g link owner (m, w) = Inr (m', w2)
    \<and> manager_ok m' \<and> state m' = state m \<and> servers m' = servers m \<and> clients m' = clients m
    \<and> entity_map m' = em'
    \<and> data_readers m' = (case (kind, e) of (Reader_Kind, Some d) \<Rightarrow> map_assign (dds_guid D d) d (data_readers m)
        | _ \<Rightarrow> data_readers m)
    \<and> data_writers m' = (case (kind, e) of (Writer_Kind, Some d) \<Rightarrow> map_assign (dds_guid D d) d (data_writers m)
        | _ \<Rightarrow> data_writers m)
    \<and> event_store m' = (case e of None \<Rightarrow> event_store m
        | Some d \<Rightarrow> event_store (endpoint_destruction_SetGuid D link (dds_guid D d) m))"
  proof (cases e)
    case None
    then show ?thesis
      using run manager_ok_entities [OF ok em'(2)] by (cases kind) auto
  next
    case (Some d)
    obtain es where es: "endpoint_destruction_SetGuid D link (dds_guid D d) m = m\<lparr>event_store := es\<rparr>"
      by (rule endpoint_SetGuid_frame)
    have es': "endpoint_destruction_SetGuid D link (dds_guid D d) (m\<lparr>entity_map := em'\<rparr>) =
        m\<lparr>entity_map := em', event_store := es\<rparr>"
      using endpoint_SetGuid_commute [of D link "dds_guid D d" em' m] es by simp
    have ok': "manager_ok (m\<lparr>entity_map := em', event_store := es\<rparr>)"
      using manager_ok_entities [OF ok em'(2)] by simp
    let ?m = "m\<lparr>entity_map := em', event_store := es\<rparr>"
    obtain m' where m': "add_endpoint kind D False (Some d) ?m = Inr m'"
      by (cases kind) (simp_all add: add_endpoint_def addDataReader_def addDataWriter_def)
    then have "manager_ok m'" using ok' by (cases kind) (auto simp: add_endpoint_def intro: ok_add)
    with m' show ?thesis
      using Some run es es'
      by (cases kind) (auto simp: add_endpoint_def addDataReader_def addDataWriter_def)
  qed
  moreover have "entity_map (setDomainEntityTopic kind D e t (m\<lparr>entity_map := em\<rparr>)) = em'"
    using em'(1) by simp
  ultimately show ?thesis using topic(1) e by (elim exE conjE, intro exI conjI) (assumption | simp)+
qed

text \<open>A second endpoint on the same topic uses the topic object of the first.\<close>

lemma entity_assign_found:
  assumes "map_ok (entity_map m)" "map_find g (entity_map m) = Some i"
  obtains em where "entity_assign g f m = m\<lparr>entity_map := em\<rparr>" "map_ok em" "map_find g em = Some (f i)"
proof -
  obtain em where em: "entity_assign g f m = m\<lparr>entity_map := em\<rparr>" "map_ok em"
    "\<And>h. map_find h em = (if h = g
       then Some (f (case map_find g (entity_map m) of None \<Rightarrow> blank_info | Some i \<Rightarrow> i))
       else map_find h (entity_map m))"
    using assms(1) by (rule entity_assign_eq [of m g f]) blast
  have "map_find g em = Some (f i)" using em(3) [of g] assms(2) by simp
  with em(1,2) show thesis by (rule that)
qed

lemma getParticipantTopicByName_found:
  assumes "map_ok (entity_map m)" "map_find (dds_guid D p) (entity_map m) = Some i"
    and t: "t = (case registeredTopics i name of None \<Rightarrow> None | Some t \<Rightarrow> t)"
  obtains em where "getParticipantTopicByName D (Some p) name m = (t, m\<lparr>entity_map := em\<rparr>)" "map_ok em"
    "map_find (dds_guid D p) em = Some (registeredTopics_update (\<lambda>ts. ts(name \<mapsto> t)) i)"
proof -
  obtain em where em: "entity_assign (dds_guid D p) (registeredTopics_update (\<lambda>ts. ts(name \<mapsto> t))) m = m\<lparr>entity_map := em\<rparr>"
      "map_ok em" "map_find (dds_guid D p) em = Some (registeredTopics_update (\<lambda>ts. ts(name \<mapsto> t)) i)"
    by (rule entity_assign_found [OF assms(1,2)])
  have "getParticipantTopicByName D (Some p) name m = (t, m\<lparr>entity_map := em\<rparr>)"
    using em(1) assms(2) t by (simp add: getParticipantTopicByName_def Let_def)
  then show thesis using em(2,3) by (rule that)
qed

lemma endpoint_topic_records:
  assumes ok: "manager_ok m" and known: "map_find (dds_guid D part) (entity_map m) = Some i"
    and first: "endpoint_topic D part tn ty tp (m, w) = (Some t, m1, w1)"
    and n: "n = (if ty = ''UNDEF'' then topic_item_name default_topic_description else tn)"
    and name: "dds_name D t = n"
  obtains j where "map_ok (entity_map m1)" "map_find (dds_guid D part) (entity_map m1) = Some j"
    "registeredTopics j n = Some (Some t)"
proof -
  let ?g = "dds_guid D part"
  define x where "x = (case registeredTopics i n of None \<Rightarrow> None | Some t \<Rightarrow> t)"
  obtain em where em: "getParticipantTopicByName D (Some part) n m = (x, m\<lparr>entity_map := em\<rparr>)" "map_ok em"
    "map_find ?g em = Some (registeredTopics_update (\<lambda>ts. ts(n \<mapsto> x)) i)"
    by (rule getParticipantTopicByName_found [OF manager_okD(4) [OF ok] known x_def])
  show thesis
  proof (cases x)
    case (Some y)
    then have "m1 = m\<lparr>entity_map := em\<rparr>" "y = t"
      using first em(1) by (simp_all add: endpoint_topic_def n [symmetric])
    with that [of "registeredTopics_update (\<lambda>ts. ts(n \<mapsto> x)) i"] em(2,3) Some show thesis by simp
  next
    case None
    then have m1: "m1 = setParticipantTopic D (Some part) (Some t) (m\<lparr>entity_map := em\<rparr>)"
      using first em(1) by (auto simp: endpoint_topic_def n [symmetric] Let_def split_beta)
    let ?i = "registeredTopics_update (\<lambda>ts. ts(n \<mapsto> x)) i"
    have ok': "map_ok (entity_map (m\<lparr>entity_map := em\<rparr>))" using em(2) by simp
    have found: "map_find ?g (entity_map (m\<lparr>entity_map := em\<rparr>)) = Some ?i" using em(3) by simp
    obtain em' where em': "entity_assign ?g (registeredTopics_update (\<lambda>ts. ts(n \<mapsto> Some t))) (m\<lparr>entity_map := em\<rparr>)
        = m\<lparr>entity_map := em\<rparr>\<lparr>entity_map := em'\<rparr>" "map_ok em'"
        "map_find ?g em' = Some (registeredTopics_update (\<lambda>ts. ts(n \<mapsto> Some t)) ?i)"
      by (rule entity_assign_found [OF ok' found])
    have "m1 = m\<lparr>entity_map := em\<rparr>\<lparr>entity_map := em'\<rparr>"
      using em'(1) em(3) name by (simp add: m1 setParticipantTopic_def)
    with that [of "registeredTopics_update (\<lambda>ts. ts(n \<mapsto> Some t)) ?i"] em'(2,3) show thesis by simp
  qed
qed

theorem endpoint_topic_reused:
  assumes ok: "manager_ok m" and known: "map_find (dds_guid D part) (entity_map m) \<noteq> None"
    and first: "endpoint_topic D part tn ty tp (m, w) = (Some t, m1, w1)"
    and name: "dds_name D t = (if ty = ''UNDEF'' then topic_item_name default_topic_description else tn)"
  shows "\<exists>m2. endpoint_topic D part tn ty tp' (m1, w2) = (Some t, m2, w2)"
proof -
  obtain i where i: "map_find (dds_guid D part) (entity_map m) = Some i" using known by auto
  let ?n = "if ty = ''UNDEF'' then topic_item_name default_topic_description else tn"
  obtain j where j: "map_ok (entity_map m1)" "map_find (dds_guid D part) (entity_map m1) = Some j"
    "registeredTopics j ?n = Some (Some t)"
    by (rule endpoint_topic_records [OF ok i first refl name])
  obtain em where "getParticipantTopicByName D (Some part) ?n m1 = (Some t, m1\<lparr>entity_map := em\<rparr>)"
    by (rule getParticipantTopicByName_found [OF j(1,2), where t = "Some t" and name = ?n]) (simp add: j(3))
  then show ?thesis by (simp add: endpoint_topic_def)
qed

theorem endpoint_destruction_removes:
  assumes ok: "manager_ok m" and d: "getDataReader g m = Some d"
    and info: "map_find (dds_guid D (dds_owner D d)) (entity_map m) = Some i" "info_subscriber i = Some sub"
  shows "\<exists>m'. endpoint_destruction D Reader_Kind g (m, w) = (m', snd (delete_datareader D sub d w))
    \<and> getDataReader g m' = None \<and> (\<forall>h. h \<noteq> g \<longrightarrow> getDataReader h m' = getDataReader h m)"
proof -
  have ok': "map_ok (entity_map m)" "map_ok (data_readers m)" using ok by (rule manager_okD)+
  have found: "map_find g (data_readers m) = Some d" using d by (simp add: getDataReader_def)
  let ?m = "m\<lparr>data_readers := map_erase g (data_readers m)\<rparr>"
  have "\<exists>em. entity_index (dds_guid D (dds_owner D d)) ?m = (i, ?m\<lparr>entity_map := em\<rparr>)"
    using ok'(1) info(1) by (auto simp: entity_index_eq)
  then show ?thesis
    using found info(2) ok'(2)
    by (auto simp: endpoint_destruction_def retrieve_endpoint_def removeSubscriber_def remove_endpoint_def
        deleteDataReader_def getDataReader_def Let_def split_beta std_map.find_erase)
qed

section \<open>Instances\<close>

text \<open>
  Client \<open>2\<close> has its publisher and its subscriber, reader \<open>21\<close> and four events: a snapshot at 50, the
  removal of the client at 40, a snapshot at 20 and a creation at 30 that has run and made participant \<open>2\<close>.
\<close>

definition late_manager :: "(nat, nat, nat, unit) Manager" where
  "late_manager = sample_manager
     \<lparr>entity_map := [(1, blank_info\<lparr>info_participant := Some 1\<rparr>),
        (2, blank_info\<lparr>info_participant := Some 2, info_publisher := Some 102, info_subscriber := Some 202\<rparr>)],
      events := [7, 8, 9],
      event_store := [7 \<mapsto> \<lparr>event_time = 50, event_action = DelayedSnapshot ''last'' True False\<rparr>,
                      8 \<mapsto> \<lparr>event_time = 40, event_action = DelayedParticipantDestruction 2\<rparr>,
                      9 \<mapsto> \<lparr>event_time = 20, event_action = DelayedSnapshot ''first'' True True\<rparr>,
                      10 \<mapsto> \<lparr>event_time = 30, event_action = DelayedParticipantCreation 2 Client_Role None 2\<rparr>]\<rparr>"

lemma late_manager_ok: "manager_ok late_manager"
  by (simp add: manager_ok_def late_manager_def sample_manager_def new_manager_def db_inv_new)

lemma late_fields:
  "map_find 2 (entity_map late_manager) =
     Some (blank_info\<lparr>info_participant := Some 2, info_publisher := Some 102, info_subscriber := Some 202\<rparr>)"
  "map_find 3 (entity_map late_manager) = None" "first_registered 3 late_manager = None"
  "getParticipant 2 late_manager = Some 2" "creation_guid 10 late_manager = Some 2"
  "getDataReader 21 late_manager = Some 21"
  by (simp_all add: late_manager_def sample_manager_def new_manager_def map_find_def first_registered_def
      getParticipant_eq creation_guid_def getDataReader_def)

lemma sample_creates: "create_participant sample_dds q w = (Some q, w)" "guid_unknown sample_dds = 0"
  by (simp_all add: sample_dds_def)

theorem participant_creation_registers_witness:
  "\<exists>m' w'. participant_creation sample_dds True 3 Server_Role None (late_manager, []) = Inr (3, m', w')
    \<and> getParticipant 3 m' = Some 3 \<and> map_find 3 (servers m') = Some 3"
  using participant_creation_registers [OF late_manager_ok sample_creates(1), of 3 True Server_Role None "[]"]
    late_fields(3) by auto

theorem participant_creation_null_witness:
  "participant_creation (sample_dds\<lparr>create_participant := \<lambda>q w. (None, w)\<rparr>) True 3 Client_Role None
     (late_manager, []) = Inl Null_Dereference"
  by (rule participant_creation_null) simp

theorem participant_creation_links_removal_witness:
  "\<exists>m' w'. participant_creation sample_dds True 3 Simple_Role (Some 8) (late_manager, []) = Inr (3, m', w')
    \<and> event_store m' 8 = Some \<lparr>event_time = 40, event_action = DelayedParticipantDestruction 3\<rparr>"
proof -
  have "event_store late_manager 8 = Some \<lparr>event_time = 40, event_action = DelayedParticipantDestruction 2\<rparr>"
    by (simp add: late_manager_def)
  from participant_creation_links_removal [OF late_manager_ok sample_creates(1) _ _ this, of 3 2 True Simple_Role "[]"]
  show ?thesis using late_fields(3) by (auto simp: sample_creates)
qed

theorem participant_lifecycle_witness:
  "\<exists>m'' w''. getParticipant 3 m'' = None \<and> getParticipant 2 m'' = Some 2 \<and> lookup_item (databases (state m'')) 3 = None
     \<and> (\<exists>m' w'. participant_creation sample_dds True 3 Client_Role None (late_manager, []) = Inr (3, m', w')
          \<and> participant_destruction sample_dds 3 (m', w') = (m'', w''))"
proof -
  have fresh: "first_registered (dds_guid sample_dds 3) late_manager = None" using late_fields(3) by simp
  obtain m' w' where run: "participant_creation sample_dds True 3 Client_Role None (late_manager, []) = Inr (3, m', w')"
    using participant_creation_effect [OF late_manager_ok sample_creates(1) fresh, of True Client_Role None "[]"]
    by auto
  obtain m'' w'' where over: "participant_destruction sample_dds 3 (m', w') = (m'', w'')" by (metis prod.collapse)
  show ?thesis
    using participant_lifecycle [OF late_manager_ok sample_creates(1) fresh run over] run over late_fields(4)
    by (intro exI [of _ m''] exI [of _ w'']) auto
qed

theorem endpoint_creation_registers_witness:
  "\<exists>m' w' t em w1 e. endpoint_creation sample_dds False Reader_Kind ''t'' ''T'' ''tp'' ''ep'' 2 None None (late_manager, []) = Inr (m', w')
    \<and> createEndpoint Reader_Kind sample_dds (Some 202) t ''ep'' w1 = Inr (e, w')
    \<and> manager_ok m' \<and> data_readers m' = (case e of Some d \<Rightarrow> map_assign d d (data_readers late_manager)
        | None \<Rightarrow> data_readers late_manager)"
proof -
  have "(case Reader_Kind of Writer_Kind \<Rightarrow> info_publisher (blank_info\<lparr>info_participant := Some 2,
      info_publisher := Some (102::nat), info_subscriber := Some 202\<rparr>)
    | Reader_Kind \<Rightarrow> info_subscriber (blank_info\<lparr>info_participant := Some 2,
      info_publisher := Some 102, info_subscriber := Some 202\<rparr>)) = Some 202" by simp
  from endpoint_creation_registers [OF late_manager_ok late_fields(4,1) this,
      of sample_dds "''t''" "''T''" "''tp''" "[]" "''ep''" None None]
  show ?thesis by (elim exE conjE, intro exI conjI) (assumption | simp split: option.splits)+
qed

theorem endpoint_creation_late_owner_witness:
  "endpoint_creation sample_dds True Writer_Kind ''t'' ''T'' ''tp'' ''ep'' 3 None (Some 10) (late_manager, [])
     = Inl Null_Dereference"
  by (rule endpoint_creation_late_owner [OF late_manager_ok late_fields(2,3,5,4)]) simp

theorem endpoint_topic_reused_witness:
  "\<exists>m1 m2. endpoint_topic sample_dds 2 ''p'' ''T'' ''tp'' (late_manager, []) = (Some 301, m1, [])
     \<and> endpoint_topic sample_dds 2 ''p'' ''T'' ''other'' (m1, []) = (Some 301, m2, [])"
proof -
  have "\<exists>m1. endpoint_topic sample_dds 2 ''p'' ''T'' ''tp'' (late_manager, []) = (Some 301, m1, [])"
  proof -
    have x: "None = (case registeredTopics (blank_info\<lparr>info_participant := Some 2, info_publisher := Some (102::nat),
        info_subscriber := Some 202\<rparr>) ''p'' of None \<Rightarrow> None | Some t \<Rightarrow> t)"
      by (simp add: blank_info_def)
    have found: "map_find (dds_guid sample_dds 2) (entity_map late_manager) =
       Some (blank_info\<lparr>info_participant := Some 2, info_publisher := Some 102, info_subscriber := Some 202\<rparr>)"
      using late_fields(1) by simp
    show ?thesis
      by (rule getParticipantTopicByName_found [OF manager_okD(4) [OF late_manager_ok] found x])
        (simp add: endpoint_topic_def, simp add: sample_dds_def)
  qed
  then obtain m1 where m1: "endpoint_topic sample_dds 2 ''p'' ''T'' ''tp'' (late_manager, []) = (Some 301, m1, [])" ..
  have "\<exists>m2. endpoint_topic sample_dds 2 ''p'' ''T'' ''other'' (m1, []) = (Some 301, m2, [])"
    by (rule endpoint_topic_reused [OF late_manager_ok _ m1]) (simp_all add: late_fields(1))
  with m1 show ?thesis by blast
qed

theorem endpoint_destruction_removes_witness:
  "\<exists>m'. endpoint_destruction sample_dds Reader_Kind 21 (late_manager, []) = (m', [])
    \<and> getDataReader 21 m' = None \<and> getDataReader 31 m' = getDataReader 31 late_manager"
proof -
  have "map_find (dds_guid sample_dds (dds_owner sample_dds 21)) (entity_map late_manager) =
     Some (blank_info\<lparr>info_participant := Some 2, info_publisher := Some 102, info_subscriber := Some 202\<rparr>)"
    using late_fields(1) by simp
  from endpoint_destruction_removes [OF late_manager_ok late_fields(6) this, of 202 "[]"] show ?thesis
    by (auto simp: sample_dds_def)
qed


end
