(* ===== verification/Event_Schedule.thy ===== *)
theory Event_Schedule
  imports Late_Joiner_Contract
begin

text \<open>
  What the operations of the manager leave alone: the schedule - the time and the kind of every event
  object, its links, the QoS or the GUID it was given and, for a snapshot, its settings - the vector of events and the snapshots.
\<close>

section \<open>The schedule\<close>

datatype ('g, 'q) event_shape =
    Makes_Participant "address option" 'q
  | Removes_Participant
  | Makes_Endpoint endpoint_kind "address option" "address option" 'g
  | Removes_Endpoint endpoint_kind
  | Takes_Snapshot string bool bool
  | Sets_Variable

fun shape :: "('g, 'q) event_action \<Rightarrow> ('g, 'q) event_shape" where
  "shape (DelayedParticipantCreation q r removal g) = Makes_Participant removal q"
| "shape (DelayedParticipantDestruction g) = Removes_Participant"
| "shape (DelayedEndpointCreation k tn ty tp ep g link owner) = Makes_Endpoint k link owner g"
| "shape (DelayedEndpointDestruction k g) = Removes_Endpoint k"
| "shape (DelayedSnapshot desc sm lv) = Takes_Snapshot desc sm lv"
| "shape (DelayedEnvironmentModification key val) = Sets_Variable"

definition schedule :: "('g, 'd, 'q, 'l) Manager \<Rightarrow> address \<Rightarrow> (time_point \<times> ('g, 'q) event_shape) option" where
  "schedule m a = map_option (\<lambda>e. (event_time e, shape (event_action e))) (event_store m a)"

text \<open>The snapshot an event asks for, if any.\<close>

definition wants_snapshot :: "('g, 'd, 'q, 'l) Manager \<Rightarrow> address \<Rightarrow> (string \<times> bool \<times> bool) option" where
  "wants_snapshot m a =
     (case schedule m a of Some (t, Takes_Snapshot desc sm lv) \<Rightarrow> Some (desc, sm, lv) | _ \<Rightarrow> None)"

definition taken :: "'g Snapshot \<Rightarrow> string \<times> bool \<times> bool" where
  "taken s = (description s, if_someone s, show_liveliness s)"

section \<open>Quiet and still steps\<close>

text \<open>
  A quiet step keeps the invariant, the schedule and the snapshots; a still one the discovery state too.
\<close>

definition quiet :: "('g::linorder, 'd, 'q, 'l) Manager \<Rightarrow> ('g, 'd, 'q, 'l) Manager \<Rightarrow> bool" where
  "quiet m m' \<longleftrightarrow> manager_ok m' \<and> schedule m' = schedule m
     \<and> snapshots m' = snapshots m \<and> events m' = events m"

definition still :: "('g::linorder, 'd, 'q, 'l) Manager \<Rightarrow> ('g, 'd, 'q, 'l) Manager \<Rightarrow> bool" where
  "still m m' \<longleftrightarrow> quiet m m' \<and> state m' = state m
     \<and> auto_shutdown m' = auto_shutdown m \<and> snapshots_output_file m' = snapshots_output_file m
     \<and> validate m' = validate m \<and> correctly_created m' = correctly_created m"

lemmas schedule_simps = wants_snapshot_def schedule_def fun_eq_iff

lemma quietD:
  assumes "quiet m m'"
  shows "manager_ok m'" "wants_snapshot m' = wants_snapshot m" "snapshots m' = snapshots m"
    "events m' = events m" "schedule m' = schedule m"
  using assms by (simp_all add: quiet_def wants_snapshot_def fun_eq_iff)

text \<open>
  What other threads do while the main thread waits: callbacks, which change the discovery state and
  the times of the last callbacks (\<open>callbacks_heard\<close> below).
\<close>

definition heard :: "('g::linorder, 'd, 'q, 'l) Manager \<Rightarrow> ('g, 'd, 'q, 'l) Manager \<Rightarrow> bool" where
  "heard m m' \<longleftrightarrow> m' = m\<lparr>state := state m', last_PDP := last_PDP m', last_EDP := last_EDP m'\<rparr>
     \<and> db_inv (state m')"

definition waiting_ok ::
  "(pause \<Rightarrow> ('g::linorder, 'd, 'q, 'l) Manager \<times> 'w \<Rightarrow> ('g, 'd, 'q, 'l) Manager \<times> 'w) \<Rightarrow> bool" where
  "waiting_ok waiting \<longleftrightarrow> (\<forall>p m w. manager_ok m \<longrightarrow> heard m (fst (waiting p (m, w))))"

lemma quiet_refl: "manager_ok m \<Longrightarrow> quiet m m"
  by (simp add: quiet_def)

lemma quiet_trans: "quiet m m' \<Longrightarrow> quiet m' m'' \<Longrightarrow> quiet m m''"
  by (simp add: quiet_def)

lemma quiet_ok: "quiet m m' \<Longrightarrow> manager_ok m'"
  by (simp add: quiet_def)

lemma quiet_frame:
  assumes "manager_ok m'" "event_store m' = event_store m" "snapshots m' = snapshots m" "events m' = events m"
  shows "quiet m m'"
  using assms by (simp add: quiet_def schedule_def fun_eq_iff)

lemma still_quiet: "still m m' \<Longrightarrow> quiet m m'"
  by (simp add: still_def)

lemma still_refl: "manager_ok m \<Longrightarrow> still m m"
  by (simp add: still_def quiet_refl)

lemma still_trans: "still m m' \<Longrightarrow> still m' m'' \<Longrightarrow> still m m''"
  by (auto simp: still_def intro: quiet_trans)

lemma still_ok: "still m m' \<Longrightarrow> manager_ok m'"
  by (simp add: still_def quiet_def)

lemma still_entities: "manager_ok m \<Longrightarrow> map_ok em \<Longrightarrow> still m (m\<lparr>entity_map := em\<rparr>)"
  by (auto simp: still_def manager_ok_def intro!: quiet_frame)

lemma heard_members:
  assumes "heard m m'"
  shows "event_store m' = event_store m" "snapshots m' = snapshots m" "events m' = events m"
    "validate m' = validate m" "entity_map m' = entity_map m" "servers m' = servers m" "clients m' = clients m"
    "simples m' = simples m" "data_readers m' = data_readers m" "data_writers m' = data_writers m"
  by (subst assms [unfolded heard_def, THEN conjunct1], simp)+

lemma heard_quiet:
  assumes "manager_ok m" "heard m m'"
  shows "quiet m m'"
  using assms heard_members [OF assms(2)] by (intro quiet_frame) (simp_all add: manager_ok_def heard_def)

lemma waiting_okD:
  assumes "waiting_ok waiting" "manager_ok m"
  shows "heard m (fst (waiting p (m, w)))" "quiet m (fst (waiting p (m, w)))"
  using assms heard_quiet unfolding waiting_ok_def by blast+

lemma callbacks_heard:
  assumes ok: "manager_ok m"
  shows "on_participant_discovery D dbg t now p status pinfo m = Inr m' \<Longrightarrow> heard m m'"
    and "on_data_reader_discovery D dbg t now p rreason einfo m = Inr m' \<Longrightarrow> heard m m'"
    and "on_data_writer_discovery D dbg t now p wreason einfo m = Inr m' \<Longrightarrow> heard m m'"
    and "heard m (on_liveliness_changed D sub a n m)"
  subgoal premises run
    using run manager_okD(7) [OF manager_step_ok [OF manager_step.participant_discovery [OF run] ok]]
    by (elim on_participant_discovery_cases) (simp_all add: heard_def)
  subgoal premises run
    using run manager_okD(7) [OF manager_step_ok [OF manager_step.reader_discovery [OF run] ok]]
    by (elim on_data_reader_discovery_cases) (simp_all add: heard_def)
  subgoal premises run
    using run manager_okD(7) [OF manager_step_ok [OF manager_step.writer_discovery [OF run] ok]]
    by (elim on_data_writer_discovery_cases) (simp_all add: heard_def)
  subgoal
    using manager_okD(7) [OF manager_step_ok [OF manager_step.liveliness ok]]
    by (simp add: on_liveliness_changed_def heard_def)
  done

lemma still_SetGuid:
  assumes "manager_ok m"
  shows "still m (participant_destruction_SetGuid D p g m)" "still m (endpoint_destruction_SetGuid D p g m)"
  using assms
  by (auto simp: still_def quiet_def schedule_def participant_destruction_SetGuid_def
      endpoint_destruction_SetGuid_def fun_eq_iff split: option.splits event_action.splits)

lemma still_add_role:
  assumes "manager_ok m" "add_role r D dbg p m = Inr m'"
  shows "still m m'"
  using assms
  by (cases r) (auto simp: still_def intro!: quiet_frame simp: add_role_def addServer_def addClient_def addSimple_def manager_ok_def map_ok_assign)

lemma still_add_endpoint:
  assumes "manager_ok m" "add_endpoint k D dbg d m = Inr m'"
  shows "still m m'"
  using assms
  by (cases k; cases d) (auto simp: still_def intro!: quiet_frame simp: add_endpoint_def addDataReader_def addDataWriter_def manager_ok_def map_ok_assign)

lemma still_setters:
  assumes ok: "manager_ok m"
  shows "still m (setParticipantInfo g info m)" "still m (setDomainEntityTopic k D d t m)"
    "still m (snd (getPubSubEntityFromParticipantGuid k g m))"
proof -
  show "still m (setParticipantInfo g info m)"
    by (rule setParticipantInfo_effect [OF ok, of g info]) (use still_entities [OF ok] in simp)
  obtain em where "setDomainEntityTopic k D d t m = m\<lparr>entity_map := em\<rparr>" "map_ok em"
    using topic_frame(3) [OF ok] by blast
  then show "still m (setDomainEntityTopic k D d t m)" using still_entities [OF ok] by simp
  show "still m (snd (getPubSubEntityFromParticipantGuid k g m))"
    using manager_okD(4) [OF ok] by (auto simp: getPubSub_eq [OF ok] Let_def intro!: still_entities ok std_ok_put)
qed

lemma still_participant_creation:
  assumes ok: "manager_ok m" and run: "participant_creation D dbg q r rm (m, w) = Inr (g, m', w')"
  shows "still m m'"
proof -
  obtain p w1 pub w2 sub w3 where
    p: "create_participant D q w = (Some p, w1)" and pub: "create_publisher D p w1 = (pub, w2)"
    and sub: "create_subscriber D p w2 = (sub, w3)"
    using run by (cases "create_participant D q w"; cases "fst (create_participant D q w)")
      (auto simp: participant_creation_def prod_eq_iff)
  let ?info = "blank_info\<lparr>info_participant := Some p, info_publisher := pub, info_subscriber := sub\<rparr>"
  obtain m1 where m1: "add_role r D dbg p m = Inr m1"
    and m': "m' = setParticipantInfo (dds_guid D p) ?info
        (participant_destruction_SetGuid D rm (dds_guid D p) m1)"
    using run by (auto simp: participant_creation_def p pub sub bind_run_Inr_iff Let_def)
  have q1: "still m m1" by (rule still_add_role [OF ok m1])
  have q2: "still m1 (participant_destruction_SetGuid D rm (dds_guid D p) m1)"
    by (rule still_SetGuid(1) [OF still_ok [OF q1]])
  show ?thesis unfolding m'
    by (rule still_trans [OF still_trans [OF q1 q2] still_setters(1) [OF still_ok [OF q2]]])
qed

lemma quiet_participant_destruction:
  assumes ok: "manager_ok m"
  shows "quiet m (fst (participant_destruction D g (m, w)))"
proof -
  have q: "quiet m (snd (removeParticipant D g m))"
    by (intro quiet_frame ok_removeParticipant ok)
      (simp_all add: removeParticipant_def Let_def split_beta split: option.split)
  have q': "quiet m' (fst (snd (deleteParticipant D d (m', w))))" if "manager_ok m'" for m' d
    using that by (intro quiet_frame ok_deletes)
      (simp_all add: deleteParticipant_def Let_def split_beta split: option.split)
  show ?thesis
    using q quiet_trans [OF q q' [OF quiet_ok [OF q]]]
    by (auto simp: participant_destruction_def split_beta Let_def split: option.split)
qed

lemma quiet_endpoint_destruction:
  assumes ok: "manager_ok m"
  shows "quiet m (fst (endpoint_destruction D k g (m, w)))"
proof -
  have q: "quiet m (snd (retrieve_endpoint k g m))"
    using ok ok_removeEndpoint [OF ok, of g]
    by (cases k; intro quiet_frame)
      (auto simp: retrieve_endpoint_def removeSubscriber_def removePublisher_def split: option.split)
  have q': "quiet m' (fst (snd (remove_endpoint k D d (m', w))))" if "manager_ok m'" for m' d
    using that ok_deletes [OF that, of D d w]
    by (cases k; intro quiet_frame)
      (auto simp: remove_endpoint_def deleteDataReader_def deleteDataWriter_def entity_index_def Let_def
        split_beta split: option.split)
  show ?thesis
    using q quiet_trans [OF q q' [OF quiet_ok [OF q]]]
    by (auto simp: endpoint_destruction_def split_beta Let_def split: option.split)
qed

lemma endpoint_creation_cases:
  assumes run: "endpoint_creation D dbg k tn ty tp ep g link owner (m, w) = Inr (m', w')"
  obtains (orphan) "m' = snd (getPubSubEntityFromParticipantGuid k g m)" "w' = w"
  | (created) part ps m1 t m2 w2 e where
      "getPubSubEntityFromParticipantGuid k g m = (ps, m1)"
      "endpoint_topic D part tn ty tp (m1, register_type D part w) = (t, m2, w2)"
      "createEndpoint k D ps t ep w2 = Inr (e, w')"
      "case e of None \<Rightarrow> m' = setDomainEntityTopic k D e t m2
       | Some d \<Rightarrow> add_endpoint k D dbg (Some d)
           (endpoint_destruction_SetGuid D link (dds_guid D d) (setDomainEntityTopic k D e t m2)) = Inr m'"
proof -
  obtain ps m1 where pubsub: "getPubSubEntityFromParticipantGuid k g m = (ps, m1)" by (metis prod.collapse)
  define part where "part = (case getParticipant g m of
      Some p \<Rightarrow> Some p
    | None \<Rightarrow> (case owner of None \<Rightarrow> None
         | Some a \<Rightarrow> (case creation_guid a m1 of None \<Rightarrow> None | Some h \<Rightarrow> getParticipant h m1)))"
  show thesis
  proof (cases part)
    case None
    then show thesis
      using run orphan by (simp add: endpoint_creation_def pubsub part_def [symmetric])
  next
    case (Some p)
    obtain t m2 w2 where t: "endpoint_topic D p tn ty tp (m1, register_type D p w) = (t, m2, w2)"
      by (metis prod.collapse)
    obtain e w3 where e: "createEndpoint k D ps t ep w2 = Inr (e, w3)"
      and rest: "(let m = setDomainEntityTopic k D e t m2 in case e of None \<Rightarrow> Inr (m, w3)
         | Some d \<Rightarrow> let m = endpoint_destruction_SetGuid D link (dds_guid D d) m
             in bind_run (add_endpoint k D dbg (Some d) m) (\<lambda>m. Inr (m, w3))) = Inr (m', w')"
      using run Some
      by (auto simp: endpoint_creation_def pubsub part_def [symmetric] t
          bind_run_Inr_iff [of "createEndpoint k D ps t ep w2"])
    have "w3 = w'" using rest by (auto simp: Let_def bind_run_Inr_iff split: option.splits)
    with rest created [OF pubsub t] e show thesis
      by (auto simp: Let_def bind_run_Inr_iff split: option.splits)
  qed
qed

lemma still_endpoint_creation:
  assumes ok: "manager_ok m"
    and run: "endpoint_creation D dbg k tn ty tp ep g link owner (m, w) = Inr (m', w')"
  shows "still m m'"
  using run
proof (cases rule: endpoint_creation_cases)
  case orphan
  then show ?thesis using still_setters(3) [OF ok] by simp
next
  case (created part ps m1 t m2 w2 e)
  have q1: "still m m1" using still_setters(3) [OF ok, of k g] by (simp add: created(1))
  obtain em where em: "m2 = m1\<lparr>entity_map := em\<rparr>" "map_ok em"
    using endpoint_topic_frame [OF still_ok [OF q1], of D part tn ty tp "register_type D part w"] created(2) by auto
  have q2: "still m m2" unfolding em(1) by (rule still_trans [OF q1 still_entities [OF still_ok [OF q1] em(2)]])
  have q3: "still m (setDomainEntityTopic k D e t m2)"
    by (rule still_trans [OF q2 still_setters(2) [OF still_ok [OF q2]]])
  have q4: "still m (endpoint_destruction_SetGuid D link h (setDomainEntityTopic k D e t m2))" for h
    by (rule still_trans [OF q3 still_SetGuid(2) [OF still_ok [OF q3]]])
  show ?thesis
    using created(4) q3 by (auto split: option.splits intro: still_trans [OF q4 still_add_endpoint [OF still_ok [OF q4]]])
qed

end
