(* ===== verification/Snapshot_Xml.thy ===== *)
theory Snapshot_Xml
  imports Snapshots
begin

text \<open>
  Saving and loading snapshots: \<open>Snapshot::to_xml\<close>, \<open>Snapshot::from_xml\<close>, and
  \<open>DiscoveryServerManager::saveSnapshots\<close> and \<open>loadSnapshots\<close>. The document model of tinyxml2 and the
  text form of a GUID belong to libraries: both are parameters, with what the code relies on in
  \<open>xml_laws\<close> and \<open>guid_laws\<close>. The main results: what a snapshot keeps on its way through a file,
  and that validating it afterwards gives the verdict it would have given before.
\<close>

section \<open>The libraries\<close>

text \<open>
  The values of the \<open>SetAttribute\<close> overloads and the results of the \<open>QueryAttribute\<close> family.
\<close>

datatype xml_value =
    Text_Value string
  | Int64_Value int
  | Bool_Value bool
  | Int_Value int32

datatype 'a query = XML_SUCCESS 'a | XML_NO_ATTRIBUTE | XML_WRONG_ATTRIBUTE_TYPE

text \<open>
  \<open>ChildElements n x\<close> lists what \<open>FirstChildElement (n)\<close> and then \<open>NextSiblingElement (n)\<close> visit.
\<close>

record 'x tinyxml2 =
  NewElement :: "string \<Rightarrow> 'x"
  SetAttribute :: "string \<Rightarrow> xml_value \<Rightarrow> 'x \<Rightarrow> 'x"
  SetText :: "string \<Rightarrow> 'x \<Rightarrow> 'x"
  InsertEndChild :: "'x \<Rightarrow> 'x \<Rightarrow> 'x"
  ElementName :: "'x \<Rightarrow> string"
  Attribute :: "string \<Rightarrow> 'x \<Rightarrow> string option"
  Int64Attribute :: "string \<Rightarrow> 'x \<Rightarrow> int"
  QueryBoolAttribute :: "string \<Rightarrow> 'x \<Rightarrow> bool query"
  QueryIntAttribute :: "string \<Rightarrow> 'x \<Rightarrow> int32 query"
  GetText :: "'x \<Rightarrow> string option"
  ChildElements :: "string \<Rightarrow> 'x \<Rightarrow> 'x list"

text \<open>\<open>BoolAttribute (name, defaultValue)\<close>.\<close>

definition BoolAttribute :: "'x tinyxml2 \<Rightarrow> string \<Rightarrow> bool \<Rightarrow> 'x \<Rightarrow> bool" where
  "BoolAttribute X k dflt x =
     (case QueryBoolAttribute X k x of XML_SUCCESS b \<Rightarrow> b | _ \<Rightarrow> dflt)"

text \<open>
  A GUID as the stream operators of Fast DDS write and read it, in two attributes, and the
  comparison of GUID prefixes.
\<close>

record 'g guid_text =
  show_prefix :: "'g \<Rightarrow> string"
  show_entity :: "'g \<Rightarrow> string"
  read_guid :: "string \<Rightarrow> string \<Rightarrow> 'g"
  same_prefix :: "'g \<Rightarrow> 'g \<Rightarrow> bool"

definition guid_laws :: "'g guid_text \<Rightarrow> bool" where
  "guid_laws G \<longleftrightarrow> (\<forall>g. read_guid G (show_prefix G g) (show_entity G g) = g)"

definition int64 :: "int \<Rightarrow> bool" where
  "int64 n \<longleftrightarrow> - (2 ^ 63) \<le> n \<and> n < 2 ^ 63"

definition attribute_reads ::
  "'x tinyxml2 \<Rightarrow> string \<Rightarrow> 'x \<Rightarrow> string option \<times> int \<times> bool query \<times> int32 query" where
  "attribute_reads X k x =
     (Attribute X k x, Int64Attribute X k x, QueryBoolAttribute X k x, QueryIntAttribute X k x)"

definition xml_laws :: "'x tinyxml2 \<Rightarrow> bool" where
  "xml_laws X \<longleftrightarrow>
     (\<forall>k s x. Attribute X k (SetAttribute X k (Text_Value s) x) = Some s)
   \<and> (\<forall>k n x. int64 n \<longrightarrow> Int64Attribute X k (SetAttribute X k (Int64_Value n) x) = n)
   \<and> (\<forall>k b x. QueryBoolAttribute X k (SetAttribute X k (Bool_Value b) x) = XML_SUCCESS b)
   \<and> (\<forall>k n x. QueryIntAttribute X k (SetAttribute X k (Int_Value n) x) = XML_SUCCESS n)
   \<and> (\<forall>k k' v x. k \<noteq> k' \<longrightarrow> attribute_reads X k (SetAttribute X k' v x) = attribute_reads X k x)
   \<and> (\<forall>k x c. attribute_reads X k (InsertEndChild X x c) = attribute_reads X k x)
   \<and> (\<forall>k n. QueryIntAttribute X k (NewElement X n) = XML_NO_ATTRIBUTE)
   \<and> (\<forall>t x. t \<noteq> [] \<longrightarrow> GetText X (SetText X t x) = Some t)
   \<and> (\<forall>n. ElementName X (NewElement X n) = n)
   \<and> (\<forall>k v x. ElementName X (SetAttribute X k v x) = ElementName X x)
   \<and> (\<forall>t x. ElementName X (SetText X t x) = ElementName X x)
   \<and> (\<forall>x c. ElementName X (InsertEndChild X x c) = ElementName X x)
   \<and> (\<forall>n m. ChildElements X n (NewElement X m) = [])
   \<and> (\<forall>n k v x. ChildElements X n (SetAttribute X k v x) = ChildElements X n x)
   \<and> (\<forall>n x c. ChildElements X n (InsertEndChild X x c) =
        ChildElements X n x @ (if ElementName X c = n then [c] else []))"

section \<open>Names\<close>

definition s_sDS_Snapshots :: string where "s_sDS_Snapshots = ''DS_Snapshots''"
definition s_sDS_Snapshot :: string where "s_sDS_Snapshot = ''DS_Snapshot''"
definition s_sTimestamp :: string where "s_sTimestamp = ''timestamp''"
definition s_sProcessTime :: string where "s_sProcessTime = ''process_time''"
definition s_sLastPdpCallback :: string where "s_sLastPdpCallback = ''last_pdp_callback_time''"
definition s_sLastEdpCallback :: string where "s_sLastEdpCallback = ''last_edp_callback_time''"
definition s_sSomeone :: string where "s_sSomeone = ''someone''"
definition s_sDescription :: string where "s_sDescription = ''description''"
definition s_sPtDB :: string where "s_sPtDB = ''ptdb''"
definition s_sPtDI :: string where "s_sPtDI = ''ptdi''"
definition s_sPublisher :: string where "s_sPublisher = ''publisher''"
definition s_sSubscriber :: string where "s_sSubscriber = ''subscriber''"
definition s_sGUID_prefix :: string where "s_sGUID_prefix = ''guid_prefix''"
definition s_sGUID_entity :: string where "s_sGUID_entity = ''guid_entity''"
definition s_sServer :: string where "s_sServer = ''server''"
definition s_sAlive :: string where "s_sAlive = ''alive''"
definition s_sName :: string where "s_sName = ''name''"
definition s_sTopic :: string where "s_sTopic = ''topic''"
definition s_sType :: string where "s_sType = ''type''"
definition s_sAliveCount :: string where "s_sAliveCount = ''alive_count''"
definition s_sNotAliveCount :: string where "s_sNotAliveCount = ''not_alive_count''"
definition s_sDiscovered_timestamp :: string where "s_sDiscovered_timestamp = ''discovered_timestamp''"

section \<open>Snapshot::to_xml\<close>

text \<open>
  The static members that relate the two clocks, \<open>Snapshot::_system_clock\<close> and \<open>_steady_clock\<close>; both
  clocks tick in nanoseconds, so the casts between their durations are the identity.
\<close>

record clocks =
  system_clock :: time_point
  steady_clock :: time_point

definition getSystemTime :: "clocks \<Rightarrow> time_point \<Rightarrow> time_point" where
  "getSystemTime clk tp = system_clock clk + (tp - steady_clock clk)"

definition set_guid :: "'x tinyxml2 \<Rightarrow> 'g guid_text \<Rightarrow> 'g \<Rightarrow> 'x \<Rightarrow> 'x" where
  "set_guid X G g x =
     SetAttribute X s_sGUID_entity (Text_Value (show_entity G g))
       (SetAttribute X s_sGUID_prefix (Text_Value (show_prefix G g)) x)"

definition set_endpoint ::
  "'x tinyxml2 \<Rightarrow> 'g guid_text \<Rightarrow> time_point \<Rightarrow> ('g, 'a) EndpointItem_scheme \<Rightarrow> 'x \<Rightarrow> 'x" where
  "set_endpoint X G startup e x =
     SetAttribute X s_sDiscovered_timestamp
         (Int64_Value (duration_cast_ms (discovered_timestamp e - startup)))
       (set_guid X G (endpoint_guid e)
         (SetAttribute X s_sTopic (Text_Value (topic_name e))
           (SetAttribute X s_sType (Text_Value (type_name e)) x)))"

definition datareader_to_xml ::
  "'x tinyxml2 \<Rightarrow> 'g guid_text \<Rightarrow> 'g Snapshot \<Rightarrow> 'g \<Rightarrow> 'g DataReaderDiscoveryItem \<Rightarrow> 'x" where
  "datareader_to_xml X G s owner sub =
     (let pSub = set_endpoint X G (process_startup s) sub (NewElement X s_sSubscriber)
      in if show_liveliness s \<and> same_prefix G (endpoint_guid sub) owner
         then SetAttribute X s_sNotAliveCount (Int_Value (not_alive_count sub))
                (SetAttribute X s_sAliveCount (Int_Value (alive_count sub)) pSub)
         else pSub)"

definition datawriter_to_xml ::
  "'x tinyxml2 \<Rightarrow> 'g guid_text \<Rightarrow> 'g Snapshot \<Rightarrow> 'g DataWriterDiscoveryItem \<Rightarrow> 'x" where
  "datawriter_to_xml X G s pub =
     set_endpoint X G (process_startup s) pub (NewElement X s_sPublisher)"

definition participant_to_xml ::
  "'x tinyxml2 \<Rightarrow> 'g guid_text \<Rightarrow> 'g Snapshot \<Rightarrow> 'g \<Rightarrow> 'g ParticipantDiscoveryItem \<Rightarrow> 'x" where
  "participant_to_xml X G s owner item =
     (let pPtdi = SetAttribute X s_sDiscovered_timestamp
                    (Int64_Value (duration_cast_ms (participant_timestamp item - process_startup s)))
                    (SetAttribute X s_sName (Text_Value (participant_name item))
                      (SetAttribute X s_sAlive (Bool_Value (is_alive item))
                        (SetAttribute X s_sServer (Bool_Value (is_server item))
                          (set_guid X G (endpoint_guid item) (NewElement X s_sPtDI)))));
          pPtdi = fold (\<lambda>sub x. InsertEndChild X x (datareader_to_xml X G s owner sub))
                    (datareaders item) pPtdi
      in fold (\<lambda>pub x. InsertEndChild X x (datawriter_to_xml X G s pub)) (datawriters item) pPtdi)"

definition database_to_xml ::
  "'x tinyxml2 \<Rightarrow> 'g guid_text \<Rightarrow> 'g Snapshot \<Rightarrow> 'g ParticipantDiscoveryDatabase \<Rightarrow> 'x" where
  "database_to_xml X G s db =
     fold (\<lambda>item x. InsertEndChild X x (participant_to_xml X G s (endpoint_guid db) item))
       (participants db)
       (SetAttribute X s_sName (Text_Value (db_participant_name db))
         (set_guid X G (endpoint_guid db) (NewElement X s_sPtDB)))"

definition to_xml ::
  "'x tinyxml2 \<Rightarrow> 'g guid_text \<Rightarrow> clocks \<Rightarrow> 'g Snapshot \<Rightarrow> 'x \<Rightarrow> 'x" where
  "to_xml X G clk s pRoot =
     (let root = SetAttribute X s_sTimestamp
                   (Int64_Value (duration_cast_ms (getSystemTime clk (snapshot_time s)))) pRoot;
          root = SetAttribute X s_sProcessTime
                   (Int64_Value (duration_cast_ms (snapshot_time s - process_startup s))) root;
          root = SetAttribute X s_sLastPdpCallback
                   (Int64_Value (duration_cast_ms (last_PDP_callback s - process_startup s))) root;
          root = SetAttribute X s_sLastEdpCallback
                   (Int64_Value (duration_cast_ms (last_EDP_callback s - process_startup s))) root;
          root = SetAttribute X s_sSomeone (Bool_Value (if_someone s)) root;
          root = InsertEndChild X root (SetText X (description s) (NewElement X s_sDescription))
      in fold (\<lambda>db x. InsertEndChild X x (database_to_xml X G s db)) (databases s) root)"

section \<open>Snapshot::from_xml\<close>

definition guid_from_xml :: "'x tinyxml2 \<Rightarrow> 'g guid_text \<Rightarrow> 'x \<Rightarrow> 'g run" where
  "guid_from_xml X G x =
     bind_run (std_string (Attribute X s_sGUID_prefix x)) (\<lambda>prefix.
     bind_run (std_string (Attribute X s_sGUID_entity x)) (\<lambda>entity.
     Inr (read_guid G prefix entity)))"

text \<open>The constructor arguments every endpoint is built from.\<close>

definition endpoint_from_xml ::
  "'x tinyxml2 \<Rightarrow> 'g guid_text \<Rightarrow> ('g \<Rightarrow> string \<Rightarrow> string \<Rightarrow> time_point \<Rightarrow> 'e) \<Rightarrow> time_point \<Rightarrow> 'x
    \<Rightarrow> 'e run" where
  "endpoint_from_xml X G mk startup x =
     bind_run (guid_from_xml X G x) (\<lambda>g.
     let disc_t = Int64Attribute X s_sDiscovered_timestamp x
     in bind_run (std_string (Attribute X s_sType x)) (\<lambda>type.
        bind_run (std_string (Attribute X s_sTopic x)) (\<lambda>topic.
        Inr (mk g type topic (startup + of_ms disc_t)))))"

text \<open>
  A \<open>QueryAttribute\<close> that succeeds stores the value it read. The two queries are joined by \<open>||\<close>: the
  second one is only made when the first attribute is missing.
\<close>

definition liveliness_from_xml ::
  "'x tinyxml2 \<Rightarrow> 'x \<Rightarrow> 'g DataReaderDiscoveryItem \<Rightarrow> bool \<times> 'g DataReaderDiscoveryItem" where
  "liveliness_from_xml X pSub sub =
     (case QueryIntAttribute X s_sAliveCount pSub of
        XML_SUCCESS n \<Rightarrow> (True, sub\<lparr>alive_count := n\<rparr>)
      | XML_WRONG_ATTRIBUTE_TYPE \<Rightarrow> (True, sub)
      | XML_NO_ATTRIBUTE \<Rightarrow>
          (case QueryIntAttribute X s_sNotAliveCount pSub of
             XML_SUCCESS n \<Rightarrow> (True, sub\<lparr>not_alive_count := n\<rparr>)
           | XML_WRONG_ATTRIBUTE_TYPE \<Rightarrow> (True, sub)
           | XML_NO_ATTRIBUTE \<Rightarrow> (False, sub)))"

definition datareader_from_xml ::
  "'x tinyxml2 \<Rightarrow> ('g::linorder) guid_text \<Rightarrow> time_point \<Rightarrow> 'x
    \<Rightarrow> bool \<times> 'g ParticipantDiscoveryItem \<Rightarrow> (bool \<times> 'g ParticipantDiscoveryItem) run" where
  "datareader_from_xml X G startup pSub acc =
     (let (show, item) = acc
      in bind_run (endpoint_from_xml X G new_datareader startup pSub) (\<lambda>sub.
         let (found, sub) = liveliness_from_xml X pSub sub
         in Inr (if found then True else show,
                 item\<lparr>datareaders := std_put endpoint_guid sub (datareaders item)\<rparr>)))"

definition datawriter_from_xml ::
  "'x tinyxml2 \<Rightarrow> ('g::linorder) guid_text \<Rightarrow> time_point \<Rightarrow> 'x
    \<Rightarrow> 'g ParticipantDiscoveryItem \<Rightarrow> 'g ParticipantDiscoveryItem run" where
  "datawriter_from_xml X G startup pPub item =
     bind_run (endpoint_from_xml X G new_datawriter startup pPub) (\<lambda>pub.
     Inr (item\<lparr>datawriters := std_put endpoint_guid pub (datawriters item)\<rparr>))"

definition participant_from_xml ::
  "'x tinyxml2 \<Rightarrow> ('g::linorder) guid_text \<Rightarrow> time_point \<Rightarrow> 'x
    \<Rightarrow> bool \<times> 'g ParticipantDiscoveryDatabase \<Rightarrow> (bool \<times> 'g ParticipantDiscoveryDatabase) run" where
  "participant_from_xml X G startup pPtdi acc =
     (let (show, db) = acc
      in bind_run (guid_from_xml X G pPtdi) (\<lambda>g.
         bind_run (std_string (Attribute X s_sName pPtdi)) (\<lambda>name.
         let item = new_participant g name (BoolAttribute X s_sServer False pPtdi)
                      (startup + of_ms (Int64Attribute X s_sDiscovered_timestamp pPtdi));
             item = (case QueryBoolAttribute X s_sAlive pPtdi of
                       XML_SUCCESS b \<Rightarrow> item\<lparr>is_alive := b\<rparr> | _ \<Rightarrow> item)
         in bind_run (fold_run (datareader_from_xml X G startup)
                        (ChildElements X s_sSubscriber pPtdi) (show, item)) (\<lambda>(show, item).
            bind_run (fold_run (datawriter_from_xml X G startup)
                        (ChildElements X s_sPublisher pPtdi) item) (\<lambda>item.
            Inr (show, db\<lparr>participants := std_put endpoint_guid item (participants db)\<rparr>))))))"

definition database_from_xml ::
  "'x tinyxml2 \<Rightarrow> ('g::linorder) guid_text \<Rightarrow> 'x \<Rightarrow> 'g Snapshot \<Rightarrow> 'g Snapshot run" where
  "database_from_xml X G pPtdb s =
     bind_run (guid_from_xml X G pPtdb) (\<lambda>g.
     bind_run (fold_run (participant_from_xml X G (process_startup s)) (ChildElements X s_sPtDI pPtdb)
                 (show_liveliness s, new_database g [])) (\<lambda>(show, db).
     Inr (s\<lparr>show_liveliness := show,
            databases := std_put endpoint_guid db (databases s)\<rparr>)))"

definition from_xml ::
  "'x tinyxml2 \<Rightarrow> ('g::linorder) guid_text \<Rightarrow> clocks \<Rightarrow> 'x option \<Rightarrow> 'g Snapshot \<Rightarrow> 'g Snapshot run" where
  "from_xml X G clk root s =
     (case root of
        None \<Rightarrow> Inr s
      | Some pRoot \<Rightarrow>
          let dts = Int64Attribute X s_sTimestamp pRoot;
              dpt = Int64Attribute X s_sProcessTime pRoot;
              d_pdp_cb = Int64Attribute X s_sLastPdpCallback pRoot;
              d_edp_cb = Int64Attribute X s_sLastEdpCallback pRoot;
              time = of_ms dts - system_clock clk + steady_clock clk;
              startup = time - of_ms dpt;
              s = s\<lparr>snapshot_time := time, process_startup := startup,
                    last_PDP_callback := startup + of_ms d_pdp_cb,
                    last_EDP_callback := startup + of_ms d_edp_cb,
                    if_someone := BoolAttribute X s_sSomeone True pRoot\<rparr>
          in bind_run
               (case ChildElements X s_sDescription pRoot of
                  [] \<Rightarrow> Inr s
                | pDescription # _ \<Rightarrow>
                    bind_run (std_string (GetText X pDescription)) (\<lambda>t. Inr (s\<lparr>description := t\<rparr>)))
               (\<lambda>s. fold_run (database_from_xml X G) (ChildElements X s_sPtDB pRoot) s))"

section \<open>Files of snapshots\<close>

text \<open>\<open>Snapshot sh;\<close> in \<open>loadSnapshots\<close>: the default constructor.\<close>

definition new_snapshot :: "clocks \<Rightarrow> 'g Snapshot" where
  "new_snapshot clk = \<lparr>databases = [], process_startup = steady_clock clk,
     snapshot_time = steady_clock clk, last_PDP_callback = steady_clock clk,
     last_EDP_callback = steady_clock clk, if_someone = True, show_liveliness = False,
     description = []\<rparr>"

text \<open>
  \<open>saveSnapshots\<close> builds the document and hands it to \<open>SaveFile\<close>; the model returns its root element.
\<close>

definition saveSnapshots ::
  "'x tinyxml2 \<Rightarrow> 'g guid_text \<Rightarrow> clocks \<Rightarrow> 'g Snapshot list \<Rightarrow> 'x" where
  "saveSnapshots X G clk snapshots =
     fold (\<lambda>sh pRoot. InsertEndChild X pRoot (to_xml X G clk sh (NewElement X s_sDS_Snapshot)))
       snapshots
       (SetAttribute X ''xmlns'' (Text_Value ''http://www.eprosima.com/XMLSchemas/ds-snapshot'')
         (NewElement X s_sDS_Snapshots))"

text \<open>
  \<open>loadSnapshots\<close>: \<open>xmlDoc\<close> is the parsed document, \<open>None\<close> when \<open>LoadFile\<close> fails. The two loops are the
  two branches on \<open>inserter\<close>; in the second one \<open>merged\<close> is what the iterator \<open>it\<close> has passed and the
  last argument the range from it on.
\<close>

fun load_merging ::
  "('x \<Rightarrow> ('g::linorder) Snapshot run) \<Rightarrow> 'x list \<Rightarrow> 'g Snapshot list \<Rightarrow> 'g Snapshot list
    \<Rightarrow> 'g Snapshot list run" where
  "load_merging parse [] merged rest = Inr (merged @ rest)"
| "load_merging parse (pSh # pShs) merged rest =
     bind_run (parse pSh) (\<lambda>sh.
       case rest of
         [] \<Rightarrow> Inr merged
       | s # ss \<Rightarrow> load_merging parse pShs (merged @ [merge_snapshot s sh]) ss)"

definition loadSnapshots ::
  "'x tinyxml2 \<Rightarrow> ('g::linorder) guid_text \<Rightarrow> clocks \<Rightarrow> 'x option \<Rightarrow> 'g Snapshot list
    \<Rightarrow> (bool \<times> 'g Snapshot list) run" where
  "loadSnapshots X G clk xmlDoc snapshots =
     (case xmlDoc of
        None \<Rightarrow> Inr (False, snapshots)
      | Some doc \<Rightarrow>
          (case ChildElements X s_sDS_Snapshots doc of
             [] \<Rightarrow> Inr (False, snapshots)
           | pRoot # _ \<Rightarrow>
               let inserter = (snapshots = []);
                   shots = ChildElements X s_sDS_Snapshot pRoot;
                   parse = (\<lambda>pSh. from_xml X G clk (Some pSh) (new_snapshot clk))
               in bind_run
                    (if inserter
                     then fold_run (\<lambda>pSh ss. bind_run (parse pSh) (\<lambda>sh. Inr (ss @ [sh]))) shots snapshots
                     else load_merging parse shots [] snapshots)
                    (\<lambda>ss. Inr (True, ss))))"

end
