(* ===== verification/Text_Parsing.thy ===== *)
theory Text_Parsing
  imports Prelude
begin

text \<open>
  What the configuration reader uses of the standard library to read numbers and addresses:
  \<open>std::istringstream >> int\<close>, \<open>std::stol\<close> and the regular expression \<open>ipv4_regular_expression\<close>.
\<close>

section \<open>Numbers\<close>

definition is_digit :: "char \<Rightarrow> bool" where
  "is_digit c \<longleftrightarrow> 48 \<le> (of_char c :: nat) \<and> (of_char c :: nat) \<le> 57"

definition digit_value :: "char \<Rightarrow> nat" where
  "digit_value c = of_char c - 48"

definition is_space :: "char \<Rightarrow> bool" where
  "is_space c \<longleftrightarrow> (of_char c :: nat) = 32 \<or> 9 \<le> (of_char c :: nat) \<and> (of_char c :: nat) \<le> 13"

fun decimal :: "nat \<Rightarrow> string \<Rightarrow> nat" where
  "decimal n [] = n"
| "decimal n (c # cs) = decimal (10 * n + digit_value c) cs"

text \<open>
  \<open>int aux; std::istringstream (s) >> aux\<close>: leading white space is skipped and nothing is stored in
  \<open>aux\<close> when nothing is left; otherwise the longest number is read, 0 is stored when there is none and
  the nearest \<open>int\<close> when it is out of range.
\<close>

definition read_int :: "string \<Rightarrow> int run" where
  "read_int str =
     (let s = dropWhile is_space str
      in if s = [] then Inl Indeterminate_Value
         else
           let negative = (hd s = CHR ''-'');
               ds = takeWhile is_digit (if hd s = CHR ''-'' \<or> hd s = CHR ''+'' then tl s else s);
               n = int (decimal 0 ds)
           in Inr (if negative then max (- (2 ^ 31)) (- n) else min (2 ^ 31 - 1) n))"

text \<open>\<open>std::stol\<close> on a string of digits; \<open>long\<close> has 64 bits.\<close>

definition std_stol :: "string \<Rightarrow> int run" where
  "std_stol ds =
     (if ds = [] \<or> 2 ^ 63 \<le> decimal 0 ds then Inl Uncaught_Exception else Inr (int (decimal 0 ds)))"

definition seconds :: "int \<Rightarrow> duration" where
  "seconds n = n * 1000000000"

lemma decimal_Nil [simp]: "decimal 0 [] = 0"
  by simp

lemma read_int_range:
  assumes "read_int s = Inr n"
  shows "- (2 ^ 31) \<le> n \<and> n < 2 ^ 31"
  using assms by (auto simp: read_int_def Let_def split: if_splits)

lemma read_int_seconds:
  assumes "read_int s = Inr n"
  shows "\<bar>seconds n\<bar> < 2 ^ 62"
  using read_int_range [OF assms] by (auto simp: seconds_def abs_less_iff)

section \<open>The listening port expression\<close>

text \<open>
  \<open>^((?:[0-9]{1,3}\.){3}[0-9]{1,3})?:?(?:(\d+))?$\<close>: the two groups of the match. Each repetition is
  greedy; \<open>octet\<close> takes up to three digits.
\<close>

definition octet :: "string \<Rightarrow> (string \<times> string) option" where
  "octet s =
     (let ds = takeWhile is_digit (take 3 s)
      in if ds = [] then None else Some (ds, drop (length ds) s))"

fun octets :: "nat \<Rightarrow> string \<Rightarrow> (string \<times> string) option" where
  "octets 0 s = octet s"
| "octets (Suc n) s =
     (case octet s of
        Some (d, c # s') \<Rightarrow>
          if c = CHR ''.'' then map_option (\<lambda>(ds, r). (d @ CHR ''.'' # ds, r)) (octets n s') else None
      | _ \<Rightarrow> None)"

definition port_part :: "string \<Rightarrow> string option" where
  "port_part s =
     (let ds = (if s \<noteq> [] \<and> hd s = CHR '':'' then tl s else s)
      in if list_all is_digit ds then Some ds else None)"

definition ipv4_match :: "string \<Rightarrow> (string \<times> string) option" where
  "ipv4_match s =
     (case octets 3 s of
        Some (address, r) \<Rightarrow>
          (case port_part r of
             Some port \<Rightarrow> Some (address, port)
           | None \<Rightarrow> map_option (Pair []) (port_part s))
      | None \<Rightarrow> map_option (Pair []) (port_part s))"

text \<open>The language of the expression, as it is written.\<close>

definition is_octet :: "string \<Rightarrow> bool" where
  "is_octet d \<longleftrightarrow> d \<noteq> [] \<and> length d \<le> 3 \<and> list_all is_digit d"

fun dotted :: "nat \<Rightarrow> string \<Rightarrow> bool" where
  "dotted 0 s \<longleftrightarrow> is_octet s"
| "dotted (Suc n) s \<longleftrightarrow> (\<exists>d s'. s = d @ CHR ''.'' # s' \<and> is_octet d \<and> dotted n s')"

definition ipv4_language :: "string \<Rightarrow> string \<Rightarrow> string \<Rightarrow> bool" where
  "ipv4_language address port s \<longleftrightarrow>
     (address = [] \<or> dotted 3 address) \<and> list_all is_digit port
     \<and> (s = address @ port \<or> s = address @ CHR '':'' # port)"

lemma not_digit [simp]: "\<not> is_digit (CHR ''.'')" "\<not> is_digit (CHR '':'')"
  by (simp_all add: is_digit_def)

lemma octet_sound:
  assumes "octet s = Some (d, r)"
  shows "s = d @ r \<and> is_octet d"
proof -
  have d: "d = takeWhile is_digit (take 3 s)" "d \<noteq> []" "r = drop (length d) s"
    using assms by (auto simp: octet_def Let_def split: if_splits)
  have "s = d @ dropWhile is_digit (take 3 s) @ drop 3 s"
    unfolding d(1) by (metis append_assoc append_take_drop_id takeWhile_dropWhile_id)
  then have "s = d @ r" using d(3) by (metis append_eq_conv_conj)
  moreover have "length d \<le> 3" unfolding d(1) using length_takeWhile_le [of is_digit "take 3 s"] by simp
  moreover have "list_all is_digit d" unfolding d(1) by (auto simp: list_all_iff dest: set_takeWhileD)
  ultimately show ?thesis using d(2) by (simp add: is_octet_def)
qed

lemma octet_digits:
  assumes "list_all is_digit ds" "ds \<noteq> []" and stop: "r = [] \<or> \<not> is_digit (hd r)"
  shows "octet (ds @ r) = Some (take 3 ds, drop 3 ds @ r)"
proof -
  have "takeWhile is_digit (take n r) = []" for n using stop by (cases r; cases n) auto
  moreover have "\<forall>x\<in>set (take 3 ds). is_digit x" using assms(1) by (auto simp: list_all_iff dest: in_set_takeD)
  ultimately have "takeWhile is_digit (take 3 (ds @ r)) = take 3 ds" by (simp add: takeWhile_append2)
  then show ?thesis using assms(2) by (auto simp: octet_def Let_def min_def)
qed

lemma octets_sound: "octets n s = Some (a, r) \<Longrightarrow> s = a @ r \<and> dotted n a"
proof (induction n arbitrary: s a r)
  case 0
  then show ?case by (auto dest: octet_sound)
next
  case (Suc n)
  then obtain d s' where d: "octet s = Some (d, CHR ''.'' # s')"
    by (auto split: option.splits list.splits if_splits)
  then obtain a' where a': "octets n s' = Some (a', r)" "a = d @ CHR ''.'' # a'"
    using Suc.prems by (auto split: option.splits)
  with Suc.IH [OF a'(1)] octet_sound [OF d] show ?case by auto
qed

lemma port_part_digits: "list_all is_digit p \<Longrightarrow> port_part p = Some p \<and> port_part (CHR '':'' # p) = Some p"
  by (cases p) (auto simp: port_part_def)

lemma octets_complete:
  assumes "dotted n a" and "list_all is_digit p" "q = p \<or> q = CHR '':'' # p"
  shows "\<exists>a' r. octets n (a @ q) = Some (a', r) \<and> port_part r \<noteq> None"
  using assms(1)
proof (induction n arbitrary: a)
  case 0
  then have a: "is_octet a" by simp
  from assms(3) show ?case
  proof
    assume q: "q = p"
    have "octet (a @ p) = Some (take 3 (a @ p), drop 3 (a @ p))"
      using octet_digits [of "a @ p" "[]"] a assms(2) by (simp add: is_octet_def)
    moreover have "list_all is_digit (drop 3 (a @ p))"
      using a assms(2) by (auto simp: is_octet_def list_all_iff dest: in_set_dropD)
    ultimately show ?thesis using q port_part_digits by (auto simp del: drop_append take_append)
  next
    assume q: "q = CHR '':'' # p"
    have "octet (a @ q) = Some (a, q)" using octet_digits [of a q] a q by (simp add: is_octet_def)
    then show ?thesis using q assms(2) port_part_digits by auto
  qed
next
  case (Suc n)
  then obtain d s' where a: "a = d @ CHR ''.'' # s'" "is_octet d" "dotted n s'" by auto
  have "octet (d @ CHR ''.'' # s' @ q) = Some (d, CHR ''.'' # s' @ q)"
    using octet_digits [of d "CHR ''.'' # s' @ q"] a(2) by (simp add: is_octet_def)
  with Suc.IH [OF a(3)] show ?case by (auto simp: a(1))
qed

lemma port_part_language: "port_part s = Some p \<Longrightarrow> ipv4_language [] p s"
  by (cases s) (auto simp: port_part_def ipv4_language_def Let_def split: if_splits)

lemma ipv4_match_decides:
  "case ipv4_match s of
     Some (address, port) \<Rightarrow> ipv4_language address port s
   | None \<Rightarrow> \<not> (\<exists>address port. ipv4_language address port s)"
proof (cases "ipv4_match s")
  case None
  have False if lang: "ipv4_language a p s" for a p
  proof (cases "a = []")
    case True
    then have "port_part s \<noteq> None"
      using lang port_part_digits [of p] by (auto simp: ipv4_language_def)
    then show False using None by (auto simp: ipv4_match_def split: option.splits)
  next
    case False
    then have "dotted 3 a" "list_all is_digit p" "s = a @ p \<or> s = a @ CHR '':'' # p"
      using lang by (auto simp: ipv4_language_def)
    then have "\<exists>a' r. octets 3 s = Some (a', r) \<and> port_part r \<noteq> None"
      using octets_complete [of 3 a p p] octets_complete [of 3 a p "CHR '':'' # p"] by auto
    then show False using None by (auto simp: ipv4_match_def split: option.splits)
  qed
  with None show ?thesis by auto
next
  case (Some ap)
  then obtain a p where ap: "ipv4_match s = Some (a, p)" by (cases ap) auto
  have "ipv4_language a p s"
  proof (cases "a = [] \<and> port_part s = Some p")
    case True
    then show ?thesis by (simp add: port_part_language)
  next
    case False
    then obtain r where r: "octets 3 s = Some (a, r)" "port_part r = Some p"
      using ap by (auto simp: ipv4_match_def split: option.splits)
    then show ?thesis
      using octets_sound [OF r(1)] port_part_language [OF r(2)] by (auto simp: ipv4_language_def)
  qed
  with ap show ?thesis by simp
qed

text \<open>A greedy repetition takes as much as any other split of the text.\<close>

lemma octet_longest:
  assumes "octet (a @ t) = Some (d, r)" "is_octet a"
  shows "length a \<le> length d"
proof -
  have "d = takeWhile is_digit (take 3 (a @ t))" using assms(1) by (auto simp: octet_def Let_def split: if_splits)
  moreover have "take 3 (a @ t) = a @ take (3 - length a) t" "\<forall>x\<in>set a. is_digit x"
    using assms(2) by (simp_all add: is_octet_def list_all_iff)
  ultimately show ?thesis by (simp add: takeWhile_append2)
qed

lemma octets_longest:
  "octets n (a @ t) = Some (a', r) \<Longrightarrow> dotted n a \<Longrightarrow> length a \<le> length a'"
proof (induction n arbitrary: a a')
  case 0
  then show ?case by (auto dest: octet_longest)
next
  case (Suc n)
  then obtain d s where a: "a = d @ CHR ''.'' # s" "is_octet d" "dotted n s" by auto
  have "octet (a @ t) = Some (d, CHR ''.'' # s @ t)"
    using octet_digits [of d "CHR ''.'' # s @ t"] a(1,2) by (simp add: is_octet_def)
  then obtain ds where "octets n (s @ t) = Some (ds, r)" "a' = d @ CHR ''.'' # ds"
    using Suc.prems(1) by auto
  with Suc.IH a show ?case by simp
qed

lemma ipv4_language_unique:
  assumes "ipv4_language a p s" "ipv4_language a p' s"
  shows "p = p'"
proof -
  have False if "list_all is_digit q" "q = CHR '':'' # q'" for q q' using that by simp
  with assms show ?thesis unfolding ipv4_language_def by (metis same_append_eq list.inject)
qed

lemma ipv4_language_prefix:
  "ipv4_language a p s \<Longrightarrow> a = take (length a) s"
  by (auto simp: ipv4_language_def)

lemma ipv4_match_longest:
  assumes m: "ipv4_match s = Some (address, port)" and lang: "ipv4_language a p s"
  shows "(a, p) = (address, port) \<or> length a < length address"
proof -
  have own: "ipv4_language address port s" using ipv4_match_decides [of s] m by simp
  have "length a \<le> length address"
  proof (cases "a = []")
    case False
    then obtain t where t: "dotted 3 a" "list_all is_digit p" "s = a @ t" "t = p \<or> t = CHR '':'' # p"
      using lang by (auto simp: ipv4_language_def)
    obtain a' r where r: "octets 3 s = Some (a', r)" "port_part r \<noteq> None"
      using octets_complete [OF t(1,2) t(4)] t(3) by blast
    then have "address = a'" using m by (auto simp: ipv4_match_def)
    then show ?thesis using octets_longest [of 3 a t a' r] r(1) t(1,3) by simp
  qed simp
  moreover have "(a, p) = (address, port)" if "length a = length address"
  proof -
    have "a = address" using ipv4_language_prefix [OF lang] ipv4_language_prefix [OF own] that by metis
    then show ?thesis using ipv4_language_unique lang own by blast
  qed
  ultimately show ?thesis by fastforce
qed

end
