(* ===== verification/Configuration.thy ===== *)
theory Configuration
  imports Late_Joiner Snapshot_Xml Text_Parsing
begin

text \<open>
  The configuration reader: the \<open>load\<close> methods of \<open>DiscoveryServerManager\<close>, which turn the elements of
  a configuration file into participants, endpoints and events, and its constructor. tinyxml2, the QoS
  of Fast DDS and the files are parameters; log messages are left out.
\<close>

section \<open>The interface of Fast DDS and tinyxml2\<close>

datatype DiscoveryProtocol = SIMPLE | CLIENT | SUPER_CLIENT | SERVER | BACKUP | Other_Protocol

datatype transport_kind = TCPv4_Transport | TCPv6_Transport | Other_Transport

text \<open>
  \<open>'q\<close> is a \<open>DomainParticipantQos\<close>, \<open>'t\<close> a transport descriptor, \<open>'l\<close> a list of locators, \<open>'p\<close> a GUID
  prefix. \<open>AllChildElements\<close> is \<open>FirstChildElement ()\<close> and \<open>NextSiblingElement ()\<close>, \<open>PrintElement\<close> what
  \<open>XMLPrinter\<close> prints. Transports are descriptors, not pointers: the code only changes new ones and
  copies it has just made.
\<close>

record ('x, 'g, 'p, 'q, 't, 'l, 'w) config =
  AllChildElements :: "'x \<Rightarrow> 'x list"
  PrintElement :: "'x \<Rightarrow> string"
  load_XML_profiles_string :: "string \<Rightarrow> nat \<Rightarrow> 'w \<Rightarrow> ReturnCode \<times> 'w"
  get_participant_qos_from_profile :: "string \<Rightarrow> 'w \<Rightarrow> ReturnCode \<times> 'q"
  default_qos :: 'q
  qos_set_name :: "string \<Rightarrow> 'q \<Rightarrow> 'q"
  qos_prefix :: "'q \<Rightarrow> 'p"
  qos_set_prefix :: "'p \<Rightarrow> 'q \<Rightarrow> 'q"
  qos_protocol :: "'q \<Rightarrow> DiscoveryProtocol"
  qos_multicast :: "'q \<Rightarrow> 'l"
  qos_unicast :: "'q \<Rightarrow> 'l"
  qos_set_locators :: "'l \<Rightarrow> 'l \<Rightarrow> 'q \<Rightarrow> 'q"
  qos_transports :: "'q \<Rightarrow> 't list"
  qos_set_transports :: "'t list \<Rightarrow> 'q \<Rightarrow> 'q"
  qos_disable_builtin_transports :: "'q \<Rightarrow> 'q"
  read_prefix :: "string \<Rightarrow> 'p \<Rightarrow> bool \<times> 'p"
  unknown_prefix :: 'p
  guid_of_prefix :: "'p \<Rightarrow> 'g"
  no_locators :: 'l
  locators_empty :: "'l \<Rightarrow> bool"
  kind_of_transport :: "'t \<Rightarrow> transport_kind"
  listening_ports :: "'t \<Rightarrow> 16 word list"
  add_listener_port :: "16 word \<Rightarrow> 't \<Rightarrow> 't"
  set_WAN_address :: "string \<Rightarrow> 't \<Rightarrow> 't"
  new_TCPv4 :: 't
  new_UDPv4 :: 't

section \<open>Names\<close>

definition s_profiles :: string where "s_profiles = ''profiles''"
definition s_profile_name :: string where "s_profile_name = ''profile_name''"
definition s_prefix :: string where "s_prefix = ''prefix''"
definition s_dataType :: string where "s_dataType = ''dataType''"
definition s_sDS :: string where "s_sDS = ''DS''"
definition s_sServers :: string where "s_sServers = ''servers''"
definition s_sClients :: string where "s_sClients = ''clients''"
definition s_sClient :: string where "s_sClient = ''client''"
definition s_sSimples :: string where "s_sSimples = ''simples''"
definition s_sSimple :: string where "s_sSimple = ''simple''"
definition s_sTime :: string where "s_sTime = ''time''"
definition s_sShowLiveliness :: string where "s_sShowLiveliness = ''show_liveliness''"
definition s_sCreationTime :: string where "s_sCreationTime = ''creation_time''"
definition s_sRemovalTime :: string where "s_sRemovalTime = ''removal_time''"
definition s_sSnapshot :: string where "s_sSnapshot = ''snapshot''"
definition s_sSnapshots :: string where "s_sSnapshots = ''snapshots''"
definition s_sFile :: string where "s_sFile = ''file''"
definition s_sUserShutdown :: string where "s_sUserShutdown = ''user_shutdown''"
definition s_sPrefixValidation :: string where "s_sPrefixValidation = ''prefix_validation''"
definition s_sListeningPort :: string where "s_sListeningPort = ''listening_port''"
definition s_sEnvironment :: string where "s_sEnvironment = ''environment''"
definition s_sChange :: string where "s_sChange = ''change''"
definition s_sKey :: string where "s_sKey = ''key''"

section \<open>Events\<close>

text \<open>
  \<open>new\<close> and \<open>events.push_back\<close>. While the configuration is read every event object is pushed as soon as
  it is allocated and none is deleted, so the number of events is a fresh address.
\<close>

definition push_event ::
  "time_point \<Rightarrow> ('g, 'q) event_action \<Rightarrow> ('g, 'd, 'q, 'l) Manager \<Rightarrow> address \<times> ('g, 'd, 'q, 'l) Manager" where
  "push_event t act m =
     (let a = length (events m)
      in (a, m\<lparr>events := events m @ [a],
               event_store := (event_store m)(a \<mapsto> \<lparr>event_time = t, event_action = act\<rparr>)\<rparr>))"

definition executionTime :: "address option \<Rightarrow> ('g, 'd, 'q, 'l) Manager \<Rightarrow> time_point run" where
  "executionTime p m =
     (case p of
        None \<Rightarrow> Inl Null_Dereference
      | Some a \<Rightarrow>
          (case event_store m a of Some e \<Rightarrow> Inr (event_time e) | None \<Rightarrow> Inl Null_Dereference))"

text \<open>The attributes \<open>creation_time\<close> and \<open>removal_time\<close>: seconds since the start, \<open>otherwise\<close> when missing.\<close>

definition time_attribute ::
  "'x tinyxml2 \<Rightarrow> string \<Rightarrow> 'x \<Rightarrow> time_point \<Rightarrow> ('g, 'd, 'q, 'l) Manager \<Rightarrow> time_point run" where
  "time_attribute X k x otherwise m =
     (case Attribute X k x of
        None \<Rightarrow> Inr otherwise
      | Some str \<Rightarrow> bind_run (read_int str) (\<lambda>aux. Inr (getTime m + seconds aux)))"

text \<open>The destruction event, if the object is to be removed: a pointer to it and the manager.\<close>

definition removal_event ::
  "time_point \<Rightarrow> ('g, 'q) event_action \<Rightarrow> ('g, 'd, 'q, 'l) Manager
    \<Rightarrow> address option \<times> ('g, 'd, 'q, 'l) Manager" where
  "removal_event removal_time act m =
     (if removal_time \<noteq> getTime m
      then let (a, m) = push_event removal_time act m in (Some a, m)
      else (None, m))"

section \<open>Endpoints\<close>

text \<open>The topic an endpoint names, \<open>UNDEF\<close> when it names none or an unknown one.\<close>

definition described_topic :: "string option \<Rightarrow> ('g, 'd, 'q, 'l) Manager \<Rightarrow> TopicDescriptionItem" where
  "described_topic topic_attribute m =
     (case topic_attribute of
        None \<Rightarrow> undefined_topic
      | Some t \<Rightarrow> (case topic_description_profiles m t of Some d \<Rightarrow> d | None \<Rightarrow> undefined_topic))"

text \<open>
  \<open>loadSubscriber\<close> and \<open>loadPublisher\<close> are the same text for \<open>DataReader\<close> and \<open>DataWriter\<close>. The profile
  of the topic is passed as a \<open>std::string\<close> built from the attribute.
\<close>

definition load_endpoint ::
  "endpoint_kind \<Rightarrow> 'x tinyxml2 \<Rightarrow> ('g::linorder, 'd, 'q, 'w) dds \<Rightarrow> bool \<Rightarrow> 'g \<Rightarrow> 'x
    \<Rightarrow> address option \<Rightarrow> address option \<Rightarrow> ('g, 'd, 'q, 'l) Manager \<times> 'w
    \<Rightarrow> (('g, 'd, 'q, 'l) Manager \<times> 'w) run" where
  "load_endpoint kind X D dbg part_guid x participant_creation_event participant_destruction_event mw =
     (let (m, w) = mw
      in bind_run
           (case participant_creation_event of
              Some a \<Rightarrow> bind_run (executionTime (Some a) m) (\<lambda>t. Inr (t + 1))
            | None \<Rightarrow> Inr (getTime m)) (\<lambda>creation_time.
         bind_run
           (case participant_destruction_event of
              Some a \<Rightarrow> bind_run (executionTime participant_creation_event m) (\<lambda>t. Inr (creation_time - 1, t))
            | None \<Rightarrow> Inr (creation_time, getTime m)) (\<lambda>(creation_time, removal_time).
         bind_run (time_attribute X s_sCreationTime x creation_time m) (\<lambda>creation_time.
         bind_run (time_attribute X s_sRemovalTime x removal_time m) (\<lambda>removal_time.
         let profile_name = Attribute X s_profile_name x;
             topic_attribute = Attribute X s_sTopic x;
             topic_description = described_topic topic_attribute m;
             (pDE, m) = removal_event removal_time (DelayedEndpointDestruction kind (guid_unknown D)) m;
             endpoint_profile = (case profile_name of None \<Rightarrow> [] | Some p \<Rightarrow> p)
         in bind_run (std_string topic_attribute) (\<lambda>topic_profile.
            if creation_time = getTime m
            then endpoint_creation D dbg kind (topic_item_name topic_description)
                   (topic_item_type topic_description) topic_profile endpoint_profile part_guid pDE
                   participant_creation_event (m, w)
            else Inr (snd (push_event creation_time
                   (DelayedEndpointCreation kind (topic_item_name topic_description)
                      (topic_item_type topic_description) topic_profile endpoint_profile part_guid pDE
                      participant_creation_event) m), w)))))))"

definition loadSubscriber ::
  "'x tinyxml2 \<Rightarrow> ('g::linorder, 'd, 'q, 'w) dds \<Rightarrow> bool \<Rightarrow> 'g \<Rightarrow> 'x
    \<Rightarrow> address option \<Rightarrow> address option \<Rightarrow> ('g, 'd, 'q, 'l) Manager \<times> 'w
    \<Rightarrow> (('g, 'd, 'q, 'l) Manager \<times> 'w) run" where
  "loadSubscriber = load_endpoint Reader_Kind"

definition loadPublisher ::
  "'x tinyxml2 \<Rightarrow> ('g::linorder, 'd, 'q, 'w) dds \<Rightarrow> bool \<Rightarrow> 'g \<Rightarrow> 'x
    \<Rightarrow> address option \<Rightarrow> address option \<Rightarrow> ('g, 'd, 'q, 'l) Manager \<times> 'w
    \<Rightarrow> (('g, 'd, 'q, 'l) Manager \<times> 'w) run" where
  "loadPublisher = load_endpoint Writer_Kind"

text \<open>The endpoints of a participant element: publishers first.\<close>

definition load_endpoints ::
  "'x tinyxml2 \<Rightarrow> ('g::linorder, 'd, 'q, 'w) dds \<Rightarrow> bool \<Rightarrow> 'g \<Rightarrow> 'x
    \<Rightarrow> address option \<Rightarrow> ('g, 'd, 'q, 'l) Manager \<times> 'w
    \<Rightarrow> (('g, 'd, 'q, 'l) Manager \<times> 'w) run" where
  "load_endpoints X D dbg guid x creation_event mw =
     bind_run (fold_run (\<lambda>pub. loadPublisher X D dbg guid pub creation_event None)
                 (ChildElements X s_sPublisher x) mw)
       (fold_run (\<lambda>sub. loadSubscriber X D dbg guid sub creation_event None)
          (ChildElements X s_sSubscriber x))"

section \<open>Participants\<close>

text \<open>Transport by default when shared memory is off.\<close>

definition avoid_shared_memory ::
  "('x, 'g, 'p, 'q, 't, 'l, 'w) config \<Rightarrow> ('g, 'd, 'q, 'l) Manager \<Rightarrow> 'q \<Rightarrow> 'q" where
  "avoid_shared_memory C m dpQOS =
     (if shared_memory_off m
      then let dpQOS = qos_disable_builtin_transports C dpQOS
           in qos_set_transports C (qos_transports C dpQOS @ [new_UDPv4 C]) dpQOS
      else dpQOS)"

text \<open>The attribute \<open>name\<close> takes precedence over the profile.\<close>

definition name_attribute :: "'x tinyxml2 \<Rightarrow> ('x, 'g, 'p, 'q, 't, 'l, 'w) config \<Rightarrow> 'x \<Rightarrow> 'q \<Rightarrow> 'q" where
  "name_attribute X C x dpQOS =
     (case Attribute X s_sName x of Some name \<Rightarrow> qos_set_name C name dpQOS | None \<Rightarrow> dpQOS)"

text \<open>
  The QoS of a server: the profile, which is mandatory, its name and its prefix. \<open>None\<close> is an early
  return.
\<close>

definition server_qos ::
  "'x tinyxml2 \<Rightarrow> ('x, 'g, 'p, 'q, 't, 'l, 'w) config \<Rightarrow> 'x \<Rightarrow> 'w \<Rightarrow> 'q option" where
  "server_qos X C server w =
     (case Attribute X s_profile_name server of
        None \<Rightarrow> None
      | Some profile_name \<Rightarrow>
          let (ret, dpQOS) = get_participant_qos_from_profile C profile_name w
          in if profile_name = [] \<or> ret \<noteq> RETCODE_OK then None
             else
               let dpQOS = name_attribute X C server dpQOS;
                   (read, prefix) =
                     (case Attribute X s_prefix server of
                        Some cprefix \<Rightarrow> read_prefix C cprefix (qos_prefix C dpQOS)
                      | None \<Rightarrow> (True, qos_prefix C dpQOS))
               in if \<not> read \<and> prefix = unknown_prefix C then None
                  else Some (qos_set_prefix C prefix dpQOS))"

text \<open>\<open>server_locators[guid]\<close> and the builtin lists that are replaced with it.\<close>

definition server_locator_lists ::
  "('x, 'g, 'p, 'q, 't, 'l, 'w) config \<Rightarrow> 'g::linorder \<Rightarrow> 'q \<Rightarrow> ('g, 'd, 'q, 'l) Manager
    \<Rightarrow> 'q \<times> ('g, 'd, 'q, 'l) Manager" where
  "server_locator_lists C guid dpQOS m =
     (let (lists, locators) = map_index (no_locators C, no_locators C) guid (server_locators m)
      in (if \<not> locators_empty C (fst lists) \<or> \<not> locators_empty C (snd lists)
          then qos_set_locators C (fst lists) (snd lists) dpQOS else dpQOS,
          m\<lparr>server_locators := locators\<rparr>))"

definition loadServer ::
  "'x tinyxml2 \<Rightarrow> ('x, 'g, 'p, 'q, 't, 'l, 'w) config \<Rightarrow> ('g::linorder, 'd, 'q, 'w) dds \<Rightarrow> bool \<Rightarrow> 'x
    \<Rightarrow> ('g, 'd, 'q, 'l) Manager \<times> 'w \<Rightarrow> (('g, 'd, 'q, 'l) Manager \<times> 'w) run" where
  "loadServer X C D dbg server mw =
     (let (m, w) = mw
      in bind_run (time_attribute X s_sCreationTime server (getTime m) m) (\<lambda>creation_time.
         bind_run (time_attribute X s_sRemovalTime server (getTime m) m) (\<lambda>removal_time.
         case server_qos X C server w of
           None \<Rightarrow> Inr (m, w)
         | Some dpQOS \<Rightarrow>
             let guid = guid_of_prefix C (qos_prefix C dpQOS)
             in if enable_prefix_validation m \<and> map_find guid (servers m) \<noteq> None then Inr (m, w)
                else
                  let (dpQOS, m) = server_locator_lists C guid dpQOS m;
                      dpQOS = avoid_shared_memory C m dpQOS
                  in bind_run (assert_run dbg (qos_protocol C dpQOS = SERVER \<or> qos_protocol C dpQOS = BACKUP) ()) (\<lambda>_.
                     bind_run
                       (if creation_time = getTime m
                        then bind_run (participant_creation D dbg dpQOS Server_Role None (m, w))
                               (\<lambda>(participant_guid, mw). Inr mw)
                        else Inr (snd (push_event creation_time
                               (DelayedParticipantCreation dpQOS Server_Role None (guid_unknown D)) m), w)) (\<lambda>(m, w).
                     let (destruction_event, m) =
                           removal_event removal_time (DelayedParticipantDestruction guid) m
                     in load_endpoints X D dbg guid server None (m, w))))))"

text \<open>
  What \<open>loadClient\<close> and \<open>loadSimple\<close> end with: the destruction event, then the participant or its
  creation event, and the GUID and the creation event its endpoints are loaded with.
\<close>

definition create_participant_or_event ::
  "role \<Rightarrow> ('g::linorder, 'd, 'q, 'w) dds \<Rightarrow> bool \<Rightarrow> time_point \<Rightarrow> time_point \<Rightarrow> 'g \<Rightarrow> 'q
    \<Rightarrow> ('g, 'd, 'q, 'l) Manager \<times> 'w \<Rightarrow> ('g \<times> address option \<times> ('g, 'd, 'q, 'l) Manager \<times> 'w) run" where
  "create_participant_or_event role D dbg creation_time removal_time guid dpQOS mw =
     (let (m, w) = mw;
          (destruction_event, m) = removal_event removal_time (DelayedParticipantDestruction guid) m
      in if creation_time = getTime m
         then bind_run (participant_creation D dbg dpQOS role destruction_event (m, w))
                (\<lambda>(participant_guid, mw). Inr (participant_guid, None, mw))
         else let (a, m) = push_event creation_time
                    (DelayedParticipantCreation dpQOS role destruction_event (guid_unknown D)) m
              in Inr (guid, Some a, m, w))"

fun replace_first :: "('a \<Rightarrow> bool) \<Rightarrow> ('a \<Rightarrow> 'a) \<Rightarrow> 'a list \<Rightarrow> 'a list" where
  "replace_first P f [] = []"
| "replace_first P f (x # xs) = (if P x then f x # xs else x # replace_first P f xs)"

text \<open>
  The transports of a client that listens on a port: the first TCPv4 transport, a new one when there is
  none or, without an address, the first TCPv6 transport gets the port (unless it has ports already)
  and, with TCPv4, the public address. The port is cut to 16 bits. The loop over the pointers compares
  with \<open>p4\<close>, which is the copy once the first one is replaced, so that only the first is.
\<close>

definition listening_transports ::
  "('x, 'g, 'p, 'q, 't, 'l, 'w) config \<Rightarrow> string \<Rightarrow> int \<Rightarrow> 't list \<Rightarrow> 't list" where
  "listening_transports C address listening_port user_transports =
     (let is_p4 = (\<lambda>t. kind_of_transport C t = TCPv4_Transport);
          is_p6 = (\<lambda>t. kind_of_transport C t = TCPv6_Transport);
          p4 = List.find is_p4 user_transports;
          p6 = List.find is_p6 user_transports;
          listen = (\<lambda>t. if listening_ports C t = []
                        then add_listener_port C (word_of_int listening_port) t else t);
          wan = (\<lambda>t. if address \<noteq> [] then set_WAN_address C address t else t)
      in if (address = [] \<and> p4 = None \<and> p6 = None) \<or> (address \<noteq> [] \<and> p4 = None)
         then user_transports @ [wan (listen (new_TCPv4 C))]
         else if p4 \<noteq> None then replace_first is_p4 (\<lambda>t. wan (listen t)) user_transports
         else replace_first is_p6 listen user_transports)"

text \<open>The attribute \<open>listening_port\<close>; \<open>None\<close> is the early return.\<close>

definition client_listening_port ::
  "('x, 'g, 'p, 'q, 't, 'l, 'w) config \<Rightarrow> string \<Rightarrow> 'q \<Rightarrow> 'q option run" where
  "client_listening_port C lp dpQOS =
     (case ipv4_match lp of
        None \<Rightarrow> Inr None
      | Some (address, port) \<Rightarrow>
          bind_run (std_stol port) (\<lambda>listening_port.
          Inr (Some (qos_set_transports C
                 (listening_transports C address listening_port (qos_transports C dpQOS)) dpQOS))))"

definition client_qos ::
  "'x tinyxml2 \<Rightarrow> ('x, 'g, 'p, 'q, 't, 'l, 'w) config \<Rightarrow> 'x \<Rightarrow> ('g, 'd, 'q, 'l) Manager \<Rightarrow> 'w
    \<Rightarrow> 'q option run" where
  "client_qos X C client m w =
     (case Attribute X s_profile_name client of
        None \<Rightarrow> Inr None
      | Some profile_name \<Rightarrow>
          let (ret, dpQOS) = get_participant_qos_from_profile C profile_name w
          in if ret \<noteq> RETCODE_OK then Inr None
             else if qos_protocol C dpQOS \<noteq> CLIENT \<and> qos_protocol C dpQOS \<noteq> SUPER_CLIENT then Inr None
             else
               let dpQOS = name_attribute X C client dpQOS
               in bind_run
                    (case Attribute X s_sListeningPort client of
                       Some lp \<Rightarrow> client_listening_port C lp dpQOS
                     | None \<Rightarrow> Inr (Some dpQOS))
                    (\<lambda>listening. Inr (map_option (avoid_shared_memory C m) listening)))"

definition loadClient ::
  "'x tinyxml2 \<Rightarrow> ('x, 'g, 'p, 'q, 't, 'l, 'w) config \<Rightarrow> ('g::linorder, 'd, 'q, 'w) dds \<Rightarrow> bool \<Rightarrow> 'x
    \<Rightarrow> ('g, 'd, 'q, 'l) Manager \<times> 'w \<Rightarrow> (('g, 'd, 'q, 'l) Manager \<times> 'w) run" where
  "loadClient X C D dbg client mw =
     (let (m, w) = mw
      in bind_run (time_attribute X s_sCreationTime client (getTime m) m) (\<lambda>creation_time.
         bind_run (time_attribute X s_sRemovalTime client (getTime m) m) (\<lambda>removal_time.
         bind_run (client_qos X C client m w) (\<lambda>loaded.
         case loaded of
           None \<Rightarrow> Inr (m, w)
         | Some dpQOS \<Rightarrow>
             let guid = guid_of_prefix C (qos_prefix C dpQOS)
             in bind_run (create_participant_or_event Client_Role D dbg creation_time removal_time
                            guid dpQOS (m, w)) (\<lambda>(guid, creation_event, mw).
                load_endpoints X D dbg guid client creation_event mw)))))"

text \<open>A simple participant may have no profile.\<close>

definition simple_qos ::
  "'x tinyxml2 \<Rightarrow> ('x, 'g, 'p, 'q, 't, 'l, 'w) config \<Rightarrow> 'x \<Rightarrow> 'w \<Rightarrow> 'q option" where
  "simple_qos X C simple w =
     (case Attribute X s_profile_name simple of
        None \<Rightarrow> Some (name_attribute X C simple (default_qos C))
      | Some profile_name \<Rightarrow>
          let (ret, dpQOS) = get_participant_qos_from_profile C profile_name w
          in if ret \<noteq> RETCODE_OK \<or> qos_protocol C dpQOS \<noteq> SIMPLE then None
             else Some (name_attribute X C simple dpQOS))"

definition loadSimple ::
  "'x tinyxml2 \<Rightarrow> ('x, 'g, 'p, 'q, 't, 'l, 'w) config \<Rightarrow> ('g::linorder, 'd, 'q, 'w) dds \<Rightarrow> bool \<Rightarrow> 'x
    \<Rightarrow> ('g, 'd, 'q, 'l) Manager \<times> 'w \<Rightarrow> (('g, 'd, 'q, 'l) Manager \<times> 'w) run" where
  "loadSimple X C D dbg simple mw =
     (let (m, w) = mw
      in bind_run (time_attribute X s_sCreationTime simple (getTime m) m) (\<lambda>creation_time.
         bind_run (time_attribute X s_sRemovalTime simple (getTime m) m) (\<lambda>removal_time.
         case simple_qos X C simple w of
           None \<Rightarrow> Inr (m, w)
         | Some dpQOS \<Rightarrow>
             let guid = guid_of_prefix C (qos_prefix C dpQOS)
             in bind_run (create_participant_or_event Simple_Role D dbg creation_time removal_time
                            guid dpQOS (m, w)) (\<lambda>(guid, creation_event, mw).
                load_endpoints X D dbg guid simple creation_event mw))))"

section \<open>Snapshots, environment and server locators\<close>

definition loadSnapshot ::
  "'x tinyxml2 \<Rightarrow> 'x \<Rightarrow> ('g, 'd, 'q, 'l) Manager \<Rightarrow> ('g, 'd, 'q, 'l) Manager run" where
  "loadSnapshot X snapshot m =
     (case Attribute X s_sTime snapshot of
        None \<Rightarrow> Inr m
      | Some time_str \<Rightarrow>
          bind_run (read_int time_str) (\<lambda>aux.
          let time = getTime m + seconds aux;
              someone = BoolAttribute X s_sSomeone True snapshot;
              show_liveliness = BoolAttribute X s_sShowLiveliness False snapshot
          in bind_run (std_string (GetText X snapshot)) (\<lambda>desc.
             Inr (snd (push_event time (DelayedSnapshot desc someone show_liveliness) m)))))"

definition loadEnvironmentChange ::
  "'x tinyxml2 \<Rightarrow> 'x \<Rightarrow> ('g, 'd, 'q, 'l) Manager \<Rightarrow> ('g, 'd, 'q, 'l) Manager run" where
  "loadEnvironmentChange X change m =
     (case Attribute X s_sTime change of
        None \<Rightarrow> Inr m
      | Some time_str \<Rightarrow>
          bind_run (read_int time_str) (\<lambda>aux.
          let time = getTime m + seconds aux
          in case Attribute X s_sKey change of
               None \<Rightarrow> Inr m
             | Some key \<Rightarrow>
                 bind_run (std_string (GetText X change)) (\<lambda>val.
                 Inr (snd (push_event time (DelayedEnvironmentModification key val) m)))))"

definition MapServerInfo ::
  "'x tinyxml2 \<Rightarrow> ('x, 'g, 'p, 'q, 't, 'l, 'w) config \<Rightarrow> 'x
    \<Rightarrow> ('g::linorder, 'd, 'q, 'l) Manager \<times> 'w \<Rightarrow> (('g, 'd, 'q, 'l) Manager \<times> 'w) run" where
  "MapServerInfo X C server mw =
     (let (m, w) = mw
      in bind_run (std_string (Attribute X s_profile_name server)) (\<lambda>profile_name.
         let (ret, pqos) = get_participant_qos_from_profile C profile_name w
         in if profile_name = [] \<or> ret \<noteq> RETCODE_OK then Inr (m, w)
            else
              let prefix = (case Attribute X s_prefix server of
                              Some cprefix \<Rightarrow> snd (read_prefix C cprefix (unknown_prefix C))
                            | None \<Rightarrow> qos_prefix C pqos)
              in if prefix = unknown_prefix C then Inr (m, w)
                 else Inr (m\<lparr>server_locators := map_assign (guid_of_prefix C prefix)
                             (qos_multicast C pqos, qos_unicast C pqos) (server_locators m)\<rparr>, w)))"

text \<open>
  The loop over the children of a topic profile: the result, and what it has stored so far. A child
  without text ends the loop, an unknown one does not.
\<close>

fun fill_topic_elements ::
  "'x tinyxml2 \<Rightarrow> 'x list \<Rightarrow> bool \<times> TopicDescriptionItem \<Rightarrow> bool \<times> TopicDescriptionItem" where
  "fill_topic_elements X [] acc = acc"
| "fill_topic_elements X (p_aux0 # rest) (ret, topic_description) =
     (if ElementName X p_aux0 = s_sName
      then (case GetText X p_aux0 of
              Some t \<Rightarrow> fill_topic_elements X rest (ret, topic_description\<lparr>topic_item_name := t\<rparr>)
            | None \<Rightarrow> (False, topic_description))
      else if ElementName X p_aux0 = s_dataType
      then (case GetText X p_aux0 of
              Some t \<Rightarrow> fill_topic_elements X rest (ret, topic_description\<lparr>topic_item_type := t\<rparr>)
            | None \<Rightarrow> (False, topic_description))
      else fill_topic_elements X rest (False, topic_description))"

definition fill_topic_description_profile ::
  "'x tinyxml2 \<Rightarrow> ('x, 'g, 'p, 'q, 't, 'l, 'w) config \<Rightarrow> 'x \<Rightarrow> TopicDescriptionItem
    \<Rightarrow> bool \<times> TopicDescriptionItem" where
  "fill_topic_description_profile X C elem topic_description =
     fill_topic_elements X (AllChildElements C elem) (True, topic_description)"

end
