(* ===== verification/Program.thy ===== *)
theory Program
  imports Configuration Manager_Facts
begin

text \<open>
  The constructor of \<open>DiscoveryServerManager\<close>, which reads a configuration or a snapshot file, its
  destructor, and \<open>main\<close>.
\<close>

section \<open>Reading a configuration file\<close>

text \<open>The topic profiles of a section; a profile that cannot be read ends the loop.\<close>

fun load_topic_profiles ::
  "'x tinyxml2 \<Rightarrow> ('x, 'g, 'p, 'q, 't, 'l, 'w) config \<Rightarrow> 'x list \<Rightarrow> ('g, 'd, 'q, 'l) Manager
    \<Rightarrow> ('g, 'd, 'q, 'l) Manager" where
  "load_topic_profiles X C [] m = m"
| "load_topic_profiles X C (topic_profile # rest) m =
     (case Attribute X s_profile_name topic_profile of
        None \<Rightarrow> load_topic_profiles X C rest m
      | Some name \<Rightarrow>
          if topic_description_profiles m name = None
          then let (ret, desc) = fill_topic_description_profile X C topic_profile undefined_topic;
                   m = m\<lparr>topic_description_profiles := (topic_description_profiles m)(name \<mapsto> desc)\<rparr>
               in if ret then load_topic_profiles X C rest m else m
          else load_topic_profiles X C rest m)"

definition load_profiles ::
  "'x tinyxml2 \<Rightarrow> ('x, 'g, 'p, 'q, 't, 'l, 'w) config \<Rightarrow> 'x
    \<Rightarrow> ('g, 'd, 'q, 'l) Manager \<times> 'w \<Rightarrow> ('g, 'd, 'q, 'l) Manager \<times> 'w" where
  "load_profiles X C child mw =
     (let (m, w) = mw
      in case ChildElements X s_profiles child of
           [] \<Rightarrow> (m, w)
         | profiles # _ \<Rightarrow>
             let printed = PrintElement C profiles;
                 xmlString = CHR 0x22 # printed @ [CHR 0x22];
                 (ret, w) = load_XML_profiles_string C xmlString (length printed) w
             in (load_topic_profiles X C (ChildElements X s_sTopic profiles) m, w))"

text \<open>The steps that may end the constructor return whether it goes on.\<close>

definition load_servers ::
  "'x tinyxml2 \<Rightarrow> ('x, 'g, 'p, 'q, 't, 'l, 'w) config \<Rightarrow> ('g::linorder, 'd, 'q, 'w) dds \<Rightarrow> bool \<Rightarrow> 'x
    \<Rightarrow> ('g, 'd, 'q, 'l) Manager \<times> 'w \<Rightarrow> (bool \<times> ('g, 'd, 'q, 'l) Manager \<times> 'w) run" where
  "load_servers X C D dbg child mw =
     (case ChildElements X s_sServers child of
        servers_element # _ \<Rightarrow>
          bind_run (fold_run (MapServerInfo X C) (ChildElements X s_sServer servers_element) mw) (\<lambda>mw.
          bind_run (fold_run (loadServer X C D dbg) (ChildElements X s_sServer servers_element) mw) (\<lambda>mw.
          Inr (True, mw)))
      | [] \<Rightarrow> Inr (auto_shutdown (fst mw), mw))"

definition load_clients ::
  "'x tinyxml2 \<Rightarrow> ('x, 'g, 'p, 'q, 't, 'l, 'w) config \<Rightarrow> ('g::linorder, 'd, 'q, 'w) dds \<Rightarrow> bool \<Rightarrow> 'x
    \<Rightarrow> ('g, 'd, 'q, 'l) Manager \<times> 'w \<Rightarrow> (('g, 'd, 'q, 'l) Manager \<times> 'w) run" where
  "load_clients X C D dbg child mw =
     (case ChildElements X s_sClients child of
        [] \<Rightarrow> Inr mw
      | clients_element # _ \<Rightarrow>
          fold_run (loadClient X C D dbg) (ChildElements X s_sClient clients_element) mw)"

definition load_simples ::
  "'x tinyxml2 \<Rightarrow> ('x, 'g, 'p, 'q, 't, 'l, 'w) config \<Rightarrow> ('g::linorder, 'd, 'q, 'w) dds \<Rightarrow> bool \<Rightarrow> 'x
    \<Rightarrow> ('g, 'd, 'q, 'l) Manager \<times> 'w \<Rightarrow> (('g, 'd, 'q, 'l) Manager \<times> 'w) run" where
  "load_simples X C D dbg child mw =
     (case ChildElements X s_sSimples child of
        [] \<Rightarrow> Inr mw
      | simples_element # _ \<Rightarrow>
          fold_run (loadSimple X C D dbg) (ChildElements X s_sSimple simples_element) mw)"

definition load_snapshot_events ::
  "'x tinyxml2 \<Rightarrow> 'x \<Rightarrow> ('g, 'd, 'q, 'l) Manager \<Rightarrow> ('g, 'd, 'q, 'l) Manager run" where
  "load_snapshot_events X child m =
     (case ChildElements X s_sSnapshots child of
        [] \<Rightarrow> Inr m
      | snapshots_element # _ \<Rightarrow>
          let m = (case Attribute X s_sFile snapshots_element of
                     Some file_name \<Rightarrow> m\<lparr>snapshots_output_file := file_name, validate := False\<rparr>
                   | None \<Rightarrow> m)
          in fold_run (loadSnapshot X) (ChildElements X s_sSnapshot snapshots_element) m)"

definition load_environment ::
  "'x tinyxml2 \<Rightarrow> 'w platform \<Rightarrow> 'x \<Rightarrow> ('g, 'd, 'q, 'l) Manager \<times> 'w
    \<Rightarrow> (bool \<times> ('g, 'd, 'q, 'l) Manager \<times> 'w) run" where
  "load_environment X P child mw =
     (let (m, w) = mw
      in case ChildElements X s_sEnvironment child of
           [] \<Rightarrow> Inr (True, m, w)
         | environment # _ \<Rightarrow>
             (case getenv P ''FASTDDS_ENVIRONMENT_FILE'' w of
                None \<Rightarrow> Inr (False, m, w)
              | Some path \<Rightarrow>
                  let w = write_file P path (''{'' @ [CHR 0x0A, CHR 0x09, CHR 0x0A] @ ''}'' @ [CHR 0x0A]) w
                  in bind_run (fold_run (loadEnvironmentChange X) (ChildElements X s_sChange environment) m)
                       (\<lambda>m. Inr (True, m, w))))"

definition load_section ::
  "'x tinyxml2 \<Rightarrow> ('x, 'g, 'p, 'q, 't, 'l, 'w) config \<Rightarrow> ('g::linorder, 'd, 'q, 'w) dds \<Rightarrow> 'w platform
    \<Rightarrow> bool \<Rightarrow> 'x \<Rightarrow> ('g, 'd, 'q, 'l) Manager \<times> 'w
    \<Rightarrow> (bool \<times> ('g, 'd, 'q, 'l) Manager \<times> 'w) run" where
  "load_section X C D P dbg child mw =
     bind_run (load_servers X C D dbg child (load_profiles X C child mw)) (\<lambda>(go_on, mw).
     if \<not> go_on then Inr (False, mw)
     else
       bind_run (load_clients X C D dbg child mw) (\<lambda>mw.
       bind_run (load_simples X C D dbg child mw) (\<lambda>(m, w).
       bind_run (load_snapshot_events X child m) (\<lambda>m.
       load_environment X P child (m, w)))))"

fun load_sections ::
  "'x tinyxml2 \<Rightarrow> ('x, 'g, 'p, 'q, 't, 'l, 'w) config \<Rightarrow> ('g::linorder, 'd, 'q, 'w) dds \<Rightarrow> 'w platform
    \<Rightarrow> bool \<Rightarrow> 'x list \<Rightarrow> ('g, 'd, 'q, 'l) Manager \<times> 'w
    \<Rightarrow> (bool \<times> ('g, 'd, 'q, 'l) Manager \<times> 'w) run" where
  "load_sections X C D P dbg [] mw = Inr (True, mw)"
| "load_sections X C D P dbg (child # rest) mw =
     bind_run (load_section X C D P dbg child mw) (\<lambda>(go_on, mw).
     if go_on then load_sections X C D P dbg rest mw else Inr (False, mw))"

section \<open>The constructor\<close>

text \<open>
  \<open>document\<close> is the parsed file, \<open>None\<close> when \<open>LoadFile\<close> fails. The members have the values of
  \<open>new_manager\<close> when its body starts.
\<close>

definition construct ::
  "'x tinyxml2 \<Rightarrow> ('x, 'g, 'p, 'q, 't, 'l, 'w) config \<Rightarrow> ('g::linorder, 'd, 'q, 'w) dds \<Rightarrow> 'w platform
    \<Rightarrow> 'g guid_text \<Rightarrow> clocks \<Rightarrow> bool \<Rightarrow> 'x option \<Rightarrow> ('g, 'd, 'q, 'l) Manager \<times> 'w
    \<Rightarrow> (('g, 'd, 'q, 'l) Manager \<times> 'w) run" where
  "construct X C D P G clk dbg document mw =
     (let (m, w) = mw
      in case document of
           None \<Rightarrow> Inr (m, w)
         | Some doc \<Rightarrow>
             (case ChildElements X s_sDS doc of
                [] \<Rightarrow>
                  (case ChildElements X s_sDS_Snapshots doc of
                     [] \<Rightarrow> Inr (m, w)
                   | _ \<Rightarrow>
                       bind_run (loadSnapshots X G clk document (snapshots m)) (\<lambda>(loaded, ss).
                       Inr (m\<lparr>snapshots := ss, validate := True, auto_shutdown := True\<rparr>, w)))
              | root # rest \<Rightarrow>
                  let m = m\<lparr>validate := True,
                            auto_shutdown := \<not> BoolAttribute X s_sUserShutdown (\<not> auto_shutdown m) root,
                            enable_prefix_validation :=
                              BoolAttribute X s_sPrefixValidation (enable_prefix_validation m) root\<rparr>
                  in bind_run (load_sections X C D P dbg (root # rest) (m, w)) (\<lambda>(completed, m, w).
                     Inr (if completed then m\<lparr>correctly_created := True\<rparr> else m, w))))"

text \<open>The destructor writes the output file: the file name and the root element of the document.\<close>

definition destructor ::
  "'x tinyxml2 \<Rightarrow> 'g guid_text \<Rightarrow> clocks \<Rightarrow> ('g, 'd, 'q, 'l) Manager \<Rightarrow> (string \<times> 'x) option" where
  "destructor X G clk m =
     (if snapshots_output_file m \<noteq> []
      then Some (snapshots_output_file m, saveSnapshots X G clk (snapshots m)) else None)"

section \<open>main\<close>

text \<open>
  What the option parser found: the number of \<open>-c\<close> and the argument of the first, the argument of the
  first \<open>-o\<close>, and whether there was an error, an argument that is no option, \<open>-h\<close>, \<open>-s\<close> or no argument
  at all.
\<close>

record options =
  parse_error :: bool
  non_options :: nat
  show_help :: bool
  no_arguments :: bool
  config_option :: "(nat \<times> string) option"
  output_option :: "string option"
  shm_option :: bool

text \<open>The snapshots are validated: the exit code and the message.\<close>

definition check_snapshots :: "int \<Rightarrow> ('g::linorder, 'd, 'q, 'l) Manager \<Rightarrow> int \<times> string option" where
  "check_snapshots return_code m =
     (if shouldValidate (validate m) (snapshots m)
      then if \<not> validateAllSnapshots (snapshots m) then (- 1, None)
           else (return_code, Some (successMessage (snapshots m)))
      else (return_code, None))"

text \<open>
  The result is the exit code, whether the success message is printed, and the file the destructor
  writes. \<open>load_file\<close> is \<open>LoadFile\<close>; \<open>img\<close> is the image \<open>state\<close> is constructed with.
\<close>

definition program ::
  "'x tinyxml2 \<Rightarrow> ('x, 'g, 'p, 'q, 't, 'l, 'w) config \<Rightarrow> ('g::linorder, 'd, 'q, 'w) dds \<Rightarrow> 'w platform
    \<Rightarrow> 'g guid_text \<Rightarrow> clocks
    \<Rightarrow> ((address \<Rightarrow> address \<Rightarrow> bool) \<Rightarrow> address list \<Rightarrow> address list)
    \<Rightarrow> (pause \<Rightarrow> ('g, 'd, 'q, 'l) Manager \<times> 'w \<Rightarrow> ('g, 'd, 'q, 'l) Manager \<times> 'w)
    \<Rightarrow> (string \<Rightarrow> 'x option) \<Rightarrow> bool \<Rightarrow> 'g Snapshot \<Rightarrow> options \<Rightarrow> 'w
    \<Rightarrow> (int \<times> string option \<times> (string \<times> 'x) option) run" where
  "program X C D P G clk std_sort waiting load_file dbg img opt w =
     (if parse_error opt then Inr (1, None, None)
      else if non_options opt \<noteq> 0 then Inr (1, None, None)
      else if show_help opt \<or> no_arguments opt then Inr (0, None, None)
      else
        (case config_option opt of
           None \<Rightarrow> Inr (1, None, None)
         | Some (count, path_to_config) \<Rightarrow>
             if count \<noteq> 1 then Inr (1, None, None)
             else bind_run (construct X C D P G clk dbg (load_file path_to_config)
                         (new_manager (steady_clock clk) img (shm_option opt), w)) (\<lambda>(m, w).
             let return_code = (if correctly_created m then 0 else 1);
                 m = (case output_option opt of Some arg \<Rightarrow> m\<lparr>snapshots_output_file := arg\<rparr> | None \<Rightarrow> m)
             in bind_run (runEvents std_sort waiting D P dbg (m, w)) (\<lambda>(m, w).
                let (return_code, message) = check_snapshots return_code m;
                    (m, w) = onTerminate D (m, w)
                in Inr (return_code, message, destructor X G clk m)))))"

end
