(* ===== verification/Configuration_Invariant.thy ===== *)
theory Configuration_Invariant
  imports Event_Schedule Program
begin

text \<open>
  The invariant of the configuration reader: every event object is pushed exactly once and alive, every
  link between events leads to an object of the right kind, and every time is near the start; each
  \<open>load\<close> method only adds events and leaves the discovery state alone.
\<close>

section \<open>Well linked schedules\<close>

fun linked ::
  "('q \<Rightarrow> 'g) \<Rightarrow> (address \<Rightarrow> (time_point \<times> ('g, 'q) event_shape) option) \<Rightarrow> ('g, 'q) event_shape \<Rightarrow> bool" where
  "linked n S (Makes_Participant removal q) \<longleftrightarrow>
     (case removal of None \<Rightarrow> True | Some d \<Rightarrow> \<exists>t. S d = Some (t, Removes_Participant))"
| "linked n S (Makes_Endpoint k link owner g) \<longleftrightarrow>
     (case link of None \<Rightarrow> True | Some d \<Rightarrow> \<exists>t. S d = Some (t, Removes_Endpoint k))
     \<and> (case owner of None \<Rightarrow> True | Some p \<Rightarrow> \<exists>t removal q. S p = Some (t, Makes_Participant removal q) \<and> n q = g)"
| "linked n S sh \<longleftrightarrow> True"

fun makes_endpoint :: "('g, 'q) event_shape \<Rightarrow> bool" where
  "makes_endpoint (Makes_Endpoint k l p g) \<longleftrightarrow> True"
| "makes_endpoint sh \<longleftrightarrow> False"

definition within :: "time_point \<Rightarrow> bool \<Rightarrow> time_point \<Rightarrow> bool" where
  "within start endpoint t \<longleftrightarrow> \<bar>t - start\<bar> \<le> 2147483648000000000 + (if endpoint then 1 else 0)"

definition config_inv :: "('q \<Rightarrow> 'g) \<Rightarrow> ('g::linorder, 'd, 'q, 'l) Manager \<Rightarrow> bool" where
  "config_inv n m \<longleftrightarrow> manager_ok m \<and> events m = [0..<length (events m)]
     \<and> dom (schedule m) = {..<length (events m)}
     \<and> (\<forall>a t sh. schedule m a = Some (t, sh) \<longrightarrow> linked n (schedule m) sh \<and> within (getTime m) (makes_endpoint sh) t)"

lemma config_invD:
  "config_inv n m \<Longrightarrow> schedule m a = Some (t, sh) \<Longrightarrow>
     linked n (schedule m) sh \<and> within (getTime m) (makes_endpoint sh) t"
  by (simp add: config_inv_def)

text \<open>The snapshots that are scheduled, in the order of the vector of events: time and settings.\<close>

definition timed_snapshot :: "('g, 'd, 'q, 'l) Manager \<Rightarrow> address \<Rightarrow> (time_point \<times> string \<times> bool \<times> bool) option" where
  "timed_snapshot m a =
     (case schedule m a of Some (t, Takes_Snapshot desc sm lv) \<Rightarrow> Some (t, desc, sm, lv) | _ \<Rightarrow> None)"

definition asked :: "('g, 'd, 'q, 'l) Manager \<Rightarrow> (time_point \<times> string \<times> bool \<times> bool) list" where
  "asked m = List.map_filter (timed_snapshot m) (events m)"

fun asks :: "time_point \<Rightarrow> ('g, 'q) event_action \<Rightarrow> (time_point \<times> string \<times> bool \<times> bool) list" where
  "asks t (DelayedSnapshot desc sm lv) = [(t, desc, sm, lv)]"
| "asks t act = []"

text \<open>A step of the configuration reader only adds events, the snapshots \<open>S\<close> among them.\<close>

definition grows ::
  "('q \<Rightarrow> 'g) \<Rightarrow> (time_point \<times> string \<times> bool \<times> bool) list \<Rightarrow> ('g::linorder, 'd, 'q, 'l) Manager \<Rightarrow> ('g, 'd, 'q, 'l) Manager \<Rightarrow> bool" where
  "grows n S m m' \<longleftrightarrow> config_inv n m' \<and> map_le (schedule m) (schedule m') \<and> state m' = state m
     \<and> snapshots m' = snapshots m \<and> correctly_created m' = correctly_created m \<and> asked m' = asked m @ S"

abbreviation extends :: "('q \<Rightarrow> 'g) \<Rightarrow> ('g::linorder, 'd, 'q, 'l) Manager \<Rightarrow> ('g, 'd, 'q, 'l) Manager \<Rightarrow> bool" where
  "extends n \<equiv> grows n []"

lemma extends_refl: "config_inv n m \<Longrightarrow> extends n m m"
  by (simp add: grows_def)

lemma grows_trans: "grows n S m m' \<Longrightarrow> grows n T m' m'' \<Longrightarrow> grows n (S @ T) m m''"
  by (auto simp: grows_def intro: map_le_trans)

lemma extends_trans: "extends n m m' \<Longrightarrow> grows n S m' m'' \<Longrightarrow> grows n S m m''"
  using grows_trans [of _ "[]"] by simp

lemma grows_extends: "grows n S m m' \<Longrightarrow> extends n m' m'' \<Longrightarrow> grows n S m m''"
  using grows_trans [of _ S _ _ "[]"] by simp

lemma extends_inv: "grows n S m m' \<Longrightarrow> config_inv n m'"
  by (simp add: grows_def)

lemma grows_start: "grows n S m m' \<Longrightarrow> getTime m' = getTime m"
  by (simp add: grows_def getTime_def)

lemma extends_schedule: "grows n S m m' \<Longrightarrow> schedule m a = Some x \<Longrightarrow> schedule m' a = Some x"
  unfolding grows_def map_le_def by (metis domI)

lemma map_filter_cong: "(\<And>x. x \<in> set xs \<Longrightarrow> f x = g x) \<Longrightarrow> List.map_filter f xs = List.map_filter g xs"
  by (induction xs) (simp_all add: map_filter_simps split: option.split)

lemma map_filter_append: "List.map_filter f (xs @ ys) = List.map_filter f xs @ List.map_filter f ys"
  by (simp add: map_filter_def)

lemma asked_frame: "schedule m' = schedule m \<Longrightarrow> events m' = events m \<Longrightarrow> asked m' = asked m"
  by (simp add: asked_def timed_snapshot_def map_filter_def)

lemma still_extends: "config_inv n m \<Longrightarrow> still m m' \<Longrightarrow> extends n m m'"
  using asked_frame [of m' m] by (auto simp: grows_def config_inv_def still_def quiet_def getTime_def)

lemma config_inv_ok: "config_inv n m \<Longrightarrow> manager_ok m"
  by (simp add: config_inv_def)

text \<open>Members that neither the schedule nor the invariant reads.\<close>

lemma extends_members:
  assumes "config_inv n m"
  shows "extends n m (m\<lparr>server_locators := ls\<rparr>)" "extends n m (m\<lparr>topic_description_profiles := ts\<rparr>)"
    "extends n m (m\<lparr>snapshots_output_file := file_name, validate := v\<rparr>)"
    "extends n m (m\<lparr>validate := v, auto_shutdown := b, enable_prefix_validation := c\<rparr>)"
  using assms by (auto simp: grows_def config_inv_def manager_ok_def schedule_def [abs_def] getTime_def
      asked_def timed_snapshot_def map_filter_def)

lemma created_inv:
  assumes "config_inv n m"
  shows "config_inv n (m\<lparr>correctly_created := b\<rparr>)" "asked (m\<lparr>correctly_created := b\<rparr>) = asked m"
  using assms by (simp_all add: config_inv_def manager_ok_def schedule_def [abs_def] getTime_def
      asked_def timed_snapshot_def map_filter_def)

lemma linked_mono: "linked n S sh \<Longrightarrow> map_le S S' \<Longrightarrow> linked n S' sh"
  unfolding map_le_def by (cases sh) (auto split: option.splits simp: dom_def; metis)+

lemma push_event_extends:
  assumes inv: "config_inv n m" and new: "linked n (schedule m) (shape act)" "within (getTime m) (makes_endpoint (shape act)) t"
    and push: "push_event t act m = (a, m')"
  shows "grows n (asks t act) m m' \<and> schedule m' a = Some (t, shape act)"
proof -
  have a: "a = length (events m)" and m': "events m' = events m @ [a]"
      "event_store m' = (event_store m)(a \<mapsto> \<lparr>event_time = t, event_action = act\<rparr>)"
      "state m' = state m" "snapshots m' = snapshots m" "correctly_created m' = correctly_created m"
    using push by (auto simp: push_event_def Let_def)
  have schedule: "schedule m' = (schedule m)(a \<mapsto> (t, shape act))"
    by (auto simp: schedule_simps m')
  have dom: "dom (schedule m) = {..<a}" using inv by (simp add: config_inv_def a)
  then have fresh: "schedule m a = None" by blast
  have le: "map_le (schedule m) (schedule m')"
    using fresh by (auto simp: schedule map_le_def)
  have ok: "manager_ok m'"
    using push config_inv_ok [OF inv] by (auto simp: push_event_def Let_def manager_ok_def)
  have "events m = [0..<a]" using inv by (simp add: config_inv_def a)
  then have "events m' = [0..<length (events m')]" using m'(1) a by simp
  moreover have "dom (schedule m') = {..<length (events m')}" using dom m'(1) a by (auto simp: schedule)
  moreover have "linked n (schedule m') sh \<and> within (getTime m') (makes_endpoint sh) t'" if "schedule m' b = Some (t', sh)" for b t' sh
    using that inv new linked_mono [OF _ le] by (auto simp: schedule config_inv_def getTime_def m'(3) split: if_splits)
  moreover have "asked m' = asked m @ asks t act"
  proof -
    have "timed_snapshot m' b = timed_snapshot m b" if "b \<in> set (events m)" for b
      using that \<open>events m = [0..<a]\<close> by (simp add: timed_snapshot_def schedule)
    moreover have "List.map_filter (timed_snapshot m') [a] = asks t act"
      by (cases act) (simp_all add: map_filter_simps timed_snapshot_def schedule)
    ultimately show ?thesis
      using map_filter_cong [of "events m" "timed_snapshot m'" "timed_snapshot m"]
      by (simp add: asked_def m'(1) map_filter_append)
  qed
  ultimately show ?thesis using ok le by (simp add: grows_def config_inv_def m'(3-5) schedule)
qed

section \<open>Times\<close>

lemma time_attribute_within:
  assumes "time_attribute X k x dflt m = Inr t"
  shows "t = dflt \<or> \<bar>t - getTime m\<bar> \<le> 2147483648000000000"
  using assms read_int_range by (fastforce simp: time_attribute_def bind_run_Inr_iff seconds_def split: option.splits)

lemma executionTime_shape:
  "executionTime (Some a) m = Inr t \<Longrightarrow> \<exists>sh. schedule m a = Some (t, sh)"
  by (auto simp: executionTime_def schedule_def split: option.splits)

lemma creation_event_time:
  assumes inv: "config_inv n m" and t: "executionTime (Some a) m = Inr t" and sh: "schedule m a = Some (t', Makes_Participant r q)"
  shows "\<bar>t - getTime m\<bar> \<le> 2147483648000000000"
proof -
  have "t' = t" using executionTime_shape [OF t] sh by auto
  then have "within (getTime m) (makes_endpoint (Makes_Participant r q)) t"
    using config_invD [OF inv sh] by simp
  then show ?thesis by (simp add: within_def)
qed

lemma removal_event_extends:
  assumes inv: "config_inv n m" and new: "linked n (schedule m) (shape act)" "within (getTime m) (makes_endpoint (shape act)) t"
    and removal: "removal_event t act m = (p, m')" and plain: "asks t act = []"
  shows "extends n m m' \<and> (\<forall>d. p = Some d \<longrightarrow> schedule m' d = Some (t, shape act))"
proof (cases "t = getTime m")
  case True
  then show ?thesis using removal extends_refl [OF inv] by (simp add: removal_event_def)
next
  case False
  obtain d where push: "push_event t act m = (d, m')" "p = Some d"
    using removal False by (auto simp: removal_event_def Let_def split_beta prod_eq_iff)
  then show ?thesis using push_event_extends [OF inv new push(1)] plain by simp
qed

lemma load_endpoint_extends:
  assumes inv: "config_inv n m" and run: "load_endpoint k X D dbg g x creation None (m, w) = Inr (m', w')"
    and owner: "\<And>a. creation = Some a \<Longrightarrow> \<exists>t r q. schedule m a = Some (t, Makes_Participant r q) \<and> n q = g"
  shows "extends n m m'"
proof -
  obtain c0 c rt where c0: "(case creation of Some a \<Rightarrow> bind_run (executionTime (Some a) m) (\<lambda>t. Inr (t + 1))
       | None \<Rightarrow> Inr (getTime m)) = Inr c0"
    and c: "time_attribute X s_sCreationTime x c0 m = Inr c"
    and rt: "time_attribute X s_sRemovalTime x (getTime m) m = Inr rt"
    using run by (auto simp: load_endpoint_def bind_run_Inr_iff Let_def split: if_splits)
  have "\<bar>c0 - getTime m\<bar> \<le> 2147483648000000001"
    using c0 owner creation_event_time [OF inv]
    by (fastforce simp: bind_run_Inr_iff split: option.splits)
  then have within_c: "within (getTime m) True c"
    using time_attribute_within [OF c] by (auto simp: within_def)
  have within_r: "within (getTime m) False rt"
    using time_attribute_within [OF rt] by (auto simp: within_def)
  obtain pDE m1 where removal: "removal_event rt (DelayedEndpointDestruction k (guid_unknown D)) m = (pDE, m1)"
    by (metis prod.collapse)
  have m1: "extends n m m1" and link: "\<And>d. pDE = Some d \<Longrightarrow> schedule m1 d = Some (rt, Removes_Endpoint k)"
    using removal_event_extends [OF inv _ _ removal] within_r by auto
  have getTime: "getTime m1 = getTime m" using m1 by (simp add: grows_def getTime_def)
  let ?ep = "case Attribute X s_profile_name x of None \<Rightarrow> [] | Some p \<Rightarrow> p"
  let ?topic = "described_topic (Attribute X s_sTopic x) m"
  obtain tp where run1: "(if c = getTime m1
      then endpoint_creation D dbg k (topic_item_name ?topic) (topic_item_type ?topic) tp ?ep g pDE creation (m1, w)
      else Inr (snd (push_event c (DelayedEndpointCreation k (topic_item_name ?topic) (topic_item_type ?topic) tp
             ?ep g pDE creation) m1), w)) = Inr (m', w')"
    using run c0 c rt removal
    by (auto simp: load_endpoint_def bind_run_Inr_iff Let_def cong: if_cong)
  have "extends n m1 m'"
  proof (cases "c = getTime m1")
    case True
    then show ?thesis
      using run1 still_extends [OF extends_inv [OF m1] still_endpoint_creation [OF config_inv_ok [OF extends_inv [OF m1]]]]
      by simp
  next
    case False
    let ?act = "DelayedEndpointCreation k (topic_item_name ?topic) (topic_item_type ?topic) tp ?ep g pDE creation"
    have m': "push_event c ?act m1 = (fst (push_event c ?act m1), m')"
      using run1 False by (simp add: prod_eq_iff)
    have "linked n (schedule m1) (shape ?act)"
      using link owner extends_schedule [OF m1] by (auto split: option.splits)
    then show ?thesis
      using push_event_extends [OF extends_inv [OF m1] _ _ m'] within_c getTime by simp
  qed
  with m1 show ?thesis by (rule extends_trans)
qed

lemma fold_run_extends:
  assumes step: "\<And>x m w m' w'. config_inv n m \<Longrightarrow> extends n m0 m \<Longrightarrow> f x (m, w) = Inr (m', w') \<Longrightarrow> extends n m m'"
    and "config_inv n m0" "fold_run f xs (m0, w) = Inr (m', w')"
  shows "extends n m0 m'"
proof -
  have "extends n m m'" if "extends n m0 m" "fold_run f xs (m, w) = Inr (m', w')" for m w
    using that
  proof (induction xs arbitrary: m w)
    case Nil
    then show ?case using extends_refl [OF extends_inv [of _ "[]" m0 m]] by simp
  next
    case (Cons x xs)
    then obtain m1 w1 where m1: "f x (m, w) = Inr (m1, w1)" "fold_run f xs (m1, w1) = Inr (m', w')"
      by (auto simp: bind_run_Inr_iff)
    have "extends n m m1" by (rule step [OF extends_inv [OF Cons.prems(1)] Cons.prems(1) m1(1)])
    with Cons.IH [OF extends_trans [OF Cons.prems(1)] m1(2)] show ?case by (blast intro: extends_trans)
  qed
  with assms extends_refl show ?thesis by blast
qed

lemma load_endpoints_extends:
  assumes inv: "config_inv n m" and run: "load_endpoints X D dbg g x creation (m, w) = Inr (m', w')"
    and owner: "\<And>a. creation = Some a \<Longrightarrow> \<exists>t r q. schedule m a = Some (t, Makes_Participant r q) \<and> n q = g"
  shows "extends n m m'"
proof -
  have owner': "\<exists>t r q. schedule m1 a = Some (t, Makes_Participant r q) \<and> n q = g" if "extends n m m1" "creation = Some a" for m1 a
    using owner [OF that(2)] extends_schedule [OF that(1)] by blast
  obtain m1 w1 where m1: "fold_run (\<lambda>pub. loadPublisher X D dbg g pub creation None) (ChildElements X s_sPublisher x) (m, w)
      = Inr (m1, w1)"
    and m': "fold_run (\<lambda>sub. loadSubscriber X D dbg g sub creation None) (ChildElements X s_sSubscriber x) (m1, w1)
      = Inr (m', w')"
    using run by (auto simp: load_endpoints_def bind_run_Inr_iff)
  have 1: "extends n m m1"
  proof (rule fold_run_extends [OF _ inv m1])
    fix y m2 w2 m3 w3
    assume *: "config_inv n m2" "extends n m m2" "loadPublisher X D dbg g y creation None (m2, w2) = Inr (m3, w3)"
    show "extends n m2 m3"
      by (rule load_endpoint_extends [OF *(1) *(3) [unfolded loadPublisher_def] owner' [OF *(2)]])
  qed
  have "extends n m1 m'"
  proof (rule fold_run_extends [OF _ extends_inv [OF 1] m'])
    fix y m2 w2 m3 w3
    assume *: "config_inv n m2" "extends n m1 m2" "loadSubscriber X D dbg g y creation None (m2, w2) = Inr (m3, w3)"
    show "extends n m2 m3"
      by (rule load_endpoint_extends [OF *(1) *(3) [unfolded loadSubscriber_def] owner' [OF extends_trans [OF 1 *(2)]]])
  qed
  with 1 show ?thesis by (rule extends_trans)
qed

section \<open>Participants\<close>

lemma participant_times:
  assumes "time_attribute X k x (getTime m) m = Inr t"
  shows "within (getTime m) False t"
  using time_attribute_within [OF assms] by (auto simp: within_def)

lemma create_participant_or_event_extends:
  assumes inv: "config_inv n m"
    and times: "within (getTime m) False c" "within (getTime m) False rt"
    and named: "n qos = g"
    and run: "create_participant_or_event role D dbg c rt g qos (m, w) = Inr (g', creation, m', w')"
  shows "extends n m m' \<and> (\<forall>a. creation = Some a \<longrightarrow> (\<exists>t r q. schedule m' a = Some (t, Makes_Participant r q) \<and> n q = g'))"
proof -
  obtain d m1 where d: "removal_event rt (DelayedParticipantDestruction g) m = (d, m1)" by (metis prod.collapse)
  have m1: "extends n m m1" "\<forall>a. d = Some a \<longrightarrow> schedule m1 a = Some (rt, Removes_Participant)"
    using removal_event_extends [OF inv _ _ d] times(2) by auto
  have getTime: "getTime m1 = getTime m" using m1(1) by (simp add: grows_def getTime_def)
  show ?thesis
  proof (cases "c = getTime m1")
    case True
    then have run1: "participant_creation D dbg qos role d (m1, w) = Inr (g', m', w')" "creation = None"
      using run by (auto simp: create_participant_or_event_def d bind_run_Inr_iff)
    have "extends n m1 m'"
      by (rule still_extends [OF extends_inv [OF m1(1)]
            still_participant_creation [OF config_inv_ok [OF extends_inv [OF m1(1)]] run1(1)]])
    with run1(2) extends_trans [OF m1(1)] show ?thesis by simp
  next
    case False
    let ?act = "DelayedParticipantCreation qos role d (guid_unknown D)"
    obtain a where push: "push_event c ?act m1 = (a, m')" "creation = Some a" "g' = g"
      using run False by (auto simp: create_participant_or_event_def d split_beta prod_eq_iff Let_def)
    have "linked n (schedule m1) (shape ?act)" using m1(2) by (auto split: option.split)
    moreover have "within (getTime m1) (makes_endpoint (shape ?act)) c" using times(1) getTime by (simp add: within_def)
    ultimately show ?thesis
      using push_event_extends [OF extends_inv [OF m1(1)] _ _ push(1)] push(2,3) named extends_trans [OF m1(1)] by auto
  qed
qed

text \<open>The GUID that the QoS of a participant gives it, by their prefix.\<close>

definition qos_guid :: "('x, 'g, 'p, 'q, 't, 'l, 'w) config \<Rightarrow> 'q \<Rightarrow> 'g" where
  "qos_guid C qos = guid_of_prefix C (qos_prefix C qos)"

lemma loadSimple_extends:
  assumes inv: "config_inv (qos_guid C) m" and run: "loadSimple X C D dbg x (m, w) = Inr (m', w')"
  shows "extends (qos_guid C) m m'"
proof (cases "m' = m")
  case True
  then show ?thesis using extends_refl [OF inv] by simp
next
  case False
  obtain c rt qos g' creation m1 w1 where
    c: "time_attribute X s_sCreationTime x (getTime m) m = Inr c"
    and rt: "time_attribute X s_sRemovalTime x (getTime m) m = Inr rt"
    and part: "create_participant_or_event Simple_Role D dbg c rt (qos_guid C qos) qos (m, w) = Inr (g', creation, m1, w1)"
    and eps: "load_endpoints X D dbg g' x creation (m1, w1) = Inr (m', w')"
    using run False by (auto simp: loadSimple_def bind_run_Inr_iff Let_def qos_guid_def split: option.splits)
  note 1 = create_participant_or_event_extends [OF inv participant_times [OF c] participant_times [OF rt] refl part]
  show ?thesis using load_endpoints_extends [OF _ eps] 1 by (auto intro: extends_trans extends_inv)
qed

lemma loadClient_extends:
  assumes inv: "config_inv (qos_guid C) m" and run: "loadClient X C D dbg x (m, w) = Inr (m', w')"
  shows "extends (qos_guid C) m m'"
proof (cases "m' = m")
  case True
  then show ?thesis using extends_refl [OF inv] by simp
next
  case False
  obtain c rt qos g' creation m1 w1 where
    c: "time_attribute X s_sCreationTime x (getTime m) m = Inr c"
    and rt: "time_attribute X s_sRemovalTime x (getTime m) m = Inr rt"
    and part: "create_participant_or_event Client_Role D dbg c rt (qos_guid C qos) qos (m, w) = Inr (g', creation, m1, w1)"
    and eps: "load_endpoints X D dbg g' x creation (m1, w1) = Inr (m', w')"
    using run False
    by (auto simp: loadClient_def bind_run_Inr_iff Let_def qos_guid_def split: option.splits)
  note 1 = create_participant_or_event_extends [OF inv participant_times [OF c] participant_times [OF rt] refl part]
  show ?thesis using load_endpoints_extends [OF _ eps] 1 by (auto intro: extends_trans extends_inv)
qed

lemma server_locator_lists_extends:
  assumes "config_inv n m" "server_locator_lists C g qos m = (qos', m')"
  shows "extends n m m' \<and> servers m' = servers m"
  using assms extends_members(1) [OF assms(1)] by (auto simp: server_locator_lists_def Let_def split_beta)

lemma loadServer_extends:
  assumes inv: "config_inv n m" and run: "loadServer X C D dbg x (m, w) = Inr (m', w')"
  shows "extends n m m'"
proof (cases "m' = m")
  case True
  then show ?thesis using extends_refl [OF inv] by simp
next
  case False
  obtain c rt qos g where
    c: "time_attribute X s_sCreationTime x (getTime m) m = Inr c"
    and rt: "time_attribute X s_sRemovalTime x (getTime m) m = Inr rt"
    and qos: "server_qos X C x w = Some qos" and g: "g = guid_of_prefix C (qos_prefix C qos)"
    using run False by (auto simp: loadServer_def bind_run_Inr_iff Let_def split: option.splits)
  obtain qos1 m1 where m1: "server_locator_lists C g qos m = (qos1, m1)" by (metis prod.collapse)
  let ?qos = "avoid_shared_memory C m1 qos1"
  let ?act = "DelayedParticipantCreation ?qos Server_Role None (guid_unknown D)"
  obtain m2 w2 where
    m2: "(if c = getTime m1
          then bind_run (participant_creation D dbg ?qos Server_Role None (m1, w)) (\<lambda>(participant_guid, mw). Inr mw)
          else Inr (snd (push_event c ?act m1), w)) = Inr (m2, w2)"
    and eps: "load_endpoints X D dbg g x None (snd (removal_event rt (DelayedParticipantDestruction g) m2), w2)
      = Inr (m', w')"
    using run False by (auto simp: loadServer_def bind_run_Inr_iff c rt qos m1 g [symmetric] Let_def split_beta
        split: if_splits)
  obtain d m3 where m3: "removal_event rt (DelayedParticipantDestruction g) m2 = (d, m3)" by (metis prod.collapse)
  have 1: "extends n m m1" using server_locator_lists_extends [OF inv m1] by simp
  then have getTime1: "getTime m1 = getTime m" by (simp add: grows_def getTime_def)
  have 2: "extends n m1 m2"
  proof (cases "c = getTime m1")
    case True
    then obtain g' where "participant_creation D dbg ?qos Server_Role None (m1, w) = Inr (g', m2, w2)"
      using m2 by (auto simp: bind_run_Inr_iff)
    from still_participant_creation [OF config_inv_ok [OF extends_inv [OF 1]] this]
    show ?thesis by (rule still_extends [OF extends_inv [OF 1]])
  next
    case False
    then have push: "push_event c ?act m1 = (fst (push_event c ?act m1), m2)" using m2 by (simp add: prod_eq_iff)
    show ?thesis
      using push_event_extends [OF extends_inv [OF 1] _ _ push] participant_times [OF c] getTime1 by simp
  qed
  have 12: "extends n m m2" using 1 2 by (rule extends_trans)
  then have getTime2: "getTime m2 = getTime m" by (simp add: grows_def getTime_def)
  have 3: "extends n m2 m3"
    using removal_event_extends [OF extends_inv [OF 2] _ _ m3] participant_times [OF rt] getTime2 by simp
  have "extends n m3 m'" using load_endpoints_extends [OF extends_inv [OF 3] eps [unfolded m3 snd_conv]] by simp
  with 12 3 show ?thesis by (blast intro: extends_trans)
qed

section \<open>The whole configuration\<close>

lemma plain_event_grows:
  assumes inv: "config_inv n m" and shape: "shape act = Takes_Snapshot d s l \<or> shape act = Sets_Variable"
    and read: "read_int str = Inr aux"
  shows "grows n (asks (getTime m + seconds aux) act) m (snd (push_event (getTime m + seconds aux) act m))"
proof -
  have "within (getTime m) (makes_endpoint (shape act)) (getTime m + seconds aux)"
    using read_int_range [OF read] shape by (auto simp: within_def seconds_def)
  then show ?thesis
    using push_event_extends [OF inv _ _ prod.collapse [symmetric], of act] shape by auto
qed

text \<open>The snapshot an element asks for: nothing without a time.\<close>

definition snapshot_request ::
  "'x tinyxml2 \<Rightarrow> time_point \<Rightarrow> 'x \<Rightarrow> (time_point \<times> string \<times> bool \<times> bool) option" where
  "snapshot_request X start x =
     (case (Attribute X s_sTime x, GetText X x) of
        (Some str, Some desc) \<Rightarrow>
          (case read_int str of
             Inr aux \<Rightarrow> Some (start + seconds aux, desc, BoolAttribute X s_sSomeone True x,
                          BoolAttribute X s_sShowLiveliness False x)
           | Inl _ \<Rightarrow> None)
      | _ \<Rightarrow> None)"

definition snapshot_requests ::
  "'x tinyxml2 \<Rightarrow> time_point \<Rightarrow> 'x \<Rightarrow> (time_point \<times> string \<times> bool \<times> bool) list" where
  "snapshot_requests X start child =
     (case ChildElements X s_sSnapshots child of
        [] \<Rightarrow> []
      | x # _ \<Rightarrow> List.map_filter (snapshot_request X start) (ChildElements X s_sSnapshot x))"

lemma loadSnapshot_grows:
  assumes inv: "config_inv n m" and run: "loadSnapshot X x m = Inr m'"
  shows "grows n (List.map_filter (snapshot_request X (getTime m)) [x]) m m'"
proof (cases "Attribute X s_sTime x")
  case None
  then show ?thesis using run extends_refl [OF inv]
    by (simp add: loadSnapshot_def snapshot_request_def map_filter_simps)
next
  case (Some str)
  then obtain aux desc where "read_int str = Inr aux" "GetText X x = Some desc"
    and "m' = snd (push_event (getTime m + seconds aux) (DelayedSnapshot desc (BoolAttribute X s_sSomeone True x)
      (BoolAttribute X s_sShowLiveliness False x)) m)"
    using run by (auto simp: loadSnapshot_def bind_run_Inr_iff Let_def std_string_def split: option.splits)
  with Some show ?thesis
    using plain_event_grows [OF inv, of "DelayedSnapshot desc (BoolAttribute X s_sSomeone True x)
        (BoolAttribute X s_sShowLiveliness False x)"]
    by (simp add: snapshot_request_def map_filter_simps)
qed

lemma loadSnapshots_grows:
  assumes "config_inv n m" "fold_run (loadSnapshot X) xs m = Inr m'"
  shows "grows n (List.map_filter (snapshot_request X (getTime m)) xs) m m'"
  using assms
proof (induction xs arbitrary: m)
  case Nil
  then show ?case using extends_refl by (simp add: map_filter_simps)
next
  case (Cons x xs)
  obtain m1 where m1: "loadSnapshot X x m = Inr m1" "fold_run (loadSnapshot X) xs m1 = Inr m'"
    using Cons.prems(2) by (auto simp: bind_run_Inr_iff)
  note 1 = loadSnapshot_grows [OF Cons.prems(1) m1(1)]
  from grows_trans [OF 1 Cons.IH [OF extends_inv [OF 1] m1(2)]] show ?case
    using map_filter_append [of "snapshot_request X (getTime m)" "[x]" xs] by (simp add: grows_start [OF 1])
qed

lemma loadEnvironmentChange_extends:
  assumes "config_inv n m" "loadEnvironmentChange X x m = Inr m'"
  shows "extends n m m'"
  using assms extends_refl [OF assms(1)]
  using plain_event_grows [OF assms(1), of "DelayedEnvironmentModification k v" for k v]
  by (auto simp: loadEnvironmentChange_def bind_run_Inr_iff Let_def split: option.splits)

lemma MapServerInfo_extends:
  assumes "config_inv n m" "MapServerInfo X C x (m, w) = Inr (m', w')"
  shows "extends n m m'"
  using assms extends_refl [OF assms(1)] extends_members(1) [OF assms(1)]
  by (auto simp: MapServerInfo_def bind_run_Inr_iff Let_def split_beta split: if_splits)

lemma load_topic_profiles_extends: "config_inv n m \<Longrightarrow> extends n m (load_topic_profiles X C xs m)"
proof (induction xs arbitrary: m)
  case Nil
  then show ?case by (simp add: extends_refl)
next
  case (Cons x xs)
  have "extends n m (load_topic_profiles X C xs (m\<lparr>topic_description_profiles := ts\<rparr>))" for ts
    using extends_members(2) [OF Cons.prems] Cons.IH [OF extends_inv] by (blast intro: extends_trans)
  then show ?case
    using Cons extends_members(2) [OF Cons.prems] by (auto simp: Let_def split_beta split: option.split)
qed

text \<open>\<open>fold_run_extends\<close> without the state of Fast DDS.\<close>

lemma fold_run_extends_simple:
  assumes "\<And>x m m'. config_inv n m \<Longrightarrow> f x m = Inr m' \<Longrightarrow> extends n m m'"
    and "config_inv n m" "fold_run f xs m = Inr m'"
  shows "extends n m m'"
  using assms(2,3)
proof (induction xs arbitrary: m)
  case (Cons x xs)
  then obtain m1 where m1: "f x m = Inr m1" "fold_run f xs m1 = Inr m'" by (auto simp: bind_run_Inr_iff)
  have "extends n m m1" by (rule assms(1) [OF Cons.prems(1) m1(1)])
  with Cons.IH [OF extends_inv m1(2)] show ?case by (blast intro: extends_trans)
qed (simp add: extends_refl)

lemma load_profiles_extends:
  "config_inv n m \<Longrightarrow> load_profiles X C child (m, w) = (m', w') \<Longrightarrow> extends n m m'"
  using load_topic_profiles_extends extends_refl
  by (fastforce simp: load_profiles_def Let_def split_beta split: list.splits)

lemma load_servers_extends:
  assumes inv: "config_inv (qos_guid C) m" and run: "load_servers X C D dbg child (m, w) = Inr (b, m', w')"
  shows "extends (qos_guid C) m m'"
proof (cases "ChildElements X s_sServers child")
  case Nil
  then show ?thesis using run extends_refl [OF inv] by (simp add: load_servers_def)
next
  case (Cons x xs)
  then obtain m1 w1 where 1: "fold_run (MapServerInfo X C) (ChildElements X s_sServer x) (m, w) = Inr (m1, w1)"
    and 2: "fold_run (loadServer X C D dbg) (ChildElements X s_sServer x) (m1, w1) = Inr (m', w')"
    using run by (auto simp: load_servers_def bind_run_Inr_iff)
  have m1: "extends (qos_guid C) m m1" by (rule fold_run_extends [OF _ inv 1]) (rule MapServerInfo_extends)
  have "extends (qos_guid C) m1 m'" by (rule fold_run_extends [OF _ extends_inv [OF m1] 2]) (rule loadServer_extends)
  with m1 show ?thesis by (rule extends_trans)
qed

lemma load_snapshot_events_grows:
  assumes inv: "config_inv (qos_guid C) m" and run: "load_snapshot_events X child m = Inr m'"
  shows "grows (qos_guid C) (snapshot_requests X (getTime m) child) m m'"
proof (cases "ChildElements X s_sSnapshots child")
  case Nil
  then show ?thesis using run extends_refl [OF inv] by (simp add: load_snapshot_events_def snapshot_requests_def)
next
  case (Cons x xs)
  define m1 where "m1 = (case Attribute X s_sFile x of
    Some name \<Rightarrow> m\<lparr>snapshots_output_file := name, validate := False\<rparr> | None \<Rightarrow> m)"
  have e1: "extends (qos_guid C) m m1"
    using extends_refl [OF inv] extends_members(3) [OF inv] by (simp add: m1_def split: option.split)
  have run1: "fold_run (loadSnapshot X) (ChildElements X s_sSnapshot x) m1 = Inr m'"
    using run Cons by (simp add: load_snapshot_events_def m1_def Let_def)
  from extends_trans [OF e1 loadSnapshots_grows [OF extends_inv [OF e1] run1]] show ?thesis
    by (simp add: grows_start [OF e1] snapshot_requests_def Cons)
qed

lemma load_section_grows:
  assumes inv: "config_inv (qos_guid C) m" and run: "load_section X C D P dbg child (m, w) = Inr (b, m', w')"
  shows "\<exists>S. grows (qos_guid C) S m m' \<and> (b \<longrightarrow> S = snapshot_requests X (getTime m) child)"
proof -
  obtain m0 w0 where 0: "load_profiles X C child (m, w) = (m0, w0)" by (metis prod.collapse)
  have e0: "extends (qos_guid C) m m0" by (rule load_profiles_extends [OF inv 0])
  obtain b1 m1 w1 where 1: "load_servers X C D dbg child (m0, w0) = Inr (b1, m1, w1)"
    and rest: "(if \<not> b1 then Inr (False, m1, w1) else
       bind_run (load_clients X C D dbg child (m1, w1)) (\<lambda>mw.
       bind_run (load_simples X C D dbg child mw) (\<lambda>(m, w).
       bind_run (load_snapshot_events X child m) (\<lambda>m.
       load_environment X P child (m, w))))) = Inr (b, m', w')"
    using run by (auto simp: load_section_def 0 bind_run_Inr_iff)
  have e1: "extends (qos_guid C) m m1"
    by (rule extends_trans [OF e0 load_servers_extends [OF extends_inv [OF e0] 1]])
  show ?thesis
  proof (cases b1)
    case False
    then show ?thesis using rest e1 by auto
  next
    case True
    obtain m2 w2 m3 w3 m4 where 2: "load_clients X C D dbg child (m1, w1) = Inr (m2, w2)"
      and 3: "load_simples X C D dbg child (m2, w2) = Inr (m3, w3)"
      and 4: "load_snapshot_events X child m3 = Inr m4"
      and 5: "load_environment X P child (m4, w3) = Inr (b, m', w')"
      using rest True by (auto simp: bind_run_Inr_iff)
    have e2: "extends (qos_guid C) m1 m2"
      using 2 fold_run_extends [OF _ extends_inv [OF e1], of "loadClient X C D dbg"] loadClient_extends
        extends_refl [OF extends_inv [OF e1]]
      by (fastforce simp: load_clients_def split: list.splits)
    have e3: "extends (qos_guid C) m2 m3"
      using 3 fold_run_extends [OF _ extends_inv [OF e2], of "loadSimple X C D dbg"] loadSimple_extends
        extends_refl [OF extends_inv [OF e2]]
      by (fastforce simp: load_simples_def split: list.splits)
    have e: "extends (qos_guid C) m m3" using e1 e2 e3 by (blast intro: extends_trans)
    have e4: "grows (qos_guid C) (snapshot_requests X (getTime m3) child) m3 m4"
      by (rule load_snapshot_events_grows [OF extends_inv [OF e3] 4])
    have e5: "extends (qos_guid C) m4 m'"
      using 5 extends_refl [OF extends_inv [OF e4]] extends_inv [OF e4]
      by (auto simp: load_environment_def bind_run_Inr_iff Let_def split: list.splits option.splits
          intro: fold_run_extends_simple loadEnvironmentChange_extends)
    have "grows (qos_guid C) (snapshot_requests X (getTime m) child) m m'"
      using grows_extends [OF extends_trans [OF e e4] e5] by (simp add: grows_start [OF e])
    then show ?thesis by blast
  qed
qed

lemma load_sections_grows:
  assumes "config_inv (qos_guid C) m" "load_sections X C D P dbg xs (m, w) = Inr (b, m', w')"
  shows "\<exists>S. grows (qos_guid C) S m m' \<and> (b \<longrightarrow> S = concat (map (snapshot_requests X (getTime m)) xs))"
  using assms
proof (induction xs arbitrary: m w)
  case Nil
  then show ?case using extends_refl by fastforce
next
  case (Cons x xs)
  obtain b1 m1 w1 where 1: "load_section X C D P dbg x (m, w) = Inr (b1, m1, w1)"
    and 2: "(if b1 then load_sections X C D P dbg xs (m1, w1) else Inr (False, m1, w1)) = Inr (b, m', w')"
    using Cons.prems(2) by (auto simp: bind_run_Inr_iff)
  obtain S where S: "grows (qos_guid C) S m m1" "b1 \<Longrightarrow> S = snapshot_requests X (getTime m) x"
    using load_section_grows [OF Cons.prems(1) 1] by blast
  show ?case
  proof (cases b1)
    case True
    then obtain T where T: "grows (qos_guid C) T m1 m'" "b \<Longrightarrow> T = concat (map (snapshot_requests X (getTime m1)) xs)"
      using Cons.IH [OF extends_inv [OF S(1)]] 2 by auto
    from grows_trans [OF S(1) T(1)] show ?thesis
      using S(2) [OF True] T(2) grows_start [OF S(1)] by auto
  next
    case False
    then show ?thesis using 2 S(1) by auto
  qed
qed

lemma config_inv_new: "db_inv img \<Longrightarrow> config_inv n (new_manager t img shm)"
  by (simp add: config_inv_def new_manager_def manager_ok_def schedule_def [abs_def] dom_def)

end
