(* ===== verification/Event_Run.thy ===== *)
theory Event_Run
  imports Event_Schedule
begin

text \<open>
  \<open>DiscoveryServerManager::runEvents\<close>: the events run in the order of their times, each snapshot event
  leaves exactly one snapshot with its own settings, and nothing else does; and a run of events that
  create nothing comes to its end.
\<close>

section \<open>Running the events\<close>

definition sort_laws :: "((address \<Rightarrow> address \<Rightarrow> bool) \<Rightarrow> address list \<Rightarrow> address list) \<Rightarrow> bool" where
  "sort_laws std_sort \<longleftrightarrow> (\<forall>(time :: address \<Rightarrow> int) xs.
     mset (std_sort (\<lambda>a b. time a < time b) xs) = mset xs
     \<and> sorted (map time (std_sort (\<lambda>a b. time a < time b) xs)))"

text \<open>What one event does: a snapshot event takes its snapshot, all others are quiet.\<close>

lemma execute_event_effect:
  assumes ok: "manager_ok m" and run: "execute_event D P dbg a (m, w) = Inr (m', w')"
  shows "manager_ok m' \<and> schedule m' = schedule m \<and> wants_snapshot m' = wants_snapshot m \<and> events m' = events m
    \<and> map taken (snapshots m') = map taken (snapshots m) @ List.map_filter (wants_snapshot m) [a]"
proof -
  obtain e where e: "event_store m a = Some e"
    using run by (auto simp: execute_event_def split: option.splits)
  have quiet: ?thesis if "quiet m m'" "wants_snapshot m a = None"
    using that(2) quietD [OF that(1)] by (simp add: map_filter_simps)
  show ?thesis
  proof (cases "event_action e")
    case (DelayedParticipantCreation qos role removal g)
    then obtain h m1 where run1: "participant_creation D dbg qos role removal (m, w) = Inr (h, m1, w')"
      and m': "m' = m1\<lparr>event_store := (event_store m1)(a \<mapsto>
          e\<lparr>event_action := DelayedParticipantCreation qos role removal h\<rparr>)\<rparr>"
      using run by (auto simp: execute_event_def e bind_run_Inr_iff)
    have q: "quiet m m1" by (rule still_quiet [OF still_participant_creation [OF ok run1]])
    have "schedule m1 a = Some (event_time e, Makes_Participant removal qos)"
      using quietD(5) [OF q] by (simp add: schedule_def e DelayedParticipantCreation)
    then have "schedule m' = schedule m1" by (auto simp: m' schedule_simps)
    then have "quiet m m'" using q by (simp add: quiet_def m')
    then show ?thesis by (rule quiet) (simp add: schedule_simps e DelayedParticipantCreation)
  next
    case (DelayedParticipantDestruction g)
    then show ?thesis
      using run quiet_participant_destruction [OF ok, of D g w]
      by (intro quiet) (auto simp: execute_event_def e schedule_simps)
  next
    case (DelayedEndpointCreation k tn ty tp ep g link owner)
    then show ?thesis
      using run still_quiet [OF still_endpoint_creation [OF ok]]
      by (intro quiet) (auto simp: execute_event_def e schedule_simps)
  next
    case (DelayedEndpointDestruction k g)
    then show ?thesis
      using run quiet_endpoint_destruction [OF ok, of D k g w]
      by (intro quiet) (auto simp: execute_event_def e schedule_simps)
  next
    case (DelayedEnvironmentModification key val)
    then show ?thesis
      using run quiet_refl [OF ok]
      by (intro quiet) (auto simp: execute_event_def e schedule_simps environment_modification_def
          split: option.splits)
  next
    case (DelayedSnapshot desc sm lv)
    then have "m' = manager_takeSnapshot (steady_now P w) desc sm lv m"
      using run by (auto simp: execute_event_def e snapshot_event_def)
    then show ?thesis
      using DelayedSnapshot manager_step_ok [OF manager_step.snapshot ok]
      by (simp add: e schedule_simps manager_takeSnapshot_def takeSnapshot_def Let_def taken_def map_filter_simps)
  qed
qed

lemma fold_events_effect:
  assumes "waiting_ok waiting" "manager_ok m"
    and "fold_run (\<lambda>p mw. execute_event D P dbg p (waiting (Sleep_Until (time p)) mw)) xs (m, w) = Inr (m', w')"
  shows "manager_ok m' \<and> wants_snapshot m' = wants_snapshot m \<and> events m' = events m
    \<and> map taken (snapshots m') = map taken (snapshots m) @ List.map_filter (wants_snapshot m) xs"
  using assms(2,3)
proof (induction xs arbitrary: m w)
  case Nil
  then show ?case by (simp add: map_filter_simps)
next
  case (Cons a xs)
  obtain m1 w1 where wait: "waiting (Sleep_Until (time a)) (m, w) = (m1, w1)" by (metis prod.collapse)
  have "quiet m (fst (waiting (Sleep_Until (time a)) (m, w)))"
    by (rule waiting_okD(2) [OF assms(1) Cons.prems(1)])
  then have q: "quiet m m1" by (simp add: wait)
  obtain m2 w2 where event: "execute_event D P dbg a (m1, w1) = Inr (m2, w2)"
    and rest: "fold_run (\<lambda>p mw. execute_event D P dbg p (waiting (Sleep_Until (time p)) mw)) xs (m2, w2) = Inr (m', w')"
    using Cons.prems(2) by (auto simp: wait bind_run_Inr_iff)
  note effect = execute_event_effect [OF quiet_ok [OF q] event]
  have "manager_ok m2" using effect by simp
  from Cons.IH [OF this rest] effect show ?case
    using quietD [OF q] by (auto simp: map_filter_simps split: option.splits)
qed

lemma runEvents_effect:
  assumes sort: "sort_laws std_sort" and waiting: "waiting_ok waiting" and ok: "manager_ok m"
    and run: "runEvents std_sort waiting D P dbg (m, w) = Inr (m', w')"
  shows "manager_ok m' \<and> mset (events m') = mset (events m)
    \<and> sorted (map (stored_event_time (event_store m)) (events m'))
    \<and> map taken (snapshots m') = map taken (snapshots m) @ List.map_filter (wants_snapshot m) (events m')"
proof -
  let ?time = "stored_event_time (event_store m)"
  define order where "order = std_sort (\<lambda>a b. ?time a < ?time b) (events m)"
  have order: "mset order = mset (events m)" "sorted (map ?time order)"
    using sort unfolding order_def sort_laws_def by blast+
  let ?m = "m\<lparr>events := order\<rparr>"
  have ok1: "manager_ok ?m" using ok by (simp add: manager_ok_def)
  obtain m1 w1 where
    loop: "fold_run (\<lambda>p mw. execute_event D P dbg p (waiting (Sleep_Until (?time p)) mw)) order (?m, w) = Inr (m1, w1)"
    and m': "(m', w') = (let mw = (m1, w1);
       mw = (if snapshots_output_file (fst mw) \<noteq> [] then waiting Last_Snapshot_Delay mw else mw)
       in if \<not> auto_shutdown (fst mw) then waiting Press_Any_Key mw else mw)"
    using run by (auto simp: runEvents_def order_def [symmetric] bind_run_Inr_iff Let_def)
  note effect = fold_events_effect [OF waiting ok1 loop]
  have pause: "quiet m1 (fst (waiting p mw))" if "quiet m1 (fst mw)" for p mw
    using that quiet_trans [OF that waiting_okD(2) [OF waiting quiet_ok [OF that]]] by (metis prod.collapse)
  have "quiet m1 (fst (m', w'))"
    unfolding m' Let_def using effect by (auto intro!: pause quiet_refl)
  moreover have "wants_snapshot ?m = wants_snapshot m" by (simp add: schedule_simps)
  ultimately show ?thesis using effect order quietD [of m1 m'] by simp
qed

text \<open>
  C28: runEvents executes the events in the order of their times and each snapshot event leaves
  exactly one snapshot, with its own settings, in that order; no other event takes one, and the
  manager's invariant is kept.
\<close>

theorem runEvents_snapshots:
  assumes sort: "sort_laws std_sort" and waiting: "waiting_ok waiting" and ok: "manager_ok m"
    and run: "runEvents std_sort waiting D P dbg (m, w) = Inr (m', w')"
  shows "manager_ok m' \<and> mset (events m') = mset (events m)
    \<and> sorted (map (stored_event_time (event_store m)) (events m'))
    \<and> map taken (snapshots m') = map taken (snapshots m) @ List.map_filter (wants_snapshot m) (events m')"
  by (rule runEvents_effect [OF assms])

text \<open>Without events a run leaves the snapshots as they are.\<close>

lemma runEvents_idle:
  assumes sort: "sort_laws std_sort" and waiting: "waiting_ok waiting" and ok: "manager_ok m"
    and none: "events m = []" and run: "runEvents std_sort waiting D P dbg (m, w) = Inr (m', w')"
  shows "snapshots m' = snapshots m \<and> validate m' = validate m"
proof -
  let ?time = "stored_event_time (event_store m)"
  have "mset (std_sort (\<lambda>a b. ?time a < ?time b) []) = mset []" using sort unfolding sort_laws_def by blast
  then have order: "std_sort (\<lambda>a b. ?time a < ?time b) [] = []" by simp
  define kept where "kept = (\<lambda>mw :: ('a, 'b, 'c, 'd) Manager \<times> 'e. manager_ok (fst mw) \<and> snapshots (fst mw) = snapshots m
    \<and> validate (fst mw) = validate m)"
  have pause: "kept (waiting p mw)" if "kept mw" for p mw
    using that quietD(1) [OF waiting_okD(2) [OF waiting, of "fst mw" p "snd mw"]]
      heard_members [OF waiting_okD(1) [OF waiting, of "fst mw" p "snd mw"]]
    by (simp add: kept_def)
  have "kept (m\<lparr>events := []\<rparr>, w)" using ok by (simp add: kept_def manager_ok_def)
  moreover have "(m', w') = (let mw = (m\<lparr>events := []\<rparr>, w);
       mw = (if snapshots_output_file (fst mw) \<noteq> [] then waiting Last_Snapshot_Delay mw else mw)
       in if \<not> auto_shutdown (fst mw) then waiting Press_Any_Key mw else mw)"
    using run by (simp add: runEvents_def none order Let_def)
  ultimately have "kept (m', w')" by (simp add: Let_def pause)
  then show ?thesis by (simp add: kept_def)
qed

text \<open>Events that create nothing never end in a null pointer, so the run comes to its end.\<close>

definition creates :: "('g, 'q) event_action \<Rightarrow> bool" where
  "creates act = (case act of
     DelayedParticipantCreation q r d g \<Rightarrow> True
   | DelayedEndpointCreation k tn ty tp ep g l ow \<Rightarrow> True
   | _ \<Rightarrow> False)"

lemma execute_event_returns:
  assumes "event_store m a = Some e" "\<not> creates (event_action e)"
  shows "\<exists>m' w'. execute_event D P dbg a (m, w) = Inr (m', w') \<and> event_store m' = event_store m"
proof (cases "event_action e")
  case (DelayedParticipantDestruction g)
  then show ?thesis using assms(1)
    by (auto simp: execute_event_def participant_destruction_def removeParticipant_def deleteParticipant_def
        Let_def split_beta split: option.split)
next
  case (DelayedEndpointDestruction k g)
  then show ?thesis using assms(1)
    by (cases k) (auto simp: execute_event_def endpoint_destruction_def retrieve_endpoint_def removeSubscriber_def
        removePublisher_def remove_endpoint_def deleteDataReader_def deleteDataWriter_def entity_index_def
        Let_def split_beta split: option.split)
qed (use assms in \<open>auto simp: execute_event_def creates_def snapshot_event_def manager_takeSnapshot_def
      environment_modification_def split: option.split\<close>)

lemma runEvents_runs:
  assumes sort: "sort_laws std_sort" and waiting: "waiting_ok waiting" and ok: "manager_ok m"
    and events: "\<forall>a\<in>set (events m). \<exists>e. event_store m a = Some e \<and> \<not> creates (event_action e)"
  shows "\<exists>m' w'. runEvents std_sort waiting D P dbg (m, w) = Inr (m', w')"
proof -
  have fold: "\<exists>mw. fold_run (\<lambda>p mw. execute_event D P dbg p (waiting (Sleep_Until (time p)) mw)) xs (m1, w1) = Inr mw"
    if "manager_ok m1" "event_store m1 = event_store m" "set xs \<subseteq> set (events m)" for time xs m1 w1
    using that
  proof (induction xs arbitrary: m1 w1)
    case (Cons a xs)
    obtain m2 w2 where wait: "waiting (Sleep_Until (time a)) (m1, w1) = (m2, w2)" by (metis prod.collapse)
    have m2: "manager_ok m2" "event_store m2 = event_store m"
      using waiting_okD [OF waiting Cons.prems(1), of "Sleep_Until (time a)" w1] Cons.prems(2) wait
      by (simp_all add: heard_members quietD)
    obtain m3 w3 where m3: "execute_event D P dbg a (m2, w2) = Inr (m3, w3)" "event_store m3 = event_store m"
      using events Cons.prems(3) m2(2) execute_event_returns [of m2 a _ D P dbg w2] by fastforce
    with Cons.IH [of m3 w3] execute_event_effect [OF m2(1) m3(1)] Cons.prems(3) show ?case by (simp add: wait)
  qed simp
  let ?time = "stored_event_time (event_store m)"
  define order where "order = std_sort (\<lambda>a b. ?time a < ?time b) (events m)"
  have "mset order = mset (events m)" using sort unfolding order_def sort_laws_def by blast
  then have "set order = set (events m)" by (metis set_mset_mset)
  then obtain mw where "fold_run (\<lambda>p mw. execute_event D P dbg p (waiting (Sleep_Until (?time p)) mw)) order
      (m\<lparr>events := order\<rparr>, w) = Inr mw"
    using fold [of "m\<lparr>events := order\<rparr>" order ?time w] ok by (auto simp: manager_ok_def)
  then show ?thesis by (simp add: runEvents_def order_def [symmetric] Let_def)
qed

theorem runEvents_returns:
  assumes sort: "sort_laws std_sort" and waiting: "waiting_ok waiting" and ok: "manager_ok m"
    and events: "\<forall>a\<in>set (events m). \<exists>e. event_store m a = Some e \<and> \<not> creates (event_action e)"
  shows "\<exists>m' w'. runEvents std_sort waiting D P dbg (m, w) = Inr (m', w')"
  by (rule runEvents_runs [OF assms])

section \<open>Instances\<close>

fun insert_by :: "(address \<Rightarrow> address \<Rightarrow> bool) \<Rightarrow> address \<Rightarrow> address list \<Rightarrow> address list" where
  "insert_by lt x [] = [x]"
| "insert_by lt x (y # ys) = (if lt y x then y # insert_by lt x ys else x # y # ys)"

definition insertion_sort :: "(address \<Rightarrow> address \<Rightarrow> bool) \<Rightarrow> address list \<Rightarrow> address list" where
  "insertion_sort lt xs = foldr (insert_by lt) xs []"

lemma insert_by_mset: "mset (insert_by lt x ys) = add_mset x (mset ys)"
  by (induction ys) auto

lemma insert_by_sorted:
  fixes time :: "address \<Rightarrow> int"
  assumes "sorted (map time ys)"
  shows "sorted (map time (insert_by (\<lambda>a b. time a < time b) x ys))"
  using assms
proof (induction ys)
  case (Cons y ys)
  have "set (insert_by (\<lambda>a b. time a < time b) x ys) = insert x (set ys)"
    using arg_cong [OF insert_by_mset, of set_mset "\<lambda>a b. time a < time b" x ys] by simp
  with Cons show ?case by auto
qed simp

lemma insertion_sort_laws: "sort_laws insertion_sort"
proof -
  have "mset (insertion_sort lt xs) = mset xs" for lt xs
    by (induction xs) (simp_all add: insertion_sort_def insert_by_mset)
  moreover have "sorted (map time (insertion_sort (\<lambda>a b. time a < time b) xs))" for time :: "address \<Rightarrow> int" and xs
    by (induction xs) (simp_all add: insertion_sort_def insert_by_sorted)
  ultimately show ?thesis by (simp add: sort_laws_def)
qed

definition silent :: "pause \<Rightarrow> ('g::linorder, 'd, 'q, 'l) Manager \<times> 'w \<Rightarrow> ('g, 'd, 'q, 'l) Manager \<times> 'w" where
  "silent p mw = mw"

lemma silent_ok: "waiting_ok silent"
  by (simp add: waiting_ok_def silent_def heard_def manager_okD)

definition sample_platform :: "'w platform" where
  "sample_platform = \<lparr>steady_now = (\<lambda>_. 60), getenv = (\<lambda>_ _. None), write_file = (\<lambda>_ _ w. w)\<rparr>"

lemma late_events:
  "\<forall>a\<in>set (events late_manager). \<exists>e. event_store late_manager a = Some e \<and> \<not> creates (event_action e)"
  by (simp add: late_manager_def creates_def)

theorem runEvents_returns_witness:
  "\<exists>m' w'. runEvents insertion_sort silent sample_dds sample_platform True (late_manager, []) = Inr (m', w')"
  by (rule runEvents_returns [OF insertion_sort_laws silent_ok late_manager_ok late_events])

theorem runEvents_snapshots_witness:
  "\<exists>m' w'. runEvents insertion_sort silent sample_dds sample_platform True (late_manager, []) = Inr (m', w')
    \<and> manager_ok m' \<and> mset (events m') = {#7, 8, 9#}
    \<and> map taken (snapshots m') = List.map_filter (wants_snapshot late_manager) (events m')"
proof -
  obtain m' w' where "runEvents insertion_sort silent sample_dds sample_platform True (late_manager, []) = Inr (m', w')"
    using runEvents_runs [OF insertion_sort_laws silent_ok late_manager_ok late_events, of sample_dds sample_platform True "[]"]
    by blast
  from runEvents_snapshots [OF insertion_sort_laws silent_ok late_manager_ok this] this show ?thesis
    by (auto simp: late_manager_def sample_manager_def new_manager_def)
qed

end
