(* ===== verification/Snapshot_Roundtrip.thy ===== *)
theory Snapshot_Roundtrip
  imports Snapshot_Xml
begin

text \<open>
  What a snapshot keeps when it is written to a file and read back, and that the verdict of the
  validation is among it.
\<close>

section \<open>Documents\<close>

named_theorems xml_simps "what a document returns after each call that builds it"

lemma xml_reads [xml_simps]:
  assumes "xml_laws X"
  shows "Attribute X k (SetAttribute X k (Text_Value s) x) = Some s"
    and "int64 n \<Longrightarrow> Int64Attribute X k (SetAttribute X k (Int64_Value n) x) = n"
    and "QueryBoolAttribute X k (SetAttribute X k (Bool_Value b) x) = XML_SUCCESS b"
    and "QueryIntAttribute X k (SetAttribute X k (Int_Value m) x) = XML_SUCCESS m"
    and "QueryIntAttribute X k (NewElement X name) = XML_NO_ATTRIBUTE"
    and "t \<noteq> [] \<Longrightarrow> GetText X (SetText X t x) = Some t"
  using assms by (simp_all add: xml_laws_def)

lemma xml_frame:
  assumes "xml_laws X"
  shows "k \<noteq> k' \<Longrightarrow> attribute_reads X k (SetAttribute X k' v x) = attribute_reads X k x"
    and "attribute_reads X k (InsertEndChild X x c) = attribute_reads X k x"
  using assms by (simp_all add: xml_laws_def)

lemma xml_frames [xml_simps]:
  assumes "xml_laws X"
  shows "k \<noteq> k' \<Longrightarrow> Attribute X k (SetAttribute X k' v x) = Attribute X k x"
    and "k \<noteq> k' \<Longrightarrow> Int64Attribute X k (SetAttribute X k' v x) = Int64Attribute X k x"
    and "k \<noteq> k' \<Longrightarrow> QueryBoolAttribute X k (SetAttribute X k' v x) = QueryBoolAttribute X k x"
    and "k \<noteq> k' \<Longrightarrow> QueryIntAttribute X k (SetAttribute X k' v x) = QueryIntAttribute X k x"
  using xml_frame(1) [OF assms, of k k' v x] by (simp_all add: attribute_reads_def)

lemma xml_structure [xml_simps]:
  assumes "xml_laws X"
  shows "ElementName X (NewElement X n) = n"
    and "ElementName X (SetAttribute X k v x) = ElementName X x"
    and "ElementName X (SetText X t x) = ElementName X x"
    and "ElementName X (InsertEndChild X x c) = ElementName X x"
    and "ChildElements X n (NewElement X m) = []"
    and "ChildElements X n (SetAttribute X k v x) = ChildElements X n x"
    and "ChildElements X n (InsertEndChild X x c) =
           ChildElements X n x @ (if ElementName X c = n then [c] else [])"
  using assms by (simp_all add: xml_laws_def)

lemma xml_inserts [xml_simps]:
  assumes "xml_laws X"
  shows "attribute_reads X k (fold (\<lambda>a x. InsertEndChild X x (f a)) as x) = attribute_reads X k x"
    and "ElementName X (fold (\<lambda>a x. InsertEndChild X x (f a)) as x) = ElementName X x"
    and "ChildElements X n (fold (\<lambda>a x. InsertEndChild X x (f a)) as x) =
           ChildElements X n x @ filter (\<lambda>c. ElementName X c = n) (map f as)"
  using assms by (induction as arbitrary: x) (simp_all add: xml_simps xml_frame)

lemma xml_insert_reads [xml_simps]:
  assumes "xml_laws X"
  shows "Attribute X k (InsertEndChild X x c) = Attribute X k x"
    and "Int64Attribute X k (InsertEndChild X x c) = Int64Attribute X k x"
    and "QueryBoolAttribute X k (InsertEndChild X x c) = QueryBoolAttribute X k x"
    and "QueryIntAttribute X k (InsertEndChild X x c) = QueryIntAttribute X k x"
    and "Attribute X k (fold (\<lambda>a x. InsertEndChild X x (f a)) as x) = Attribute X k x"
    and "Int64Attribute X k (fold (\<lambda>a x. InsertEndChild X x (f a)) as x) = Int64Attribute X k x"
    and "QueryBoolAttribute X k (fold (\<lambda>a x. InsertEndChild X x (f a)) as x) = QueryBoolAttribute X k x"
    and "QueryIntAttribute X k (fold (\<lambda>a x. InsertEndChild X x (f a)) as x) = QueryIntAttribute X k x"
  using xml_frame(2) [OF assms, of k x c] xml_inserts(1) [OF assms, of k f as x]
  by (simp_all add: attribute_reads_def)

lemmas xml_names =
  s_sDS_Snapshots_def s_sDS_Snapshot_def s_sTimestamp_def s_sProcessTime_def s_sLastPdpCallback_def
  s_sLastEdpCallback_def s_sSomeone_def s_sDescription_def s_sPtDB_def s_sPtDI_def s_sPublisher_def
  s_sSubscriber_def s_sGUID_prefix_def s_sGUID_entity_def s_sServer_def s_sAlive_def s_sName_def
  s_sTopic_def s_sType_def s_sAliveCount_def s_sNotAliveCount_def s_sDiscovered_timestamp_def

lemma BoolAttribute_set [xml_simps]:
  "xml_laws X \<Longrightarrow> BoolAttribute X k d (SetAttribute X k (Bool_Value b) x) = b"
  "xml_laws X \<Longrightarrow> k \<noteq> k' \<Longrightarrow> BoolAttribute X k d (SetAttribute X k' v x) = BoolAttribute X k d x"
  "xml_laws X \<Longrightarrow> BoolAttribute X k d (InsertEndChild X x c) = BoolAttribute X k d x"
  "xml_laws X \<Longrightarrow> BoolAttribute X k d (fold (\<lambda>a x. InsertEndChild X x (f a)) as x) = BoolAttribute X k d x"
  by (simp_all add: BoolAttribute_def xml_simps)

section \<open>Times\<close>

definition snapshot_times :: "'g Snapshot \<Rightarrow> time_point set" where
  "snapshot_times s = {snapshot_time s, last_PDP_callback s, last_EDP_callback s} \<union>
     (\<Union>db\<in>set (databases s). \<Union>p\<in>set (participants db).
        {participant_timestamp p} \<union> discovered_timestamp ` set (datawriters p)
          \<union> discovered_timestamp ` set (datareaders p))"

definition times_ok :: "clocks \<Rightarrow> 'g Snapshot \<Rightarrow> bool" where
  "times_ok clk s \<longleftrightarrow> int64 (getSystemTime clk (snapshot_time s)) \<and>
     (\<forall>t\<in>snapshot_times s. int64 (t - process_startup s))"

lemma int64_ms: "int64 d \<Longrightarrow> int64 (duration_cast_ms d)"
proof (cases "d < 0")
  case True
  then have "duration_cast_ms d = - ((- d) div 1000000)" by (simp add: duration_cast_ms_def)
  then show "int64 d \<Longrightarrow> ?thesis" using True unfolding int64_def by linarith
next
  case False
  then show "int64 d \<Longrightarrow> ?thesis" unfolding int64_def by (simp add: duration_cast_ms_nonneg) linarith
qed

section \<open>What is stored\<close>

definition stored_time :: "time_point \<Rightarrow> time_point \<Rightarrow> time_point \<Rightarrow> time_point" where
  "stored_time startup startup' t = startup' + of_ms (duration_cast_ms (t - startup))"

definition stored_writer ::
  "'g Snapshot \<Rightarrow> time_point \<Rightarrow> 'g DataWriterDiscoveryItem \<Rightarrow> 'g DataWriterDiscoveryItem" where
  "stored_writer s startup' w =
     w\<lparr>discovered_timestamp := stored_time (process_startup s) startup' (discovered_timestamp w)\<rparr>"

definition stored_reader ::
  "'g guid_text \<Rightarrow> 'g Snapshot \<Rightarrow> time_point \<Rightarrow> 'g \<Rightarrow> 'g DataReaderDiscoveryItem
    \<Rightarrow> 'g DataReaderDiscoveryItem" where
  "stored_reader G s startup' owner r =
     r\<lparr>discovered_timestamp := stored_time (process_startup s) startup' (discovered_timestamp r),
       alive_count := (if show_liveliness s \<and> same_prefix G (endpoint_guid r) owner
                       then alive_count r else 0),
       not_alive_count := 0\<rparr>"

definition stored_participant ::
  "'g guid_text \<Rightarrow> 'g Snapshot \<Rightarrow> time_point \<Rightarrow> 'g \<Rightarrow> 'g ParticipantDiscoveryItem
    \<Rightarrow> 'g ParticipantDiscoveryItem" where
  "stored_participant G s startup' owner p =
     \<lparr>endpoint_guid = endpoint_guid p, is_server = is_server p, is_alive = is_alive p,
      participant_name = participant_name p,
      participant_timestamp = stored_time (process_startup s) startup' (participant_timestamp p),
      datawriters = map (stored_writer s startup') (datawriters p),
      datareaders = map (stored_reader G s startup' owner) (datareaders p)\<rparr>"

definition stored_database ::
  "'g guid_text \<Rightarrow> 'g Snapshot \<Rightarrow> time_point \<Rightarrow> 'g ParticipantDiscoveryDatabase
    \<Rightarrow> 'g ParticipantDiscoveryDatabase" where
  "stored_database G s startup' db =
     \<lparr>endpoint_guid = endpoint_guid db, db_participant_name = [],
      participants = map (stored_participant G s startup' (endpoint_guid db)) (participants db)\<rparr>"

definition shown_in :: "'g guid_text \<Rightarrow> 'g \<Rightarrow> 'g ParticipantDiscoveryItem \<Rightarrow> bool" where
  "shown_in G owner p \<longleftrightarrow> (\<exists>r\<in>set (datareaders p). same_prefix G (endpoint_guid r) owner)"

definition shows_liveliness :: "'g guid_text \<Rightarrow> 'g Snapshot \<Rightarrow> bool" where
  "shows_liveliness G s \<longleftrightarrow> show_liveliness s \<and>
     (\<exists>db\<in>set (databases s). \<exists>p\<in>set (participants db). shown_in G (endpoint_guid db) p)"

text \<open>
  The clocks are fixed when a process starts. A file is written by one process, with the clocks
  \<open>clk\<close>, and read by a later one, with the clocks \<open>clk'\<close>.
\<close>

definition stored :: "'g guid_text \<Rightarrow> clocks \<Rightarrow> clocks \<Rightarrow> 'g Snapshot \<Rightarrow> 'g Snapshot" where
  "stored G clk clk' s =
     (let time = of_ms (duration_cast_ms (getSystemTime clk (snapshot_time s)))
                   - system_clock clk' + steady_clock clk';
          startup' = time - of_ms (duration_cast_ms (snapshot_time s - process_startup s))
      in \<lparr>databases = map (stored_database G s startup') (databases s), process_startup = startup',
          snapshot_time = time,
          last_PDP_callback = stored_time (process_startup s) startup' (last_PDP_callback s),
          last_EDP_callback = stored_time (process_startup s) startup' (last_EDP_callback s),
          if_someone = if_someone s, show_liveliness = shows_liveliness G s,
          description = description s\<rparr>)"

lemma stored_guids [simp]:
  "endpoint_guid (stored_writer s t w) = endpoint_guid w"
  "endpoint_guid (stored_reader G s t g r) = endpoint_guid r"
  "endpoint_guid (stored_participant G s t g p) = endpoint_guid p"
  "endpoint_guid (stored_database G s t db) = endpoint_guid db"
  by (simp_all add: stored_writer_def stored_reader_def stored_participant_def stored_database_def)

lemma new_endpoints_stored:
  "new_datawriter (endpoint_guid w) (type_name w) (topic_name w)
     (stored_time (process_startup s) t (discovered_timestamp w)) = stored_writer s t w"
  "\<not> (show_liveliness s \<and> same_prefix G (endpoint_guid r) owner) \<Longrightarrow>
   new_datareader (endpoint_guid r) (type_name r) (topic_name r)
     (stored_time (process_startup s) t (discovered_timestamp r)) = stored_reader G s t owner r"
  "show_liveliness s \<and> same_prefix G (endpoint_guid r) owner \<Longrightarrow>
   (new_datareader (endpoint_guid r) (type_name r) (topic_name r)
     (stored_time (process_startup s) t (discovered_timestamp r)))\<lparr>alive_count := alive_count r\<rparr>
   = stored_reader G s t owner r"
  by (auto simp: stored_writer_def stored_reader_def item_defs)

section \<open>Reading back what was written\<close>

lemma guid_back:
  assumes "xml_laws X" "guid_laws G"
    and "Attribute X s_sGUID_prefix x = Some (show_prefix G g)"
    and "Attribute X s_sGUID_entity x = Some (show_entity G g)"
  shows "guid_from_xml X G x = Inr g"
  using assms by (simp add: guid_from_xml_def guid_laws_def)

lemma endpoint_back:
  assumes laws: "xml_laws X" "guid_laws G" and time: "int64 (discovered_timestamp e - startup)"
  shows "endpoint_from_xml X G mk startup' (set_endpoint X G startup e x) =
      Inr (mk (endpoint_guid e) (type_name e) (topic_name e)
        (stored_time startup startup' (discovered_timestamp e)))"
    and "endpoint_from_xml X G mk startup' (SetAttribute X s_sNotAliveCount v
      (SetAttribute X s_sAliveCount v' (set_endpoint X G startup e x))) =
      Inr (mk (endpoint_guid e) (type_name e) (topic_name e)
        (stored_time startup startup' (discovered_timestamp e)))"
  using laws int64_ms [OF time]
  by (simp_all add: endpoint_from_xml_def guid_from_xml_def guid_laws_def set_endpoint_def set_guid_def
      stored_time_def xml_simps xml_names)

lemma datareader_back:
  assumes laws: "xml_laws X" "guid_laws G" and time: "int64 (discovered_timestamp r - process_startup s)"
  shows "datareader_from_xml X G startup' (datareader_to_xml X G s owner r) (lv, item) =
    Inr (lv \<or> show_liveliness s \<and> same_prefix G (endpoint_guid r) owner,
         item\<lparr>datareaders := std_put endpoint_guid (stored_reader G s startup' owner r) (datareaders item)\<rparr>)"
proof -
  let ?x = "set_endpoint X G (process_startup s) r (NewElement X s_sSubscriber)"
  let ?y = "SetAttribute X s_sNotAliveCount (Int_Value (not_alive_count r))
      (SetAttribute X s_sAliveCount (Int_Value (alive_count r)) ?x)"
  have "QueryIntAttribute X s_sAliveCount ?x = XML_NO_ATTRIBUTE"
    "QueryIntAttribute X s_sNotAliveCount ?x = XML_NO_ATTRIBUTE"
    "QueryIntAttribute X s_sAliveCount ?y = XML_SUCCESS (alive_count r)"
    using laws(1) by (simp_all add: set_endpoint_def set_guid_def xml_simps xml_names)
  then show ?thesis
    using new_endpoints_stored(2,3) [of s G r owner startup']
    by (auto simp: datareader_from_xml_def datareader_to_xml_def endpoint_back [OF laws time]
        liveliness_from_xml_def Let_def)
qed

lemma datareaders_back:
  assumes laws: "xml_laws X" "guid_laws G"
  shows "(\<forall>r\<in>set rs. int64 (discovered_timestamp r - process_startup s)) \<Longrightarrow>
    fold_run (datareader_from_xml X G startup') (map (datareader_to_xml X G s owner) rs) (lv, item) =
    Inr (lv \<or> show_liveliness s \<and> (\<exists>r\<in>set rs. same_prefix G (endpoint_guid r) owner),
         item\<lparr>datareaders := fold (std_put endpoint_guid) (map (stored_reader G s startup' owner) rs)
                              (datareaders item)\<rparr>)"
  by (induction rs arbitrary: lv item) (auto simp: datareader_back [OF laws])

lemma datawriters_back:
  assumes laws: "xml_laws X" "guid_laws G"
  shows "(\<forall>w\<in>set ws. int64 (discovered_timestamp w - process_startup s)) \<Longrightarrow>
    fold_run (datawriter_from_xml X G startup') (map (datawriter_to_xml X G s) ws) item =
    Inr (item\<lparr>datawriters := fold (std_put endpoint_guid) (map (stored_writer s startup') ws)
                              (datawriters item)\<rparr>)"
proof (induction ws arbitrary: item)
  case (Cons w ws)
  then show ?case
    by (simp add: datawriter_from_xml_def datawriter_to_xml_def endpoint_back [OF laws]
        new_endpoints_stored)
qed simp

lemma std_put_last: "\<forall>y\<in>set ys. key y < key x \<Longrightarrow> std_put key x ys = ys @ [x]"
  by (induction ys) auto

lemma fold_put_sorted: "std_ok key (ys @ xs) \<Longrightarrow> fold (std_put key) xs ys = ys @ xs"
proof (induction xs arbitrary: ys)
  case (Cons x xs)
  from Cons.prems have "std_put key x ys = ys @ [x]"
    by (intro std_put_last) (auto simp: std_ok_def sorted_wrt_append)
  with Cons show ?case by simp
qed simp

lemma fold_put_map:
  "std_ok key xs \<Longrightarrow> (\<And>x. key' (f x) = key x) \<Longrightarrow> fold (std_put key') (map f xs) [] = map f xs"
  by (rule fold_put_sorted [of _ "[]", simplified]) (simp add: std_ok_keys o_def)


section \<open>Participants and databases\<close>

lemma child_elements:
  assumes "xml_laws X" "\<And>a. ElementName X (f a) = m"
  shows "filter (\<lambda>c. ElementName X c = n) (map f as) = (if n = m then map f as else [])"
  using assms(2) by (induction as) auto

lemma element_names:
  assumes "xml_laws X"
  shows "ElementName X (datareader_to_xml X G s owner r) = s_sSubscriber"
    and "ElementName X (datawriter_to_xml X G s w) = s_sPublisher"
    and "ElementName X (participant_to_xml X G s owner p) = s_sPtDI"
    and "ElementName X (database_to_xml X G s db) = s_sPtDB"
    and "ElementName X (to_xml X G clk s x) = ElementName X x"
  using assms by (simp_all add: datareader_to_xml_def datawriter_to_xml_def participant_to_xml_def
      database_to_xml_def to_xml_def set_endpoint_def set_guid_def Let_def xml_simps)

lemma participant_elements:
  assumes "xml_laws X"
  shows "ChildElements X s_sSubscriber (participant_to_xml X G s owner p) =
      map (datareader_to_xml X G s owner) (datareaders p)"
    and "ChildElements X s_sPublisher (participant_to_xml X G s owner p) =
      map (datawriter_to_xml X G s) (datawriters p)"
    and "ChildElements X s_sPtDI (database_to_xml X G s db) =
      map (participant_to_xml X G s (endpoint_guid db)) (participants db)"
proof -
  have [simp]: "s_sSubscriber \<noteq> s_sPublisher" "s_sPublisher \<noteq> s_sSubscriber" by (simp_all add: xml_names)
  show "ChildElements X s_sSubscriber (participant_to_xml X G s owner p) =
      map (datareader_to_xml X G s owner) (datareaders p)"
    "ChildElements X s_sPublisher (participant_to_xml X G s owner p) =
      map (datawriter_to_xml X G s) (datawriters p)"
    using assms by (simp_all add: participant_to_xml_def set_guid_def Let_def xml_simps element_names
        child_elements [OF assms element_names(1) [OF assms]]
        child_elements [OF assms element_names(2) [OF assms]] del: filter_map)
  show "ChildElements X s_sPtDI (database_to_xml X G s db) =
      map (participant_to_xml X G s (endpoint_guid db)) (participants db)"
    using assms by (simp add: database_to_xml_def set_guid_def Let_def xml_simps
        child_elements [OF assms element_names(3) [OF assms]])
qed

definition participant_times_ok :: "'g Snapshot \<Rightarrow> 'g ParticipantDiscoveryItem \<Rightarrow> bool" where
  "participant_times_ok s p \<longleftrightarrow> int64 (participant_timestamp p - process_startup s)
     \<and> (\<forall>w\<in>set (datawriters p). int64 (discovered_timestamp w - process_startup s))
     \<and> (\<forall>r\<in>set (datareaders p). int64 (discovered_timestamp r - process_startup s))"

lemma participant_attributes:
  assumes laws: "xml_laws X" "guid_laws G" and time: "int64 (participant_timestamp p - process_startup s)"
  shows "guid_from_xml X G (participant_to_xml X G s owner p) = Inr (endpoint_guid p)"
    and "Attribute X s_sName (participant_to_xml X G s owner p) = Some (participant_name p)"
    and "BoolAttribute X s_sServer d (participant_to_xml X G s owner p) = is_server p"
    and "QueryBoolAttribute X s_sAlive (participant_to_xml X G s owner p) = XML_SUCCESS (is_alive p)"
    and "Int64Attribute X s_sDiscovered_timestamp (participant_to_xml X G s owner p) =
      duration_cast_ms (participant_timestamp p - process_startup s)"
  using laws int64_ms [OF time]
  by (simp_all add: participant_to_xml_def set_guid_def guid_from_xml_def guid_laws_def Let_def xml_simps xml_names)

lemma participant_back:
  assumes laws: "xml_laws X" "guid_laws G" and times: "participant_times_ok s p" and ok: "participant_ok p"
  shows "participant_from_xml X G startup' (participant_to_xml X G s owner p) (lv, db) =
    Inr (lv \<or> show_liveliness s \<and> shown_in G owner p,
         db\<lparr>participants := std_put endpoint_guid (stored_participant G s startup' owner p) (participants db)\<rparr>)"
proof -
  have puts: "fold (std_put endpoint_guid) (map (stored_reader G s startup' owner) (datareaders p)) [] =
      map (stored_reader G s startup' owner) (datareaders p)"
    "fold (std_put endpoint_guid) (map (stored_writer s startup') (datawriters p)) [] =
      map (stored_writer s startup') (datawriters p)"
    using ok by (auto simp: participant_ok_def intro!: fold_put_map)
  have time: "int64 (participant_timestamp p - process_startup s)"
    and rs: "\<forall>r\<in>set (datareaders p). int64 (discovered_timestamp r - process_startup s)"
    and ws: "\<forall>w\<in>set (datawriters p). int64 (discovered_timestamp w - process_startup s)"
    using times by (simp_all add: participant_times_ok_def)
  show ?thesis
    by (simp add: participant_from_xml_def Let_def participant_attributes [OF laws time]
        participant_elements [OF laws(1)] datareaders_back [OF laws rs] datawriters_back [OF laws ws]
        new_participant_def puts shown_in_def stored_participant_def stored_time_def)
qed

lemma participants_back:
  assumes laws: "xml_laws X" "guid_laws G"
  shows "(\<forall>p\<in>set ps. participant_times_ok s p \<and> participant_ok p) \<Longrightarrow>
    fold_run (participant_from_xml X G startup') (map (participant_to_xml X G s owner) ps) (lv, db) =
    Inr (lv \<or> show_liveliness s \<and> (\<exists>p\<in>set ps. shown_in G owner p),
         db\<lparr>participants := fold (std_put endpoint_guid) (map (stored_participant G s startup' owner) ps)
                              (participants db)\<rparr>)"
  by (induction ps arbitrary: lv db) (auto simp: participant_back [OF laws])

lemma database_back:
  assumes laws: "xml_laws X" "guid_laws G"
    and ok: "participants_ok (participants db)" "\<forall>p\<in>set (participants db). participant_times_ok s p"
  shows "database_from_xml X G (database_to_xml X G s db) t =
    Inr (t\<lparr>show_liveliness := show_liveliness t \<or>
             show_liveliness s \<and> (\<exists>p\<in>set (participants db). shown_in G (endpoint_guid db) p),
           databases := std_put endpoint_guid (stored_database G s (process_startup t) db) (databases t)\<rparr>)"
proof -
  have guid: "guid_from_xml X G (database_to_xml X G s db) = Inr (endpoint_guid db)"
    using laws by (simp add: database_to_xml_def set_guid_def guid_from_xml_def guid_laws_def xml_simps xml_names)
  have ps: "\<forall>p\<in>set (participants db). participant_times_ok s p \<and> participant_ok p"
    using ok by (auto simp: participants_ok_def)
  have put: "fold (std_put endpoint_guid)
      (map (stored_participant G s (process_startup t) (endpoint_guid db)) (participants db)) [] =
      map (stored_participant G s (process_startup t) (endpoint_guid db)) (participants db)"
    using ok by (auto simp: participants_ok_def intro!: fold_put_map)
  show ?thesis
    by (simp add: database_from_xml_def guid participant_elements [OF laws(1)] participants_back [OF laws ps]
        new_database_def put stored_database_def)
qed

lemma databases_back:
  assumes laws: "xml_laws X" "guid_laws G"
  shows "(\<forall>db\<in>set dbs. participants_ok (participants db) \<and>
      (\<forall>p\<in>set (participants db). participant_times_ok s p)) \<Longrightarrow>
    fold_run (database_from_xml X G) (map (database_to_xml X G s) dbs) t =
    Inr (t\<lparr>show_liveliness := show_liveliness t \<or> show_liveliness s \<and>
             (\<exists>db\<in>set dbs. \<exists>p\<in>set (participants db). shown_in G (endpoint_guid db) p),
           databases := fold (std_put endpoint_guid) (map (stored_database G s (process_startup t)) dbs)
                          (databases t)\<rparr>)"
  by (induction dbs arbitrary: t) (simp_all add: database_back [OF laws] conj_disj_distribL disj_assoc)


section \<open>The whole snapshot\<close>

lemma times_ok_participants:
  "times_ok clk s \<Longrightarrow> db \<in> set (databases s) \<Longrightarrow> p \<in> set (participants db) \<Longrightarrow> participant_times_ok s p"
  by (auto simp: times_ok_def snapshot_times_def participant_times_ok_def)

lemma times_ok_head:
  "times_ok clk s \<Longrightarrow> int64 (getSystemTime clk (snapshot_time s))
    \<and> int64 (snapshot_time s - process_startup s)
    \<and> int64 (last_PDP_callback s - process_startup s)
    \<and> int64 (last_EDP_callback s - process_startup s)"
  by (simp add: times_ok_def snapshot_times_def)

lemma to_xml_attributes:
  assumes laws: "xml_laws X" and times: "times_ok clk s"
  shows "Int64Attribute X s_sTimestamp (to_xml X G clk s x) = duration_cast_ms (getSystemTime clk (snapshot_time s))"
    and "Int64Attribute X s_sProcessTime (to_xml X G clk s x) = duration_cast_ms (snapshot_time s - process_startup s)"
    and "Int64Attribute X s_sLastPdpCallback (to_xml X G clk s x) = duration_cast_ms (last_PDP_callback s - process_startup s)"
    and "Int64Attribute X s_sLastEdpCallback (to_xml X G clk s x) = duration_cast_ms (last_EDP_callback s - process_startup s)"
    and "BoolAttribute X s_sSomeone b (to_xml X G clk s x) = if_someone s"
  using laws times_ok_head [OF times] by (simp_all add: to_xml_def Let_def xml_simps xml_names int64_ms)

lemma to_xml_elements:
  assumes laws: "xml_laws X"
  shows "ChildElements X s_sDescription (to_xml X G clk s (NewElement X m)) =
      [SetText X (description s) (NewElement X s_sDescription)]"
    and "ChildElements X s_sPtDB (to_xml X G clk s (NewElement X m)) = map (database_to_xml X G s) (databases s)"
proof -
  have [simp]: "s_sDescription \<noteq> s_sPtDB" "s_sPtDB \<noteq> s_sDescription" by (simp_all add: xml_names)
  show "ChildElements X s_sDescription (to_xml X G clk s (NewElement X m)) =
      [SetText X (description s) (NewElement X s_sDescription)]"
    "ChildElements X s_sPtDB (to_xml X G clk s (NewElement X m)) = map (database_to_xml X G s) (databases s)"
    using laws by (simp_all add: to_xml_def Let_def xml_simps
        child_elements [OF laws element_names(4) [OF laws]])
qed

lemma snapshot_back:
  assumes laws: "xml_laws X" "guid_laws G" and ok: "image_ok s" and times: "times_ok clk s"
    and desc: "description s \<noteq> []" and fresh: "databases t = []" "\<not> show_liveliness t"
  shows "from_xml X G clk' (Some (to_xml X G clk s (NewElement X m))) t = Inr (stored G clk clk' s)"
proof -
  have dbs: "\<forall>db\<in>set (databases s). participants_ok (participants db) \<and>
      (\<forall>p\<in>set (participants db). participant_times_ok s p)"
    using ok times by (auto simp: image_ok_def intro: times_ok_participants)
  have desc_text: "GetText X (SetText X (description s) (NewElement X s_sDescription)) = Some (description s)"
    using laws desc by (simp add: xml_simps)
  have put: "fold (std_put endpoint_guid) (map (stored_database G s t') (databases s)) [] =
      map (stored_database G s t') (databases s)" for t'
    using ok by (auto intro!: fold_put_map)
  show ?thesis
    using fresh
    by (simp add: from_xml_def Let_def to_xml_attributes [OF laws(1) times] to_xml_elements [OF laws(1)]
        desc_text databases_back [OF laws dbs] put stored_def stored_time_def shows_liveliness_def)
qed

section \<open>Files\<close>

lemma saveSnapshots_elements:
  assumes "xml_laws X"
  shows "ChildElements X s_sDS_Snapshot (saveSnapshots X G clk snapshots) =
      map (\<lambda>sh. to_xml X G clk sh (NewElement X s_sDS_Snapshot)) snapshots"
    and "ElementName X (saveSnapshots X G clk snapshots) = s_sDS_Snapshots"
  using assms by (simp_all add: saveSnapshots_def xml_simps
      child_elements [OF assms, where m = s_sDS_Snapshot] element_names)

lemma load_merging_loaded:
  "\<forall>x\<in>set xs. parse x = Inr (f x) \<Longrightarrow>
   load_merging parse xs merged rest = Inr (merged @ merge_loaded rest (map f xs))"
proof (induction xs arbitrary: merged rest)
  case (Cons x xs)
  then show ?case by (cases rest) auto
qed simp

lemma load_merging_parsed:
  "map parse xs = map Inr shs \<Longrightarrow>
   load_merging parse xs merged rest = Inr (merged @ merge_loaded rest shs)"
proof (induction xs arbitrary: shs merged rest)
  case (Cons x xs)
  then obtain sh shs' where "shs = sh # shs'" "parse x = Inr sh" "map parse xs = map Inr shs'"
    by (cases shs) auto
  with Cons.IH show ?case by (cases rest) auto
qed simp

lemma load_inserting:
  "\<forall>x\<in>set xs. parse x = Inr (f x) \<Longrightarrow>
   fold_run (\<lambda>x ss. bind_run (parse x) (\<lambda>sh. Inr (ss @ [sh]))) xs ss = Inr (ss @ map f xs)"
  by (induction xs arbitrary: ss) auto

definition storable :: "clocks \<Rightarrow> ('g::linorder) Snapshot \<Rightarrow> bool" where
  "storable clk s \<longleftrightarrow> image_ok s \<and> times_ok clk s \<and> description s \<noteq> []"

lemma saved_back:
  assumes laws: "xml_laws X" "guid_laws G"
    and root: "ChildElements X s_sDS_Snapshots doc = [saveSnapshots X G clk saved]"
    and ok: "\<forall>s\<in>set saved. storable clk s"
  shows "loadSnapshots X G clk' (Some doc) snapshots =
    Inr (True, if snapshots = [] then map (stored G clk clk') saved
               else merge_loaded snapshots (map (stored G clk clk') saved))"
proof -
  let ?xs = "map (\<lambda>sh. to_xml X G clk sh (NewElement X s_sDS_Snapshot)) saved"
  let ?parse = "\<lambda>pSh. from_xml X G clk' (Some pSh) (new_snapshot clk')"
  have parse: "?parse (to_xml X G clk s (NewElement X s_sDS_Snapshot)) = Inr (stored G clk clk' s)"
    if "s \<in> set saved" for s
    using that ok by (intro snapshot_back [OF laws]) (auto simp: storable_def new_snapshot_def)
  define f where "f x = (case ?parse x of Inr s \<Rightarrow> s)" for x
  have f: "\<forall>x\<in>set ?xs. ?parse x = Inr (f x)" using parse by (auto simp: f_def)
  have xs: "map f ?xs = map (stored G clk clk') saved" using parse by (simp add: f_def)
  show ?thesis
  proof (cases "snapshots = []")
    case True
    with load_inserting [OF f, of "[]"] xs show ?thesis
      by (simp add: loadSnapshots_def root saveSnapshots_elements [OF laws(1)] del: map_map)
  next
    case False
    with load_merging_loaded [OF f, of "[]" snapshots] xs show ?thesis
      by (simp add: loadSnapshots_def root saveSnapshots_elements [OF laws(1)] del: map_map)
  qed
qed

section \<open>The verdict survives\<close>

lemma Participant_eq_stored:
  "Participant_eq (stored_participant G s t g p) (stored_participant G s t g' q) \<longleftrightarrow> Participant_eq p q"
  by (simp add: Participant_eq_def stored_participant_def DiscoveryItem_eq_def list_all2_map1 list_all2_map2
      DataWriter_eq_def [abs_def] DataReader_eq_def [abs_def] stored_writer_def stored_reader_def)

lemma alive_stored:
  "alive_participants (stored_database G s t db) =
     map (stored_participant G s t (endpoint_guid db)) (alive_participants db)"
  by (simp add: alive_participants_def stored_database_def filter_map o_def stored_participant_def)

lemma eq_walk_map:
  "(\<And>p q. Participant_eq (f p) (h q) = Participant_eq p q) \<Longrightarrow>
   (\<And>p. endpoint_guid (f p) = endpoint_guid p) \<Longrightarrow> (\<And>p. endpoint_guid (h p) = endpoint_guid p) \<Longrightarrow>
   eq_walk l r b (map f xs) (map h ys) = eq_walk l r b xs ys"
  by (induction l r b xs ys rule: eq_walk.induct) auto

lemma Database_eq_stored:
  "Database_eq (stored_database G s t cl) (stored_database G s t cr) = Database_eq cl cr"
  by (simp add: Database_eq_walk Let_def alive_stored eq_walk_map Participant_eq_stored)

lemma allKnowEachOther_stored: "allKnowEachOther (stored G clk clk' s) = allKnowEachOther s"
proof -
  have "(participants (hd (databases (stored G clk clk' s))) = []) = (participants (hd (databases s)) = [])"
    if "databases s \<noteq> []"
    using that by (simp add: stored_def Let_def hd_map stored_database_def)
  moreover have "(databases (stored G clk clk' s) = []) = (databases s = [])" "if_someone (stored G clk clk' s) = if_someone s"
    by (simp_all add: stored_def Let_def)
  moreover have "successively Database_eq (databases (stored G clk clk' s)) = successively Database_eq (databases s)"
    by (simp add: stored_def Let_def successively_map Database_eq_stored)
  ultimately show ?thesis by (auto simp: allKnowEachOther_successively somebody_def)
qed


section \<open>Properties\<close>

text \<open>
  C9: A file of snapshots written by one process and loaded by another, each with its own clocks,
  into an empty list gives back every saved snapshot, with the losses stored describes: times cut
  to milliseconds and moved to the clocks of the reader, no database names, half of the liveliness
  counters. The snapshots are well formed, their times fit 64 bits and their descriptions are not
  empty (an empty description would be read as a null string).
\<close>

theorem loadSnapshots_saveSnapshots:
  assumes "xml_laws X" "guid_laws G"
    and "ChildElements X s_sDS_Snapshots doc = [saveSnapshots X G clk saved]"
    and "\<forall>s\<in>set saved. storable clk s"
  shows "loadSnapshots X G clk' (Some doc) [] = Inr (True, map (stored G clk clk') saved)"
  using saved_back [OF assms, of clk' "[]"] by simp

text \<open>
  C10: Validating the snapshots that a process reads from a file gives the verdict that validating
  them gave in the process that wrote it, whatever the clocks of the two, for well formed
  snapshots with times that fit 64 bits and descriptions that are not empty.
\<close>

theorem validation_survives_file:
  assumes "xml_laws X" "guid_laws G"
    and "ChildElements X s_sDS_Snapshots doc = [saveSnapshots X G clk saved]"
    and "\<forall>s\<in>set saved. storable clk s"
  shows "\<exists>loaded. loadSnapshots X G clk' (Some doc) [] = Inr (True, loaded)
    \<and> length loaded = length saved
    \<and> validateAllSnapshots loaded = validateAllSnapshots saved"
  using saved_back [OF assms, of clk' "[]"] by (simp add: validateAllSnapshots_all allKnowEachOther_stored)

text \<open>
  C35: Loading a file into a list of snapshots merges the i-th snapshot of the file into the i-th
  of the list, drops what is beyond the list, and keeps the length.
\<close>

theorem loadSnapshots_merges:
  assumes root: "ChildElements X s_sDS_Snapshots doc = [pRoot]" and held: "snapshots \<noteq> []"
    and loaded: "map (\<lambda>pSh. from_xml X G clk (Some pSh) (new_snapshot clk)) (ChildElements X s_sDS_Snapshot pRoot)
      = map Inr shs"
  shows "loadSnapshots X G clk (Some doc) snapshots = Inr (True,
    map (\<lambda>i. if i < length shs then merge_snapshot (snapshots ! i) (shs ! i) else snapshots ! i)
      [0..<length snapshots])"
proof -
  let ?parse = "\<lambda>pSh. from_xml X G clk (Some pSh) (new_snapshot clk)"
  let ?xs = "ChildElements X s_sDS_Snapshot pRoot"
  have "load_merging ?parse ?xs [] snapshots = Inr (merge_loaded snapshots shs)"
    using loaded by (rule load_merging_parsed [of ?parse ?xs shs "[]", simplified])
  moreover have "merge_loaded snapshots shs = map (\<lambda>i. if i < length shs
      then merge_snapshot (snapshots ! i) (shs ! i) else snapshots ! i) [0..<length snapshots]"
    by (auto simp: merge_loaded_nth intro!: nth_equalityI)
  ultimately show ?thesis using held by (simp add: loadSnapshots_def root)
qed

theorem loadSnapshots_rejects:
  "loadSnapshots X G clk None snapshots = Inr (False, snapshots) \<and>
   (ChildElements X s_sDS_Snapshots doc = [] \<longrightarrow>
     loadSnapshots X G clk (Some doc) snapshots = Inr (False, snapshots))"
  by (simp add: loadSnapshots_def)

text \<open>Every recorded time keeps its distance from the start of the process up to a millisecond.\<close>

lemma duration_cast_ms_bound: "\<bar>of_ms (duration_cast_ms d) - d\<bar> < 1000000"
proof (cases "d < 0")
  case True
  then have "duration_cast_ms d = - ((- d) div 1000000)" by (simp add: duration_cast_ms_def)
  then show ?thesis using True unfolding of_ms_def by arith
next
  case False
  then have "duration_cast_ms d = d div 1000000" by (simp add: duration_cast_ms_nonneg)
  then show ?thesis using False unfolding of_ms_def by arith
qed

lemma stored_time_near: "\<bar>(stored_time a b t - b) - (t - a)\<bar> < 1000000"
  using duration_cast_ms_bound [of "t - a"] by (simp add: stored_time_def)

text \<open>\<open>near s s' t t'\<close>: in \<open>s'\<close> the time \<open>t'\<close> is as far from the start of the process as \<open>t\<close> is in \<open>s\<close>.\<close>

definition near :: "'g Snapshot \<Rightarrow> 'g Snapshot \<Rightarrow> time_point \<Rightarrow> time_point \<Rightarrow> bool" where
  "near s s' t t' \<longleftrightarrow> \<bar>(t' - process_startup s') - (t - process_startup s)\<bar> < 1000000"

definition near_endpoint ::
  "'g Snapshot \<Rightarrow> 'g Snapshot \<Rightarrow> ('g, 'a) EndpointItem_scheme \<Rightarrow> ('g, 'a) EndpointItem_scheme \<Rightarrow> bool" where
  "near_endpoint s s' e e' \<longleftrightarrow> endpoint_guid e' = endpoint_guid e
     \<and> near s s' (discovered_timestamp e) (discovered_timestamp e')"

definition near_participant ::
  "'g Snapshot \<Rightarrow> 'g Snapshot \<Rightarrow> 'g ParticipantDiscoveryItem \<Rightarrow> 'g ParticipantDiscoveryItem \<Rightarrow> bool" where
  "near_participant s s' p p' \<longleftrightarrow> endpoint_guid p' = endpoint_guid p
     \<and> near s s' (participant_timestamp p) (participant_timestamp p')
     \<and> list_all2 (near_endpoint s s') (datareaders p) (datareaders p')
     \<and> list_all2 (near_endpoint s s') (datawriters p) (datawriters p')"

definition near_database ::
  "'g Snapshot \<Rightarrow> 'g Snapshot \<Rightarrow> 'g ParticipantDiscoveryDatabase \<Rightarrow> 'g ParticipantDiscoveryDatabase \<Rightarrow> bool" where
  "near_database s s' db db' \<longleftrightarrow> endpoint_guid db' = endpoint_guid db
     \<and> list_all2 (near_participant s s') (participants db) (participants db')"

lemma near_database_stored:
  "near_database s s' db (stored_database G s (process_startup s') db)"
  by (simp add: near_database_def near_participant_def near_endpoint_def near_def stored_database_def
      stored_participant_def stored_writer_def stored_reader_def stored_time_near list_all2_map2 list_all2_refl)

lemma near_stored:
  "near s (stored G clk clk' s) (last_PDP_callback s) (last_PDP_callback (stored G clk clk' s))"
  "near s (stored G clk clk' s) (last_EDP_callback s) (last_EDP_callback (stored G clk clk' s))"
  "near s (stored G clk clk' s) (snapshot_time s) (snapshot_time (stored G clk clk' s))"
  "list_all2 (near_database s (stored G clk clk' s)) (databases s) (databases (stored G clk clk' s))"
  "\<bar>getSystemTime clk' (snapshot_time (stored G clk clk' s)) - getSystemTime clk (snapshot_time s)\<bar> < 1000000"
proof -
  have "databases (stored G clk clk' s) = map (stored_database G s (process_startup (stored G clk clk' s))) (databases s)"
    by (simp add: stored_def Let_def)
  then show "list_all2 (near_database s (stored G clk clk' s)) (databases s) (databases (stored G clk clk' s))"
    by (simp add: list_all2_map2 list_all2_refl near_database_stored)
  show "near s (stored G clk clk' s) (last_PDP_callback s) (last_PDP_callback (stored G clk clk' s))"
    "near s (stored G clk clk' s) (last_EDP_callback s) (last_EDP_callback (stored G clk clk' s))"
    by (simp_all add: near_def stored_def Let_def stored_time_near)
  show "near s (stored G clk clk' s) (snapshot_time s) (snapshot_time (stored G clk clk' s))"
    using duration_cast_ms_bound [of "snapshot_time s - process_startup s"]
    by (simp add: near_def stored_def Let_def)
  show "\<bar>getSystemTime clk' (snapshot_time (stored G clk clk' s)) - getSystemTime clk (snapshot_time s)\<bar> < 1000000"
    using duration_cast_ms_bound [of "getSystemTime clk (snapshot_time s)"]
    by (simp add: stored_def Let_def getSystemTime_def)
qed

text \<open>
  C36: Writing a snapshot in one process and reading it in another moves none of its times by a
  millisecond or more: the time, the last callbacks and the discovery time of every participant
  and endpoint keep their distance from the start of the process, and the time of the snapshot
  keeps its place on the system clock. The snapshot is well formed, its times fit 64 bits and its
  description is not empty.
\<close>

theorem stored_times_bound:
  assumes "xml_laws X" "guid_laws G" and "storable clk s"
  shows "\<exists>s'. from_xml X G clk' (Some (to_xml X G clk s (NewElement X s_sDS_Snapshot))) (new_snapshot clk') = Inr s'
    \<and> \<bar>getSystemTime clk' (snapshot_time s') - getSystemTime clk (snapshot_time s)\<bar> < 1000000
    \<and> near s s' (snapshot_time s) (snapshot_time s')
    \<and> near s s' (last_PDP_callback s) (last_PDP_callback s')
    \<and> near s s' (last_EDP_callback s) (last_EDP_callback s')
    \<and> list_all2 (near_database s s') (databases s) (databases s')"
proof -
  have "from_xml X G clk' (Some (to_xml X G clk s (NewElement X s_sDS_Snapshot))) (new_snapshot clk')
      = Inr (stored G clk clk' s)"
    using assms by (intro snapshot_back) (auto simp: storable_def new_snapshot_def)
  then show ?thesis using near_stored [where s = s and G = G and clk = clk and clk' = clk'] by (intro exI conjI)
qed

text \<open>
  The counters of a reader's own liveliness: only the first of the two comes back.
\<close>

theorem datareader_loses_not_alive:
  assumes "xml_laws X" "guid_laws G" and "int64 (discovered_timestamp r - process_startup s)"
    and "show_liveliness s" "same_prefix G (endpoint_guid r) owner"
    and "lookup_item (datareaders item) (endpoint_guid r) = None" "items_ok (datareaders item)"
  shows "\<exists>item' r'. datareader_from_xml X G startup' (datareader_to_xml X G s owner r) (lv, item)
      = Inr (True, item')
    \<and> lookup_item (datareaders item') (endpoint_guid r) = Some r'
    \<and> alive_count r' = alive_count r \<and> not_alive_count r' = 0"
  using assms by (simp add: datareader_back std_find_put stored_reader_def)

theorem from_xml_null_description:
  assumes "ChildElements X s_sDescription pRoot = d # ds" "GetText X d = None"
  shows "from_xml X G clk (Some pRoot) s = Inl Null_String"
  using assms by (simp add: from_xml_def Let_def)

theorem from_xml_missing_guid:
  assumes "ChildElements X s_sDescription pRoot = []" "ChildElements X s_sPtDB pRoot = before @ db # after"
    and "\<And>x t. x \<in> set before \<Longrightarrow> \<exists>t'. database_from_xml X G x t = Inr t'"
    and "Attribute X s_sGUID_prefix db = None \<or> Attribute X s_sGUID_entity db = None"
  shows "from_xml X G clk (Some pRoot) s = Inl Null_String"
proof -
  have guid: "guid_from_xml X G db = Inl Null_String"
    using assms(4) by (cases "Attribute X s_sGUID_prefix db") (auto simp: guid_from_xml_def)
  then have stop: "database_from_xml X G db t = Inl Null_String" for t
    by (simp add: database_from_xml_def)
  have "\<exists>t'. fold_run (database_from_xml X G) before t = Inr t'" for t
    using assms(3)
  proof (induction before arbitrary: t)
    case (Cons x xs)
    obtain t' where "database_from_xml X G x t = Inr t'" using Cons.prems [of x t] by auto
    moreover obtain t'' where "fold_run (database_from_xml X G) xs t' = Inr t''"
      using Cons.IH [of t'] Cons.prems by auto
    ultimately show ?case by simp
  qed simp
  then have "fold_run (database_from_xml X G) (before @ db # after) t = Inl Null_String" for t
  proof -
    obtain t' where "fold_run (database_from_xml X G) before t = Inr t'"
      using \<open>\<And>t. \<exists>t'. fold_run (database_from_xml X G) before t = Inr t'\<close> by blast
    then show ?thesis by (simp add: fold_run_append stop)
  qed
  with assms(1,2) show ?thesis by (simp add: from_xml_def Let_def)
qed

section \<open>Instances\<close>

text \<open>A document model and a text form of GUIDs that satisfy the laws.\<close>

datatype element = Element string "(string \<times> xml_value) list" "string option" "element list"

fun sample_set :: "string \<Rightarrow> xml_value \<Rightarrow> element \<Rightarrow> element" where
  "sample_set k v (Element n kvs t cs) = Element n ((k, v) # kvs) t cs"

fun sample_attribute :: "string \<Rightarrow> element \<Rightarrow> xml_value option" where
  "sample_attribute k (Element n kvs t cs) = map_of kvs k"

fun sample_text :: "string \<Rightarrow> element \<Rightarrow> element" where
  "sample_text s (Element n kvs t cs) = Element n kvs (if s = [] then None else Some s) cs"

fun sample_insert :: "element \<Rightarrow> element \<Rightarrow> element" where
  "sample_insert (Element n kvs t cs) c = Element n kvs t (cs @ [c])"

fun sample_name :: "element \<Rightarrow> string" where
  "sample_name (Element n kvs t cs) = n"

fun sample_get_text :: "element \<Rightarrow> string option" where
  "sample_get_text (Element n kvs t cs) = t"

fun sample_children :: "string \<Rightarrow> element \<Rightarrow> element list" where
  "sample_children m (Element n kvs t cs) = filter (\<lambda>c. sample_name c = m) cs"

definition sample_xml :: "element tinyxml2" where
  "sample_xml = \<lparr>NewElement = (\<lambda>n. Element n [] None []), SetAttribute = sample_set, SetText = sample_text,
     InsertEndChild = sample_insert, ElementName = sample_name,
     Attribute = (\<lambda>k x. case sample_attribute k x of Some (Text_Value s) \<Rightarrow> Some s | _ \<Rightarrow> None),
     Int64Attribute = (\<lambda>k x. case sample_attribute k x of Some (Int64_Value n) \<Rightarrow> n | _ \<Rightarrow> 0),
     QueryBoolAttribute = (\<lambda>k x. case sample_attribute k x of
        None \<Rightarrow> XML_NO_ATTRIBUTE | Some (Bool_Value b) \<Rightarrow> XML_SUCCESS b | _ \<Rightarrow> XML_WRONG_ATTRIBUTE_TYPE),
     QueryIntAttribute = (\<lambda>k x. case sample_attribute k x of
        None \<Rightarrow> XML_NO_ATTRIBUTE | Some (Int_Value b) \<Rightarrow> XML_SUCCESS b | _ \<Rightarrow> XML_WRONG_ATTRIBUTE_TYPE),
     GetText = sample_get_text, ChildElements = sample_children\<rparr>"

definition sample_guids :: "nat guid_text" where
  "sample_guids = \<lparr>show_prefix = (\<lambda>g. replicate g (CHR ''x'')), show_entity = (\<lambda>g. []),
     read_guid = (\<lambda>p e. length p), same_prefix = (=)\<rparr>"

lemma sample_element_simps [simp]:
  "sample_attribute k (sample_set k' v x) = (if k = k' then Some v else sample_attribute k x)"
  "sample_attribute k (sample_insert x c) = sample_attribute k x"
  "sample_name (sample_set k v x) = sample_name x"
  "sample_name (sample_text s x) = sample_name x"
  "sample_name (sample_insert x c) = sample_name x"
  "s \<noteq> [] \<Longrightarrow> sample_get_text (sample_text s x) = Some s"
  "sample_children m (sample_set k v x) = sample_children m x"
  "sample_children m (sample_insert x c) = sample_children m x @ (if sample_name c = m then [c] else [])"
  by (cases x; simp)+

lemma sample_xml_laws: "xml_laws sample_xml"
  by (simp add: xml_laws_def sample_xml_def attribute_reads_def)

lemma sample_guid_laws: "guid_laws sample_guids"
  by (simp add: guid_laws_def sample_guids_def)

text \<open>The clocks of the process that writes the file and of the one that reads it.\<close>

definition writer_clocks :: clocks where
  "writer_clocks = \<lparr>system_clock = 4000000, steady_clock = 7\<rparr>"

definition sample_clocks :: clocks where
  "sample_clocks = \<lparr>system_clock = 5000000, steady_clock = 0\<rparr>"

lemma sample_storable: "\<forall>s\<in>set [sample_shot]. storable writer_clocks s"
  using sample_shot_ok
  by (simp add: storable_def times_ok_def snapshot_times_def sample_shot_def sample_server_def
      sample_client_def item_defs int64_def getSystemTime_def writer_clocks_def)

definition sample_document :: element where
  "sample_document = Element [] [] None [saveSnapshots sample_xml sample_guids writer_clocks [sample_shot]]"

lemma sample_document_root:
  "ChildElements sample_xml s_sDS_Snapshots sample_document =
     [saveSnapshots sample_xml sample_guids writer_clocks [sample_shot]]"
  using saveSnapshots_elements(2) [OF sample_xml_laws, of sample_guids writer_clocks "[sample_shot]"]
  by (simp add: sample_document_def) (simp add: sample_xml_def)

theorem loadSnapshots_saveSnapshots_witness:
  "loadSnapshots sample_xml sample_guids sample_clocks (Some sample_document) [] =
     Inr (True, [stored sample_guids writer_clocks sample_clocks sample_shot])"
  using loadSnapshots_saveSnapshots [OF sample_xml_laws sample_guid_laws sample_document_root sample_storable,
      of sample_clocks]
  by simp

theorem validation_survives_file_witness:
  "\<exists>loaded. loadSnapshots sample_xml sample_guids sample_clocks (Some sample_document) [] = Inr (True, loaded)
    \<and> length loaded = 1 \<and> validateAllSnapshots loaded"
  using validation_survives_file [OF sample_xml_laws sample_guid_laws sample_document_root sample_storable, of sample_clocks]
    sample_shot_knows
  by (simp add: validateAllSnapshots_all)

theorem loadSnapshots_merges_witness:
  "loadSnapshots sample_xml sample_guids sample_clocks (Some sample_document) [sample_shot] =
     Inr (True, [merge_snapshot sample_shot (stored sample_guids writer_clocks sample_clocks sample_shot)])"
proof -
  let ?root = "saveSnapshots sample_xml sample_guids writer_clocks [sample_shot]"
  have "map (\<lambda>pSh. from_xml sample_xml sample_guids sample_clocks (Some pSh) (new_snapshot sample_clocks))
      (ChildElements sample_xml s_sDS_Snapshot ?root) = map Inr [stored sample_guids writer_clocks sample_clocks sample_shot]"
    using sample_storable
    by (simp add: saveSnapshots_elements [OF sample_xml_laws] storable_def new_snapshot_def
        snapshot_back [OF sample_xml_laws sample_guid_laws])
  from loadSnapshots_merges [OF sample_document_root _ this, of "[sample_shot]"] show ?thesis by simp
qed

theorem loadSnapshots_rejects_witness:
  "loadSnapshots sample_xml sample_guids sample_clocks (Some (Element [] [] None [])) [sample_shot] =
     Inr (False, [sample_shot])"
proof -
  have "ChildElements sample_xml s_sDS_Snapshots (Element [] [] None []) = []" by (simp add: sample_xml_def)
  then show ?thesis
    using loadSnapshots_rejects [of sample_xml sample_guids sample_clocks "[sample_shot]" "Element [] [] None []"]
    by simp
qed

definition sample_reader :: "nat DataReaderDiscoveryItem" where
  "sample_reader = (new_datareader 2 ''T'' ''t'' 5)\<lparr>alive_count := 3, not_alive_count := 1\<rparr>"

theorem datareader_loses_not_alive_witness:
  "\<exists>item' r'. datareader_from_xml sample_xml sample_guids 0
      (datareader_to_xml sample_xml sample_guids (sample_shot\<lparr>show_liveliness := True\<rparr>) 2 sample_reader)
      (False, new_participant 2 [] False 0) = Inr (True, item')
    \<and> lookup_item (datareaders item') 2 = Some r' \<and> alive_count r' = 3 \<and> not_alive_count r' = 0"
proof -
  have "int64 (discovered_timestamp sample_reader - process_startup (sample_shot\<lparr>show_liveliness := True\<rparr>))"
    "show_liveliness (sample_shot\<lparr>show_liveliness := True\<rparr>)"
    "same_prefix sample_guids (endpoint_guid sample_reader) 2"
    "lookup_item (datareaders (new_participant (2::nat) [] False 0)) (endpoint_guid sample_reader) = None"
    "items_ok (datareaders (new_participant (2::nat) [] False 0))"
    by (simp_all add: sample_reader_def sample_shot_def sample_guids_def item_defs int64_def)
  from datareader_loses_not_alive [OF sample_xml_laws sample_guid_laws this, of 0 False] show ?thesis
    by (simp add: sample_reader_def item_defs)
qed

theorem stored_times_bound_witness:
  "\<exists>s'. from_xml sample_xml sample_guids sample_clocks
       (Some (to_xml sample_xml sample_guids writer_clocks sample_shot (NewElement sample_xml s_sDS_Snapshot)))
       (new_snapshot sample_clocks) = Inr s'
    \<and> list_all2 (near_database sample_shot s') (databases sample_shot) (databases s')"
proof -
  have "storable writer_clocks sample_shot" using sample_storable by simp
  from stored_times_bound [OF sample_xml_laws sample_guid_laws this, of sample_clocks] show ?thesis by blast
qed

theorem from_xml_null_description_witness:
  "from_xml sample_xml sample_guids sample_clocks
     (Some (Element s_sDS_Snapshot [] None [Element s_sDescription [] None []])) sample_shot = Inl Null_String"
proof -
  have "ChildElements sample_xml s_sDescription
      (Element s_sDS_Snapshot [] None [Element s_sDescription [] None []]) = [Element s_sDescription [] None []]"
    "GetText sample_xml (Element s_sDescription [] None []) = None"
    by (simp_all add: sample_xml_def)
  then show ?thesis by (rule from_xml_null_description)
qed

theorem from_xml_missing_guid_witness:
  "from_xml sample_xml sample_guids sample_clocks
     (Some (Element s_sDS_Snapshot [] None [Element s_sPtDB [] None []])) sample_shot = Inl Null_String"
proof (rule from_xml_missing_guid)
  show "ChildElements sample_xml s_sDescription
      (Element s_sDS_Snapshot [] None [Element s_sPtDB [] None []]) = []"
    by (simp add: sample_xml_def xml_names)
  show "ChildElements sample_xml s_sPtDB (Element s_sDS_Snapshot [] None [Element s_sPtDB [] None []]) =
      [] @ Element s_sPtDB [] None [] # []"
    by (simp add: sample_xml_def)
  show "Attribute sample_xml s_sGUID_prefix (Element s_sPtDB [] None []) = None \<or>
      Attribute sample_xml s_sGUID_entity (Element s_sPtDB [] None []) = None"
    by (simp add: sample_xml_def)
qed simp

end
