(* ===== verification/Snapshot_Load.thy ===== *)
theory Snapshot_Load
  imports Snapshot_Xml
begin

text \<open>
  What \<open>from_xml\<close> and \<open>loadSnapshots\<close> make of any document, written by the program or by hand: when they
  return, every snapshot in the list is well formed, its sets sorted and free of duplicates.
\<close>

lemma fold_run_invariant:
  assumes "fold_run f xs s = Inr s'" and "I s" and "\<And>x s s'. I s \<Longrightarrow> f x s = Inr s' \<Longrightarrow> I s'"
  shows "I s'"
  using assms(1,2)
proof (induction xs arbitrary: s)
  case (Cons x xs)
  then obtain s1 where "f x s = Inr s1" "fold_run f xs s1 = Inr s'" by (auto simp: bind_run_Inr_iff)
  with Cons.IH [of s1] assms(3) [OF Cons.prems(2)] show ?case by blast
qed simp

section \<open>Elements\<close>

lemma datareader_from_xml_ok:
  "participant_ok item \<Longrightarrow> datareader_from_xml X G st x (show, item) = Inr (show', item') \<Longrightarrow> participant_ok item'"
  by (auto simp: datareader_from_xml_def bind_run_Inr_iff participant_ok_def std_ok_put split_beta split: prod.splits)

lemma datawriter_from_xml_ok:
  "participant_ok item \<Longrightarrow> datawriter_from_xml X G st x item = Inr item' \<Longrightarrow> participant_ok item'"
  by (auto simp: datawriter_from_xml_def bind_run_Inr_iff participant_ok_def std_ok_put)

lemma participant_from_xml_ok:
  assumes ok: "database_ok db" and run: "participant_from_xml X G st x (show, db) = Inr (show', db')"
  shows "database_ok db'"
proof -
  obtain g name item0 item1 item2 show1 where
    item0: "item0 = new_participant g name (BoolAttribute X s_sServer False x) (st + of_ms (Int64Attribute X s_sDiscovered_timestamp x))"
    and readers: "fold_run (datareader_from_xml X G st) (ChildElements X s_sSubscriber x)
      (show, case QueryBoolAttribute X s_sAlive x of XML_SUCCESS b \<Rightarrow> item0\<lparr>is_alive := b\<rparr> | _ \<Rightarrow> item0) = Inr (show1, item1)"
    and writers: "fold_run (datawriter_from_xml X G st) (ChildElements X s_sPublisher x) item1 = Inr item2"
    and db': "db' = db\<lparr>participants := std_put endpoint_guid item2 (participants db)\<rparr>"
    using run by (auto simp: participant_from_xml_def bind_run_Inr_iff Let_def)
  have "participant_ok item0" by (simp add: item0 participant_ok_def new_participant_def)
  then have "participant_ok (case QueryBoolAttribute X s_sAlive x of XML_SUCCESS b \<Rightarrow> item0\<lparr>is_alive := b\<rparr> | _ \<Rightarrow> item0)"
    by (simp add: participant_ok_def split: query.split)
  then have "participant_ok item1"
    using fold_run_invariant [OF readers, of "\<lambda>(_, p). participant_ok p"] datareader_from_xml_ok by fastforce
  then have "participant_ok item2" by (rule fold_run_invariant [OF writers _ datawriter_from_xml_ok])
  with ok show ?thesis by (simp add: db' database_ok_def participants_ok_put)
qed

lemma database_from_xml_ok:
  assumes ok: "image_ok s" and run: "database_from_xml X G x s = Inr s'"
  shows "image_ok s'"
proof -
  obtain g show1 db where
    parts: "fold_run (participant_from_xml X G (process_startup s)) (ChildElements X s_sPtDI x)
      (show_liveliness s, new_database g []) = Inr (show1, db)"
    and s': "s' = s\<lparr>show_liveliness := show1, databases := std_put endpoint_guid db (databases s)\<rparr>"
    using run by (auto simp: database_from_xml_def bind_run_Inr_iff)
  have "database_ok (new_database g [])" by (simp add: database_ok_def new_database_def)
  then have "database_ok db"
    using fold_run_invariant [OF parts, of "\<lambda>(_, d). database_ok d"] participant_from_xml_ok by fastforce
  then show ?thesis
    using ok set_std_put [of endpoint_guid db "databases s"]
    by (auto simp: s' image_ok_def database_ok_def std_ok_put)
qed

lemma from_xml_ok:
  assumes ok: "image_ok s" and run: "from_xml X G clk root s = Inr s'"
  shows "image_ok s'"
proof -
  have loop: "image_ok s'" if "fold_run (database_from_xml X G) xs s1 = Inr s'" "databases s1 = databases s" for xs s1
  proof -
    have "image_ok s1" using ok that(2) by (simp add: image_ok_def)
    then show ?thesis by (rule fold_run_invariant [OF that(1) _ database_from_xml_ok])
  qed
  then show ?thesis
    using assms by (auto simp: from_xml_def bind_run_Inr_iff Let_def split: option.splits list.splits elim!: loop)
qed

section \<open>Files\<close>

lemma image_ok_new_snapshot: "image_ok (new_snapshot clk)"
  by (simp add: new_snapshot_def image_ok_def)

lemma image_ok_merge:
  assumes "image_ok s" "image_ok sh"
  shows "image_ok (merge_snapshot s sh)"
proof -
  have "set (std_insert_range endpoint_guid xs ys) \<subseteq> set xs \<union> set ys"
    for xs ys :: "'a ParticipantDiscoveryDatabase list"
    unfolding std_insert_range_def using set_std_put by (induction xs arbitrary: ys) fastforce+
  with assms show ?thesis
    by (fastforce simp: merge_snapshot_def image_ok_def std_ok_insert_range)
qed

lemma load_merging_ok:
  assumes "\<And>x sh. parse x = Inr sh \<Longrightarrow> image_ok sh"
    and "list_all image_ok merged" "list_all image_ok rest" "load_merging parse xs merged rest = Inr ss"
  shows "list_all image_ok ss"
  using assms(2-4)
proof (induction xs arbitrary: merged rest)
  case (Cons x xs)
  obtain sh where sh: "parse x = Inr sh"
    and ss: "(case rest of [] \<Rightarrow> Inr merged | s # r \<Rightarrow> load_merging parse xs (merged @ [merge_snapshot s sh]) r) = Inr ss"
    using Cons.prems(3) by (auto simp: bind_run_Inr_iff)
  then show ?case
    using Cons.prems(1,2) Cons.IH [of "merged @ [merge_snapshot (hd rest) sh]" "tl rest"] assms(1) [OF sh]
    by (cases rest) (auto simp: image_ok_merge)
qed auto

lemma loadSnapshots_well_formed:
  assumes "list_all image_ok snapshots" "loadSnapshots X G clk document snapshots = Inr (b, ss)"
  shows "list_all image_ok ss"
proof -
  have parse: "image_ok sh" if "from_xml X G clk (Some x) (new_snapshot clk) = Inr sh" for x sh
    by (rule from_xml_ok [OF image_ok_new_snapshot that])
  have "list_all image_ok ss'" if "fold_run (\<lambda>x ss. bind_run (from_xml X G clk (Some x) (new_snapshot clk))
      (\<lambda>sh. Inr (ss @ [sh]))) xs [] = Inr ss'" for xs ss'
    using that by (rule fold_run_invariant) (auto simp: bind_run_Inr_iff parse)
  then show ?thesis
    using assms load_merging_ok [of "\<lambda>x. from_xml X G clk (Some x) (new_snapshot clk)" "[]" snapshots] parse
    by (auto simp: loadSnapshots_def bind_run_Inr_iff Let_def split: option.splits list.splits if_splits)
qed

end
