(* ===== verification/Program_Contract.thy ===== *)
theory Program_Contract
  imports Configuration_Invariant Event_Run Snapshot_Roundtrip Snapshot_Load
begin

text \<open>
  What reading a configuration and running the program guarantee: well linked events, the exact
  language of listening ports, the transports of a listening client, the snapshots that are scheduled,
  the meaning of the exit code; and the inputs that end badly.
\<close>

section \<open>What the configuration reader guarantees\<close>

lemma construct_grows:
  fixes m' :: "('g::linorder, 'd, 'q, 'l) Manager"
  assumes img: "db_inv img" and root: "ChildElements X s_sDS doc \<noteq> []"
    and run: "construct X C D P G clk dbg (Some doc) (new_manager t img shm, w) = Inr (m', w')"
  shows "config_inv (qos_guid C) m' \<and> state m' = img \<and> snapshots m' = [] \<and> (correctly_created m' \<longrightarrow>
    asked m' = concat (map (snapshot_requests X (snapshot_time img)) (ChildElements X s_sDS doc)))"
proof -
  let ?m = "new_manager t img shm :: ('g, 'd, 'q, 'l) Manager"
  obtain r rs where rs: "ChildElements X s_sDS doc = r # rs" using root by (cases "ChildElements X s_sDS doc") auto
  define m0 where "m0 = ?m\<lparr>validate := True, auto_shutdown := \<not> BoolAttribute X s_sUserShutdown (\<not> auto_shutdown ?m) r,
     enable_prefix_validation := BoolAttribute X s_sPrefixValidation (enable_prefix_validation ?m) r\<rparr>"
  have 0: "extends (qos_guid C) ?m m0" unfolding m0_def by (rule extends_members(4) [OF config_inv_new [OF img]])
  obtain b m1 w1 where 1: "load_sections X C D P dbg (r # rs) (m0, w) = Inr (b, m1, w1)"
    and m': "m' = (if b then m1\<lparr>correctly_created := True\<rparr> else m1)"
    using run by (auto simp: construct_def rs m0_def bind_run_Inr_iff Let_def simp del: load_sections.simps)
  obtain S where "grows (qos_guid C) S m0 m1" and S: "b \<Longrightarrow> S = concat (map (snapshot_requests X (getTime m0)) (r # rs))"
    using load_sections_grows [OF extends_inv [OF 0] 1] by blast
  with extends_trans [OF 0] have e: "grows (qos_guid C) S ?m m1" by blast
  then have "config_inv (qos_guid C) m1" "state m1 = img" "snapshots m1 = []" "\<not> correctly_created m1" "asked m1 = S"
    by (simp_all add: grows_def) (simp_all add: new_manager_def asked_def map_filter_simps)
  moreover have "getTime m0 = snapshot_time img" using grows_start [OF 0] by (simp add: getTime_def new_manager_def)
  ultimately show ?thesis using S created_inv [of "qos_guid C" m1] by (auto simp: m' rs)
qed

text \<open>
  C27: Whatever configuration the constructor reads, it leaves a manager that satisfies the
  manager's invariant and holds no snapshots, whose events are distinct, lie within 2^62 time
  units of the start, and are well linked: every link leads to an event of the right kind, and the
  owner of a late endpoint is the creation of the participant with its GUID.
\<close>

theorem configured_schedule:
  fixes m' :: "('g::linorder, 'd, 'q, 'l) Manager"
  assumes img: "db_inv img" and root: "ChildElements X s_sDS doc \<noteq> []"
    and run: "construct X C D P G clk dbg (Some doc) (new_manager t img shm, w) = Inr (m', w')"
  shows "manager_ok m' \<and> snapshots m' = []
    \<and> distinct (events m') \<and> dom (schedule m') = set (events m')
    \<and> (\<forall>a time sh. schedule m' a = Some (time, sh) \<longrightarrow>
         linked (qos_guid C) (schedule m') sh \<and> \<bar>time - getTime m'\<bar> < 2 ^ 62)"
proof -
  have inv: "config_inv (qos_guid C) m'" and "snapshots m' = []"
    using construct_grows [OF img root run] by simp_all
  moreover have ev: "events m' = [0..<length (events m')]" "dom (schedule m') = {..<length (events m')}"
    using inv by (simp_all add: config_inv_def)
  moreover have "\<bar>time - getTime m'\<bar> < 2 ^ 62" if "within (getTime m') e time" for time e
    using that by (auto simp: within_def split: if_splits)
  then have "linked (qos_guid C) (schedule m') sh \<and> \<bar>time - getTime m'\<bar> < 2 ^ 62" if "schedule m' a = Some (time, sh)" for a time sh
    using config_invD [OF inv that] by blast
  moreover have "distinct (events m')" "dom (schedule m') = set (events m')"
    using ev by (metis distinct_upt, metis atLeast_upt lessThan_atLeast0 set_upt)
  ultimately show ?thesis using config_inv_ok [OF inv] by auto
qed

text \<open>The expression for listening ports is matched exactly, and the address without a port is a trap.\<close>

text \<open>
  C31: The matcher for a listening port decides exactly the language of the regular expression, an
  optional dotted address of up to three digits per octet, an optional colon and an optional port;
  of all splits of the text it returns the one with the longest address, which is unique.
\<close>

theorem listening_port_expression:
  "case ipv4_match s of
     Some (address, port) \<Rightarrow> ipv4_language address port s
       \<and> (\<forall>a p. ipv4_language a p s \<longrightarrow> (a, p) = (address, port) \<or> length a < length address)
   | None \<Rightarrow> \<not> (\<exists>address port. ipv4_language address port s)"
  using ipv4_match_decides [of s] ipv4_match_longest [of s] by (cases "ipv4_match s") auto

theorem listening_port_missing:
  assumes "ipv4_match lp = Some (address, [])"
  shows "client_listening_port C lp qos = Inl Uncaught_Exception"
  using assms by (simp add: client_listening_port_def std_stol_def)

text \<open>A TCP transport gets the port unless it listens already, and the public address if there is one.\<close>

definition with_port :: "('x, 'g, 'p, 'q, 't, 'l, 'w) config \<Rightarrow> int \<Rightarrow> 't \<Rightarrow> 't" where
  "with_port C port t = (if listening_ports C t = [] then add_listener_port C (word_of_int port) t else t)"

definition with_address :: "('x, 'g, 'p, 'q, 't, 'l, 'w) config \<Rightarrow> string \<Rightarrow> 't \<Rightarrow> 't" where
  "with_address C address t = (if address \<noteq> [] then set_WAN_address C address t else t)"

definition transport_kinds :: "('x, 'g, 'p, 'q, 't, 'l, 'w) config \<Rightarrow> 't list \<Rightarrow> transport_kind set" where
  "transport_kinds C ts = kind_of_transport C ` set ts"

text \<open>
  C32: A listening port changes exactly one transport of a client: the first TCPv4 transport;
  without one and without an address, the first TCPv6 transport; otherwise a new TCPv4 transport
  is appended. It gets the port unless it listens already, and a TCPv4 transport the address if
  there is one; all the others stay as they were.
\<close>

theorem listening_transports_one:
  fixes C :: "('x, 'g, 'p, 'q, 't, 'l, 'w) config"
  shows "(TCPv4_Transport \<notin> transport_kinds C ys \<longrightarrow> kind_of_transport C t = TCPv4_Transport \<longrightarrow>
      listening_transports C address port (ys @ t # zs) = ys @ with_address C address (with_port C port t) # zs)
    \<and> (TCPv4_Transport \<notin> transport_kinds C (ys @ t # zs) \<longrightarrow> address = [] \<longrightarrow>
        TCPv6_Transport \<notin> transport_kinds C ys \<longrightarrow> kind_of_transport C t = TCPv6_Transport \<longrightarrow>
      listening_transports C address port (ys @ t # zs) = ys @ with_port C port t # zs)
    \<and> (TCPv4_Transport \<notin> transport_kinds C ts \<longrightarrow> address \<noteq> [] \<or> TCPv6_Transport \<notin> transport_kinds C ts \<longrightarrow>
      listening_transports C address port ts = ts @ [with_address C address (with_port C port (new_TCPv4 C))])"
proof -
  have find: "List.find P (ys @ t # zs) = Some t" "replace_first P f (ys @ t # zs) = ys @ f t # zs"
    if "\<forall>u\<in>set ys. \<not> P u" "P t" for P f ys and t :: 't and zs
    using that by (induction ys) auto
  have none: "List.find (\<lambda>u. kind_of_transport C u = k) us = None" if "k \<notin> transport_kinds C us" for k us
    using that by (auto simp: transport_kinds_def find_None_iff)
  have off: "\<forall>u\<in>set us. kind_of_transport C u \<noteq> k" if "k \<notin> transport_kinds C us" for k us
    using that by (auto simp: transport_kinds_def)
  show ?thesis
  proof (intro conjI impI)
    assume "TCPv4_Transport \<notin> transport_kinds C ys" "kind_of_transport C t = TCPv4_Transport"
    then show "listening_transports C address port (ys @ t # zs) = ys @ with_address C address (with_port C port t) # zs"
      using find(1) [of ys "\<lambda>u. kind_of_transport C u = TCPv4_Transport" t zs] off
        find(2) [of ys "\<lambda>u. kind_of_transport C u = TCPv4_Transport" t "\<lambda>u. with_address C address (with_port C port u)" zs]
      by (simp add: listening_transports_def Let_def with_port_def with_address_def)
  next
    assume "TCPv4_Transport \<notin> transport_kinds C (ys @ t # zs)" "address = []" "TCPv6_Transport \<notin> transport_kinds C ys"
      "kind_of_transport C t = TCPv6_Transport"
    then show "listening_transports C address port (ys @ t # zs) = ys @ with_port C port t # zs"
      using find(1) [of ys "\<lambda>u. kind_of_transport C u = TCPv6_Transport" t zs] off
        find(2) [of ys "\<lambda>u. kind_of_transport C u = TCPv6_Transport" t "\<lambda>u. with_port C port u" zs]
        none [of TCPv4_Transport "ys @ t # zs"]
      by (simp add: listening_transports_def Let_def flip: with_port_def)
  next
    assume "TCPv4_Transport \<notin> transport_kinds C ts" "address \<noteq> [] \<or> TCPv6_Transport \<notin> transport_kinds C ts"
    then show "listening_transports C address port ts = ts @ [with_address C address (with_port C port (new_TCPv4 C))]"
      using none [of TCPv4_Transport ts] none [of TCPv6_Transport ts]
      by (auto simp: listening_transports_def Let_def with_port_def with_address_def)
  qed
qed

text \<open>An endpoint element without a topic, which the comments describe as the HelloWorld default.\<close>

theorem load_endpoint_without_topic:
  assumes "Attribute X s_sTopic x = None" "Attribute X s_sCreationTime x = None" "Attribute X s_sRemovalTime x = None"
  shows "load_endpoint k X D dbg g x None None (m, w) = Inl Null_String"
  using assms by (simp add: load_endpoint_def time_attribute_def removal_event_def Let_def split_beta)

text \<open>
  \<open>loadServer\<close> passes no creation event to its endpoints, so those of a server that is created later are
  tried at once and given up.
\<close>

theorem late_server_endpoint_lost:
  assumes ok: "manager_ok m" and absent: "getParticipant g m = None"
    and x: "Attribute X s_sTopic x = Some tp" "Attribute X s_sCreationTime x = None" "Attribute X s_sRemovalTime x = None"
  shows "\<exists>m'. load_endpoint k X D dbg g x None None (m, w) = Inr (m', w) \<and> events m' = events m
    \<and> data_readers m' = data_readers m \<and> data_writers m' = data_writers m \<and> getParticipant g m' = None"
proof -
  have "load_endpoint k X D dbg g x None None (m, w) =
      endpoint_creation D dbg k (topic_item_name (described_topic (Some tp) m))
        (topic_item_type (described_topic (Some tp) m)) tp
        (case Attribute X s_profile_name x of None \<Rightarrow> [] | Some p \<Rightarrow> p) g None None (m, w)"
    using x by (simp add: load_endpoint_def time_attribute_def removal_event_def Let_def)
  moreover obtain m' where m': "endpoint_creation D dbg k (topic_item_name (described_topic (Some tp) m))
        (topic_item_type (described_topic (Some tp) m)) tp
        (case Attribute X s_profile_name x of None \<Rightarrow> [] | Some p \<Rightarrow> p) g None None (m, w) = Inr (m', w)"
      "m' = m\<lparr>entity_map := entity_map m'\<rparr>" "getParticipant g m' = getParticipant g m"
    using endpoint_creation_orphan [OF ok absent, of D dbg k "topic_item_name (described_topic (Some tp) m)"
        "topic_item_type (described_topic (Some tp) m)" tp
        "case Attribute X s_profile_name x of None \<Rightarrow> [] | Some p \<Rightarrow> p" None w] by blast
  obtain em where "m' = m\<lparr>entity_map := em\<rparr>" using m'(2) by blast
  then have "events m' = events m" "data_readers m' = data_readers m" "data_writers m' = data_writers m" by simp_all
  ultimately show ?thesis using m'(1,3) absent by (intro exI [of _ m']) (simp only: simp_thms)
qed

theorem loadSnapshot_schedules:
  assumes inv: "config_inv n m" and x: "Attribute X s_sTime x = Some str" "read_int str = Inr aux" "GetText X x = Some desc"
  shows "\<exists>m' a. loadSnapshot X x m = Inr m' \<and> config_inv n m' \<and> events m' = events m @ [a] \<and> a \<notin> set (events m)
    \<and> schedule m' a = Some (getTime m + seconds aux,
         Takes_Snapshot desc (BoolAttribute X s_sSomeone True x) (BoolAttribute X s_sShowLiveliness False x))"
proof -
  let ?act = "DelayedSnapshot desc (BoolAttribute X s_sSomeone True x) (BoolAttribute X s_sShowLiveliness False x)"
  obtain a m' where push: "push_event (getTime m + seconds aux) ?act m = (a, m')" by (metis prod.collapse)
  have run: "loadSnapshot X x m = Inr m'" using x push by (simp add: loadSnapshot_def Let_def)
  have "within (getTime m) (makes_endpoint (shape ?act)) (getTime m + seconds aux)"
    using read_int_range [OF x(2)] by (auto simp: within_def seconds_def)
  then have "schedule m' a = Some (getTime m + seconds aux, shape ?act)"
    using push_event_extends [OF inv _ _ push] by simp
  moreover have "a = length (events m)" "events m' = events m @ [a]"
    using push by (auto simp: push_event_def Let_def)
  moreover have "a \<notin> set (events m)" using inv calculation(2) by (metis atLeastLessThan_iff config_inv_def less_irrefl set_upt)
  ultimately show ?thesis using run extends_inv [OF loadSnapshot_grows [OF inv run]] by auto
qed

section \<open>The program\<close>

text \<open>
  Any two databases of the snapshot agree on every participant that is not the spokesman of a database
  between them.
\<close>

definition agreeing :: "'g::linorder Snapshot \<Rightarrow> bool" where
  "agreeing shot \<longleftrightarrow> (\<forall>i j g. i \<le> j \<longrightarrow> j < length (databases shot) \<longrightarrow>
     (\<forall>k. i \<le> k \<and> k \<le> j \<longrightarrow> endpoint_guid (databases shot ! k) \<noteq> g) \<longrightarrow>
     agree_on g (databases shot ! i) (databases shot ! j))"

lemma construct_snapshot_file:
  assumes "ChildElements X s_sDS doc = []" "ChildElements X s_sDS_Snapshots doc \<noteq> []"
    and "construct X C D P G clk dbg (Some doc) (m, w) = Inr (m', w')"
  shows "\<exists>loaded ss. loadSnapshots X G clk (Some doc) (snapshots m) = Inr (loaded, ss)
    \<and> m' = m\<lparr>snapshots := ss, validate := True, auto_shutdown := True\<rparr> \<and> w' = w"
  using assms by (auto simp: construct_def bind_run_Inr_iff Let_def split: list.splits)

lemma program_runs:
  assumes opt: "\<not> parse_error opt" "non_options opt = 0" "\<not> show_help opt" "\<not> no_arguments opt"
      "config_option opt = Some (1, path)"
    and run: "program X C D P G clk std_sort waiting load_file dbg img opt w = Inr (code, message, output)"
  shows "\<exists>m0 w0 m w1.
    construct X C D P G clk dbg (load_file path) (new_manager (steady_clock clk) img (shm_option opt), w) = Inr (m0, w0)
    \<and> runEvents std_sort waiting D P dbg
        (case output_option opt of Some arg \<Rightarrow> m0\<lparr>snapshots_output_file := arg\<rparr> | None \<Rightarrow> m0, w0) = Inr (m, w1)
    \<and> check_snapshots (if correctly_created m0 then 0 else 1) m = (code, message)
    \<and> output = destructor X G clk (fst (onTerminate D (m, w1)))"
proof -
  note run = run [unfolded program_def]
  obtain m0 w0 where 1: "construct X C D P G clk dbg (load_file path)
      (new_manager (steady_clock clk) img (shm_option opt), w) = Inr (m0, w0)"
    using run opt by (auto simp: bind_run_Inr_iff)
  obtain m w1 where 2: "runEvents std_sort waiting D P dbg
        (case output_option opt of Some arg \<Rightarrow> m0\<lparr>snapshots_output_file := arg\<rparr> | None \<Rightarrow> m0, w0) = Inr (m, w1)"
    using run opt by (auto simp: 1 bind_run_Inr_iff Let_def)
  have "check_snapshots (if correctly_created m0 then 0 else 1) m = (code, message)
    \<and> output = destructor X G clk (fst (onTerminate D (m, w1)))"
    using run opt 1 2 by (auto simp: Let_def split_beta prod_eq_iff split: if_splits cong: option.case_cong)
  with 1 2 show ?thesis by blast
qed

text \<open>
  A snapshot file is validated, but the constructor returns before it sets \<open>correctly_created_\<close>: the
  success message comes with the exit code of a failure.
\<close>

lemma chain_agreeing:
  assumes "list_all image_ok ss" "list_all allKnowEachOther ss"
  shows "list_all agreeing ss"
  using assms chain_agrees unfolding list_all_iff agreeing_def by blast

text \<open>
  C39: A run on a snapshot file validates exactly the snapshots of the file, whoever wrote it: the
  list is well formed, the exit code is -1 when one of them fails and 1 otherwise, never 0, and
  when success is reported any two databases of a snapshot agree on every participant that is not
  the spokesman of a database between them.
\<close>

theorem snapshot_file_verdict:
  assumes opt: "\<not> parse_error opt" "non_options opt = 0" "\<not> show_help opt" "\<not> no_arguments opt"
      "config_option opt = Some (1, path)"
    and doc: "load_file path = Some doc" "ChildElements X s_sDS doc = []" "ChildElements X s_sDS_Snapshots doc \<noteq> []"
    and img: "db_inv img" and sort: "sort_laws std_sort" and waiting: "waiting_ok waiting"
    and run: "program X C D P G clk std_sort waiting load_file dbg img opt w = Inr (code, message, output)"
  shows "\<exists>loaded ss. loadSnapshots X G clk (Some doc) [] = Inr (loaded, ss) \<and> list_all image_ok ss
    \<and> (code, message) =
       (if ss = [] then (1, None)
        else if list_all allKnowEachOther ss then (1, Some ''Output file validation succeeded!'') else (- 1, None))
    \<and> (message \<noteq> None \<longrightarrow> list_all agreeing ss)"
proof -
  obtain m0 w0 m w1 where 1: "construct X C D P G clk dbg (Some doc)
      (new_manager (steady_clock clk) img (shm_option opt), w) = Inr (m0, w0)"
    and 2: "runEvents std_sort waiting D P dbg
        (case output_option opt of Some arg \<Rightarrow> m0\<lparr>snapshots_output_file := arg\<rparr> | None \<Rightarrow> m0, w0) = Inr (m, w1)"
    and 3: "check_snapshots (if correctly_created m0 then 0 else 1) m = (code, message)"
    using program_runs [OF opt run] unfolding doc(1) by blast
  define m0' where "m0' = (case output_option opt of Some arg \<Rightarrow> m0\<lparr>snapshots_output_file := arg\<rparr> | None \<Rightarrow> m0)"
  obtain loaded ss where ss: "loadSnapshots X G clk (Some doc) [] = Inr (loaded, ss)"
    and m0: "m0 = (new_manager (steady_clock clk) img (shm_option opt))\<lparr>snapshots := ss, validate := True, auto_shutdown := True\<rparr>"
    using construct_snapshot_file [OF doc(2,3) 1] by (auto simp: new_manager_def)
  have ok: "list_all image_ok ss" using loadSnapshots_well_formed [OF _ ss] by simp
  have "manager_ok m0'" "events m0' = []" "snapshots m0' = ss" "validate m0'"
    using ok img by (auto simp: m0'_def m0 new_manager_def manager_ok_def list_all_iff split: option.split)
  with runEvents_idle [OF sort waiting _ _ 2 [folded m0'_def]] have "snapshots m = ss" "validate m" by auto
  moreover have "\<not> correctly_created m0" by (simp add: m0 new_manager_def)
  ultimately have verdict: "(code, message) = (if ss = [] then (1, None)
      else if list_all allKnowEachOther ss then (1, Some ''Output file validation succeeded!'') else (- 1, None))"
    using 3 by (simp add: check_snapshots_def shouldValidate_def validateAllSnapshots_all list_all_iff [symmetric]
        successMessage_def split: if_splits)
  then have "message \<noteq> None \<longrightarrow> list_all agreeing ss"
    using chain_agreeing [OF ok] by (auto split: if_splits)
  with ss ok verdict show ?thesis by blast
qed

text \<open>Only a configuration that was read to its end sets \<open>correctly_created_\<close>.\<close>

lemma construct_created:
  assumes run: "construct X C D P G clk dbg document (new_manager t img shm, w) = Inr (m, w')"
    and created: "correctly_created m"
  shows "\<exists>doc. document = Some doc \<and> ChildElements X s_sDS doc \<noteq> []"
proof (cases document)
  case None
  then show ?thesis using assms by (auto simp: construct_def new_manager_def)
next
  case (Some doc)
  have "ChildElements X s_sDS doc \<noteq> []"
  proof
    assume *: "ChildElements X s_sDS doc = []"
    show False
      using assms Some * construct_snapshot_file [OF *, of C D P G clk dbg _ w m w']
      by (cases "ChildElements X s_sDS_Snapshots doc") (auto simp: construct_def new_manager_def bind_run_Inr_iff)
  qed
  with Some show ?thesis by simp
qed

lemma onTerminate_keeps:
  "snapshots (fst (onTerminate D (m, w))) = snapshots m"
  "snapshots_output_file (fst (onTerminate D (m, w))) = snapshots_output_file m"
  by (simp_all add: onTerminate_def Let_def)

text \<open>
  C16: Exit code 0 of a run whose command line is accepted, has arguments and does not ask for
  help means: exactly one configuration file was given, read and processed to its end, the
  scheduled events all ran, and if there are snapshots to validate, every one of them passed
  validation.
\<close>

theorem program_success:
  assumes opt: "\<not> parse_error opt" "non_options opt = 0" "\<not> show_help opt" "\<not> no_arguments opt"
    and run: "program X C D P G clk std_sort waiting load_file dbg img opt w = Inr (0, message, output)"
  shows "\<exists>path doc m0 w0 m w1. config_option opt = Some (1, path) \<and> load_file path = Some doc
    \<and> ChildElements X s_sDS doc \<noteq> []
    \<and> construct X C D P G clk dbg (Some doc) (new_manager (steady_clock clk) img (shm_option opt), w) = Inr (m0, w0)
    \<and> correctly_created m0
    \<and> runEvents std_sort waiting D P dbg
        (case output_option opt of Some arg \<Rightarrow> m0\<lparr>snapshots_output_file := arg\<rparr> | None \<Rightarrow> m0, w0) = Inr (m, w1)
    \<and> (validate m \<and> snapshots m \<noteq> [] \<longrightarrow> list_all allKnowEachOther (snapshots m))"
proof -
  obtain path where path: "config_option opt = Some (1, path)"
    using run opt by (auto simp: program_def split: option.splits if_splits)
  obtain m0 w0 m w1 where 1: "construct X C D P G clk dbg (load_file path)
      (new_manager (steady_clock clk) img (shm_option opt), w) = Inr (m0, w0)"
    and 2: "runEvents std_sort waiting D P dbg
        (case output_option opt of Some arg \<Rightarrow> m0\<lparr>snapshots_output_file := arg\<rparr> | None \<Rightarrow> m0, w0) = Inr (m, w1)"
    and 3: "check_snapshots (if correctly_created m0 then 0 else 1) m = (0, message)"
    using program_runs [OF opt path run] by blast
  have created: "correctly_created m0"
    and valid: "validate m \<and> snapshots m \<noteq> [] \<longrightarrow> list_all allKnowEachOther (snapshots m)"
    using 3 by (auto simp: check_snapshots_def shouldValidate_def validateAllSnapshots_all list_all_iff split: if_splits)
  note construct_created [OF 1 created]
  with path 1 2 created valid show ?thesis by auto
qed

lemma map_filter_mset: "mset xs = mset ys \<Longrightarrow> mset (List.map_filter f xs) = mset (List.map_filter f ys)"
  unfolding map_filter_def mset_map mset_filter by simp

text \<open>The snapshots of a run, with their times, are those the events ask for, sorted by time.\<close>

lemma runEvents_asked:
  assumes sort: "sort_laws std_sort" and waiting: "waiting_ok waiting" and ok: "manager_ok m"
    and run: "runEvents std_sort waiting D P dbg (m, w) = Inr (m', w')"
  shows "\<exists>L. mset L = mset (asked m) \<and> sorted (map fst L)
    \<and> map taken (snapshots m') = map taken (snapshots m) @ map snd L"
proof -
  let ?L = "List.map_filter (timed_snapshot m) (events m')"
  note effect = runEvents_effect [OF assms]
  have "map snd (List.map_filter (timed_snapshot m) xs) = List.map_filter (wants_snapshot m) xs" for xs
    by (induction xs) (auto simp: map_filter_simps timed_snapshot_def wants_snapshot_def
        split: option.split event_shape.split)
  moreover have "sorted (map fst (List.map_filter (timed_snapshot m) xs))"
    if "sorted (map (stored_event_time (event_store m)) xs)" for xs
    using that
  proof (induction xs)
    case (Cons a xs)
    have time: "t = stored_event_time (event_store m) b" if "timed_snapshot m b = Some (t, x)" for b t x
      using that by (auto simp: timed_snapshot_def schedule_def stored_event_time_def split: option.splits event_shape.splits)
    have "set (List.map_filter (timed_snapshot m) xs) \<subseteq> {(t, x) | t x b. b \<in> set xs \<and> timed_snapshot m b = Some (t, x)}"
      by (auto simp: map_filter_def image_iff)
    then have "stored_event_time (event_store m) a \<le> t" if "(t, x) \<in> set (List.map_filter (timed_snapshot m) xs)" for t x
      using that Cons.prems time by fastforce
    then show ?case using Cons time by (auto simp: map_filter_simps split: option.split)
  qed (simp add: map_filter_simps)
  moreover have "mset ?L = mset (asked m)"
    unfolding asked_def using effect by (intro map_filter_mset) simp
  ultimately show ?thesis using effect by (intro exI [of _ ?L]) simp
qed

text \<open>
  C17: A run of the program on a configuration that ends with exit code 0 ran the constructor and
  all events to their end, and the manager then holds exactly one snapshot for every snapshot
  element with a time, in the order of their times, each with the description, the someone flag
  and the show_liveliness flag of its element. They pass validation when it is asked for, the
  success message is printed exactly when there are snapshots to validate, and the output is
  exactly the file with these snapshots, when a file name is set.
\<close>

theorem program_output:
  assumes opt: "\<not> parse_error opt" "non_options opt = 0" "\<not> show_help opt" "\<not> no_arguments opt"
      "config_option opt = Some (1, path)" and doc: "load_file path = Some doc"
    and img: "db_inv img" and sort: "sort_laws std_sort" and waiting: "waiting_ok waiting"
    and run: "program X C D P G clk std_sort waiting load_file dbg img opt w = Inr (0, message, output)"
  shows "\<exists>m0 w0 m w1 L.
    construct X C D P G clk dbg (Some doc) (new_manager (steady_clock clk) img (shm_option opt), w) = Inr (m0, w0)
    \<and> runEvents std_sort waiting D P dbg
        (case output_option opt of Some arg \<Rightarrow> m0\<lparr>snapshots_output_file := arg\<rparr> | None \<Rightarrow> m0, w0) = Inr (m, w1)
    \<and> mset L = mset (concat (map (snapshot_requests X (snapshot_time img)) (ChildElements X s_sDS doc)))
    \<and> sorted (map fst L)
    \<and> map (\<lambda>s. (description s, if_someone s, show_liveliness s)) (snapshots m) = map snd L
    \<and> (validate m \<longrightarrow> list_all allKnowEachOther (snapshots m))
    \<and> message = (if validate m \<and> snapshots m \<noteq> [] then Some ''Output file validation succeeded!'' else None)
    \<and> output = (if snapshots_output_file m = [] then None
        else Some (snapshots_output_file m, saveSnapshots X G clk (snapshots m)))"
proof -
  obtain m0 w0 m w1 where 1: "construct X C D P G clk dbg (load_file path)
      (new_manager (steady_clock clk) img (shm_option opt), w) = Inr (m0, w0)"
    and 2: "runEvents std_sort waiting D P dbg
        (case output_option opt of Some arg \<Rightarrow> m0\<lparr>snapshots_output_file := arg\<rparr> | None \<Rightarrow> m0, w0) = Inr (m, w1)"
    and 3: "check_snapshots (if correctly_created m0 then 0 else 1) m = (0, message)"
    and 4: "output = destructor X G clk (fst (onTerminate D (m, w1)))"
    using program_runs [OF opt run] by blast
  define m0' where "m0' = (case output_option opt of Some arg \<Rightarrow> m0\<lparr>snapshots_output_file := arg\<rparr> | None \<Rightarrow> m0)"
  have created: "correctly_created m0"
    and valid: "validate m \<longrightarrow> list_all allKnowEachOther (snapshots m)"
      "message = (if validate m \<and> snapshots m \<noteq> [] then Some ''Output file validation succeeded!'' else None)"
    using 3 by (auto simp: check_snapshots_def validateAllSnapshots_all list_all_iff shouldValidate_def
        successMessage_def split: if_splits)
  from created have "ChildElements X s_sDS doc \<noteq> []" using construct_created [OF 1] doc by simp
  from construct_grows [OF img this 1 [unfolded doc]] created
  have m0: "manager_ok m0" "snapshots m0 = []"
      "asked m0 = concat (map (snapshot_requests X (snapshot_time img)) (ChildElements X s_sDS doc))"
    using config_inv_ok by blast+
  have "asked m0' = asked m0"
    by (rule asked_frame) (simp_all add: m0'_def schedule_simps split: option.split)
  moreover have "manager_ok m0'" "snapshots m0' = []"
    using m0(1,2) by (simp_all add: m0'_def manager_ok_def split: option.split)
  ultimately obtain L where
    "mset L = mset (concat (map (snapshot_requests X (snapshot_time img)) (ChildElements X s_sDS doc)))"
    "sorted (map fst L)" "map taken (snapshots m) = map snd L"
    using runEvents_asked [OF sort waiting _ 2 [folded m0'_def]] m0(3) by auto
  moreover have "output = (if snapshots_output_file m = [] then None
      else Some (snapshots_output_file m, saveSnapshots X G clk (snapshots m)))"
    by (simp add: 4 destructor_def onTerminate_keeps)
  ultimately show ?thesis using valid 1 [unfolded doc] 2 unfolding taken_def by (intro exI conjI)
qed

section \<open>Instances\<close>

text \<open>
  Prefixes and GUIDs are numbers, the QoS of every profile is \<open>5\<close>, a transport is its kind, its ports
  and its public address. The configuration asks for one snapshot after five seconds.
\<close>

definition sample_config ::
  "(element, nat, nat, nat, transport_kind \<times> 16 word list \<times> string, nat list, 'w) config" where
  "sample_config =
     \<lparr>AllChildElements = sample_children [], PrintElement = (\<lambda>_. []),
      load_XML_profiles_string = (\<lambda>_ _ w. (RETCODE_OK, w)),
      get_participant_qos_from_profile = (\<lambda>_ _. (RETCODE_OK, 5)), default_qos = 5,
      qos_set_name = (\<lambda>_ q. q), qos_prefix = (\<lambda>q. q), qos_set_prefix = (\<lambda>p q. p), qos_protocol = (\<lambda>_. SERVER),
      qos_multicast = (\<lambda>_. []), qos_unicast = (\<lambda>_. []), qos_set_locators = (\<lambda>_ _ q. q),
      qos_transports = (\<lambda>_. []), qos_set_transports = (\<lambda>_ q. q), qos_disable_builtin_transports = (\<lambda>q. q),
      read_prefix = (\<lambda>s p. (s \<noteq> [], length s)), unknown_prefix = 0, guid_of_prefix = (\<lambda>p. p),
      no_locators = [], locators_empty = (\<lambda>l. l = []), kind_of_transport = fst, listening_ports = (\<lambda>t. fst (snd t)),
      add_listener_port = (\<lambda>p (k, ps, a). (k, ps @ [p], a)), set_WAN_address = (\<lambda>a (k, ps, _). (k, ps, a)),
      new_TCPv4 = (TCPv4_Transport, [], []), new_UDPv4 = (Other_Transport, [], [])\<rparr>"

definition sample_configuration :: element where
  "sample_configuration = Element [] [] None [Element ''DS'' [] None [Element ''snapshots'' [] None
     [Element ''snapshot'' [(''time'', Text_Value ''5''), (''someone'', Bool_Value False)] (Some ''s'') []]]]"

definition configured ::
  "((nat, nat, nat, nat list) Manager \<times> nat shutdown_call list) run" where
  "configured = construct sample_xml sample_config sample_dds sample_platform sample_guids sample_clocks True
     (Some sample_configuration) (new_manager 0 (new_image 0 1 2) False, [])"

lemma configured_runs:
  "case configured of Inr (m, w) \<Rightarrow> length (events m) = 1 \<and> correctly_created m | Inl e \<Rightarrow> False"
  by code_simp

theorem configured_schedule_witness:
  "\<exists>m w. configured = Inr (m, w) \<and> manager_ok m \<and> length (events m) = 1 \<and> distinct (events m)
    \<and> dom (schedule m) = set (events m)"
proof -
  obtain m w where run: "configured = Inr (m, w)" "length (events m) = 1"
    using configured_runs by (auto split: sum.splits)
  have root: "ChildElements sample_xml s_sDS sample_configuration \<noteq> []" by code_simp
  show ?thesis
    using run configured_schedule [OF db_inv_new root run(1) [unfolded configured_def]] by blast
qed

theorem listening_port_expression_witness:
  "ipv4_match ''1.2.3.456'' = Some (''1.2.3.456'', []) \<and> ipv4_language ''1.2.3.4'' ''56'' ''1.2.3.456''
   \<and> {(a, p). ipv4_language a p ''1.2.3.456'' \<and> length ''1.2.3.456'' \<le> length a} = {(''1.2.3.456'', [])}"
proof -
  have "is_octet ''1''" "is_octet ''2''" "is_octet ''3''" "is_octet ''4''" by code_simp+
  then have "dotted 3 (''1'' @ CHR ''.'' # ''2'' @ CHR ''.'' # ''3'' @ CHR ''.'' # ''4'')"
    unfolding numeral_3_eq_3 dotted.simps by blast
  then have dot: "dotted 3 ''1.2.3.4''" by simp
  have "list_all is_digit ''56''" by code_simp
  then have lang: "ipv4_language ''1.2.3.4'' ''56'' ''1.2.3.456''"
    unfolding ipv4_language_def using dot by simp
  have m: "ipv4_match ''1.2.3.456'' = Some (''1.2.3.456'', [])" by code_simp
  have "case ipv4_match ''1.2.3.456'' of
      Some (address, port) \<Rightarrow> ipv4_language address port ''1.2.3.456''
        \<and> (\<forall>a p. ipv4_language a p ''1.2.3.456'' \<longrightarrow> (a, p) = (address, port) \<or> length a < length address)
    | None \<Rightarrow> \<not> (\<exists>address port. ipv4_language address port ''1.2.3.456'')"
    by (rule listening_port_expression)
  then have "{(a, p). ipv4_language a p ''1.2.3.456'' \<and> length ''1.2.3.456'' \<le> length a} = {(''1.2.3.456'', [])}"
    unfolding m option.case prod.case by (auto dest: leD)
  then show ?thesis using m lang by simp
qed

theorem listening_port_missing_witness:
  "ipv4_match ''1.2.3.4'' = Some (''1.2.3.4'', [])
   \<and> client_listening_port (sample_config :: (element, nat, nat, nat, _, nat list, unit) config) ''1.2.3.4'' 5
       = Inl Uncaught_Exception"
proof -
  have "ipv4_match ''1.2.3.4'' = Some (''1.2.3.4'', [])" by code_simp
  with listening_port_missing [OF this, of sample_config 5] show ?thesis by simp
qed

theorem listening_transports_one_witness:
  "listening_transports (sample_config :: (element, nat, nat, nat, _, nat list, unit) config) [] 65537
       [(Other_Transport, [], []), (TCPv6_Transport, [], [])]
     = [(Other_Transport, [], []), (TCPv6_Transport, [1], [])]
   \<and> listening_transports (sample_config :: (element, nat, nat, nat, _, nat list, unit) config) ''1.2.3.4'' 80
       [(TCPv6_Transport, [], [])] = [(TCPv6_Transport, [], []), (TCPv4_Transport, [80], ''1.2.3.4'')]"
  using listening_transports_one [of "sample_config :: (element, nat, nat, nat, _, nat list, unit) config"
      "[(Other_Transport, [], [])]" "(TCPv6_Transport, [], [])" "[]" 65537 "[]"]
    listening_transports_one [of "sample_config :: (element, nat, nat, nat, _, nat list, unit) config"
      "[]" "(TCPv6_Transport, [], [])" "''1.2.3.4''" 80 "[]" "[(TCPv6_Transport, [], [])]"]
  by (simp add: sample_config_def transport_kinds_def with_port_def with_address_def)

theorem load_endpoint_without_topic_witness:
  "load_endpoint Reader_Kind sample_xml sample_dds True 2 (Element ''subscriber'' [] None []) None None
     (sample_manager, []) = Inl Null_String"
  by (rule load_endpoint_without_topic) (simp_all add: sample_xml_def)

theorem late_server_endpoint_lost_witness:
  "\<exists>m'. load_endpoint Writer_Kind sample_xml sample_dds True 3 (Element ''publisher'' [(''topic'', Text_Value ''t'')] None [])
      None None (late_manager, []) = Inr (m', []) \<and> events m' = events late_manager"
proof -
  let ?x = "Element ''publisher'' [(''topic'', Text_Value ''t'')] None []"
  have absent: "getParticipant 3 late_manager = None" using late_fields by (simp add: getParticipant_eq)
  have "Attribute sample_xml s_sTopic ?x = Some ''t''" "Attribute sample_xml s_sCreationTime ?x = None"
    "Attribute sample_xml s_sRemovalTime ?x = None" by code_simp+
  from late_server_endpoint_lost [OF late_manager_ok absent this, of Writer_Kind sample_dds True "[]"] show ?thesis by blast
qed

theorem loadSnapshot_schedules_witness:
  "\<exists>m' :: (nat, nat, nat, nat list) Manager.
     loadSnapshot sample_xml (Element ''snapshot'' [(''time'', Text_Value ''5'')] (Some ''s'') [])
       (new_manager 0 (new_image 0 1 2) False) = Inr m'
     \<and> (\<exists>a. events m' = [a] \<and> schedule m' a = Some (5000000001, Takes_Snapshot ''s'' True False))"
proof -
  let ?x = "Element ''snapshot'' [(''time'', Text_Value ''5'')] (Some ''s'') []"
  let ?m = "new_manager 0 (new_image 0 1 2) False :: (nat, nat, nat, nat list) Manager"
  have inv: "config_inv (\<lambda>q. q) ?m" by (rule config_inv_new [OF db_inv_new])
  have x: "Attribute sample_xml s_sTime ?x = Some ''5''" "read_int ''5'' = Inr 5" "GetText sample_xml ?x = Some ''s''"
    "BoolAttribute sample_xml s_sSomeone True ?x = True" "BoolAttribute sample_xml s_sShowLiveliness False ?x = False"
    by code_simp+
  have m: "events ?m = []" "getTime ?m = 1" by (simp_all add: new_manager_def getTime_def new_image_def)
  show ?thesis
    using loadSnapshot_schedules [OF inv x(1-3)]
    by (simp add: x m seconds_def) blast
qed

definition sample_options :: options where
  "sample_options = \<lparr>parse_error = False, non_options = 0, show_help = False, no_arguments = False,
     config_option = Some (1, ''file.xml''), output_option = None, shm_option = False\<rparr>"

definition sample_program :: "element \<Rightarrow> (int \<times> string option \<times> (string \<times> element) option) run" where
  "sample_program doc =
     program sample_xml (sample_config :: (_, _, _, _, _, _, nat shutdown_call list) config) sample_dds sample_platform
       sample_guids sample_clocks insertion_sort silent (\<lambda>_. Some doc) True (new_image 0 1 2) sample_options []"

lemma sample_options_ok:
  "\<not> parse_error sample_options" "non_options sample_options = 0" "\<not> show_help sample_options"
  "\<not> no_arguments sample_options" "config_option sample_options = Some (1, ''file.xml'')"
  by (simp_all add: sample_options_def)

lemma sample_program_runs:
  "sample_program sample_document = Inr (1, Some ''Output file validation succeeded!'', None)"
  "sample_program sample_configuration = Inr (0, Some ''Output file validation succeeded!'', None)"
  by code_simp+

theorem snapshot_file_verdict_witness:
  "sample_program sample_document = Inr (1, Some ''Output file validation succeeded!'', None)
   \<and> (\<exists>loaded ss. loadSnapshots sample_xml sample_guids sample_clocks (Some sample_document) [] = Inr (loaded, ss)
        \<and> ss \<noteq> [] \<and> list_all agreeing ss)"
proof -
  have "ChildElements sample_xml s_sDS sample_document = []" "ChildElements sample_xml s_sDS_Snapshots sample_document \<noteq> []"
    by code_simp+
  from snapshot_file_verdict [OF sample_options_ok refl this db_inv_new insertion_sort_laws silent_ok
      sample_program_runs(1) [unfolded sample_program_def]]
    sample_program_runs(1) show ?thesis by (fastforce split: if_splits)
qed

theorem program_success_witness:
  "sample_program sample_configuration = Inr (0, Some ''Output file validation succeeded!'', None)
   \<and> (\<exists>m0 w0. construct sample_xml sample_config sample_dds sample_platform sample_guids sample_clocks True
        (Some sample_configuration) (new_manager 0 (new_image 0 1 2) False, []) = Inr (m0, w0) \<and> correctly_created m0)"
proof -
  have clk: "steady_clock sample_clocks = 0" "shm_option sample_options = False"
    by (simp_all add: sample_clocks_def sample_options_def)
  show ?thesis
    using program_success [OF sample_options_ok(1-4) sample_program_runs(2) [unfolded sample_program_def]]
      sample_program_runs(2) by (auto simp: clk)
qed

text \<open>Two snapshots, the later one first, and an output file.\<close>

definition two_snapshots :: element where
  "two_snapshots = Element [] [] None [Element ''DS'' [] None [Element ''snapshots'' [] None
     [Element ''snapshot'' [(''time'', Text_Value ''7''), (''someone'', Bool_Value False)] (Some ''b'') [],
      Element ''snapshot'' [(''time'', Text_Value ''5''), (''someone'', Bool_Value False)] (Some ''a'') []]]]"

definition output_program :: "(int \<times> string option \<times> (string \<times> element) option) run" where
  "output_program =
     program sample_xml (sample_config :: (_, _, _, _, _, _, nat shutdown_call list) config) sample_dds sample_platform
       sample_guids sample_clocks insertion_sort silent (\<lambda>_. Some two_snapshots) True (new_image 0 1 2)
       (sample_options\<lparr>output_option := Some ''o''\<rparr>) []"

lemma output_program_runs:
  "case output_program of Inr (code, message, Some (file_name, written)) \<Rightarrow>
     code = 0 \<and> message = Some ''Output file validation succeeded!'' \<and> file_name = ''o'' | _ \<Rightarrow> False"
  by code_simp

theorem program_output_witness:
  "\<exists>m0 w0 m w1. construct sample_xml sample_config sample_dds sample_platform sample_guids sample_clocks True
       (Some two_snapshots) (new_manager 0 (new_image 0 1 2) False, []) = Inr (m0, w0)
   \<and> runEvents insertion_sort silent sample_dds sample_platform True (m0\<lparr>snapshots_output_file := ''o''\<rparr>, w0) = Inr (m, w1)
   \<and> map description (snapshots m) = [''a'', ''b''] \<and> list_all allKnowEachOther (snapshots m)
   \<and> output_program = Inr (0, Some ''Output file validation succeeded!'',
       Some (''o'', saveSnapshots sample_xml sample_guids sample_clocks (snapshots m)))"
proof -
  obtain written where
    run: "output_program = Inr (0, Some ''Output file validation succeeded!'', Some (''o'', written))"
    using output_program_runs by (auto split: sum.splits prod.splits option.splits)
  have opt: "\<not> parse_error (sample_options\<lparr>output_option := Some ''o''\<rparr>)"
    "non_options (sample_options\<lparr>output_option := Some ''o''\<rparr>) = 0"
    "\<not> show_help (sample_options\<lparr>output_option := Some ''o''\<rparr>)"
    "\<not> no_arguments (sample_options\<lparr>output_option := Some ''o''\<rparr>)"
    "config_option (sample_options\<lparr>output_option := Some ''o''\<rparr>) = Some (1, ''file.xml'')"
    by (simp_all add: sample_options_def)
  have requests: "concat (map (snapshot_requests sample_xml 1) (ChildElements sample_xml s_sDS two_snapshots)) =
      [(7000000001, ''b'', False, False), (5000000001, ''a'', False, False)]"
    by code_simp
  have start: "snapshot_time (new_image 0 1 2) = 1" by (simp add: new_image_def)
  have clk: "steady_clock sample_clocks = 0" "shm_option (sample_options\<lparr>output_option := Some ''o''\<rparr>) = False"
    "output_option (sample_options\<lparr>output_option := Some ''o''\<rparr>) = Some ''o''"
    by (simp_all add: sample_clocks_def sample_options_def)
  obtain m0 w0 m w1 L where 1: "construct sample_xml sample_config sample_dds sample_platform sample_guids sample_clocks True
       (Some two_snapshots) (new_manager 0 (new_image 0 1 2) False, []) = Inr (m0, w0)"
    and 2: "runEvents insertion_sort silent sample_dds sample_platform True (m0\<lparr>snapshots_output_file := ''o''\<rparr>, w0) = Inr (m, w1)"
    and L: "mset L = {#(7000000001 :: time_point, ''b'', False, False), (5000000001, ''a'', False, False)#}"
      "sorted (map fst L)" "map (\<lambda>s. (description s, if_someone s, show_liveliness s)) (snapshots m) = map snd L"
    and valid: "validate m \<longrightarrow> list_all allKnowEachOther (snapshots m)"
      "Some ''Output file validation succeeded!'' = (if validate m \<and> snapshots m \<noteq> [] then Some ''Output file validation succeeded!'' else None)"
    and out: "Some (''o'', written) = (if snapshots_output_file m = [] then None
        else Some (snapshots_output_file m, saveSnapshots sample_xml sample_guids sample_clocks (snapshots m)))"
    using program_output [OF opt refl db_inv_new insertion_sort_laws silent_ok run [unfolded output_program_def]]
    unfolding start requests clk by (elim exE conjE) (simp add: requests)
  have "map snd L = [(''a'', False, False), (''b'', False, False)]"
  proof -
    have "length L = 2" using arg_cong [OF L(1), of size] by simp
    then obtain x y where "L = [x, y]" by (auto simp: numeral_2_eq_2 length_Suc_conv)
    moreover have "set L = {(7000000001, ''b'', False, False), (5000000001, ''a'', False, False)}"
      using arg_cong [OF L(1), of set_mset] by simp
    ultimately show ?thesis using L(2) by (auto simp: doubleton_eq_iff)
  qed
  with L(3) have "map fst (map (\<lambda>s. (description s, if_someone s, show_liveliness s)) (snapshots m)) = [''a'', ''b'']"
    by simp
  then have "map description (snapshots m) = [''a'', ''b'']" by (simp add: o_def)
  moreover have "list_all allKnowEachOther (snapshots m)" using valid by (auto split: if_splits)
  moreover have "written = saveSnapshots sample_xml sample_guids sample_clocks (snapshots m)"
    using out by (auto split: if_splits)
  ultimately show ?thesis using 1 2 run by (intro exI conjI) simp_all
qed

end
