(* ===== verification/Registry.thy ===== *)
theory Registry
  imports Event_Schedule
begin

text \<open>
  The registries of the manager: every registered participant is filed under its own GUID and has an
  entry with its publisher and its subscriber among the created entities. Every event keeps that, and
  where it holds no event of a release build ends in a null pointer.
\<close>

section \<open>The created entities\<close>

definition core :: "'d ParticipantCreatedEntityInfo \<Rightarrow> 'd option \<times> 'd option \<times> 'd option" where
  "core i = (info_participant i, info_publisher i, info_subscriber i)"

text \<open>Changes that concern topics only, and blank entries.\<close>

definition calm ::
  "('g::linorder \<times> 'd ParticipantCreatedEntityInfo) list \<Rightarrow> ('g \<times> 'd ParticipantCreatedEntityInfo) list \<Rightarrow> bool" where
  "calm em em' \<longleftrightarrow> map_ok em' \<and> (\<forall>g. case map_find g em of
       Some i \<Rightarrow> (case map_find g em' of Some i' \<Rightarrow> core i' = core i | None \<Rightarrow> False)
     | None \<Rightarrow> (case map_find g em' of Some i' \<Rightarrow> core i' = core blank_info | None \<Rightarrow> True))"

lemma calm_refl: "map_ok em \<Longrightarrow> calm em em"
  by (simp add: calm_def split: option.split)

lemma calm_ok: "calm em em' \<Longrightarrow> map_ok em'"
  by (simp add: calm_def)

lemma calm_trans:
  assumes "calm em em'" "calm em' em''"
  shows "calm em em''"
  unfolding calm_def
proof (intro conjI allI)
  show "map_ok em''" using assms(2) by (rule calm_ok)
  fix g
  have "case map_find g em of
       Some i \<Rightarrow> (case map_find g em' of Some i' \<Rightarrow> core i' = core i | None \<Rightarrow> False)
     | None \<Rightarrow> (case map_find g em' of Some i' \<Rightarrow> core i' = core blank_info | None \<Rightarrow> True)"
    "case map_find g em' of
       Some i \<Rightarrow> (case map_find g em'' of Some i' \<Rightarrow> core i' = core i | None \<Rightarrow> False)
     | None \<Rightarrow> (case map_find g em'' of Some i' \<Rightarrow> core i' = core blank_info | None \<Rightarrow> True)"
    using assms unfolding calm_def by blast+
  then show "case map_find g em of
       Some i \<Rightarrow> (case map_find g em'' of Some i' \<Rightarrow> core i' = core i | None \<Rightarrow> False)
     | None \<Rightarrow> (case map_find g em'' of Some i' \<Rightarrow> core i' = core blank_info | None \<Rightarrow> True)"
    by (auto split: option.splits)
qed

lemma calm_assign:
  assumes ok: "map_ok (entity_map m)" and f: "\<And>i. core (f i) = core i"
  shows "\<exists>em. entity_assign g f m = m\<lparr>entity_map := em\<rparr> \<and> calm (entity_map m) em"
proof -
  obtain em where em: "entity_assign g f m = m\<lparr>entity_map := em\<rparr>" "map_ok em"
    "\<And>h. map_find h em = (if h = g
       then Some (f (case map_find g (entity_map m) of None \<Rightarrow> blank_info | Some i \<Rightarrow> i))
       else map_find h (entity_map m))"
    by (rule entity_assign_eq [OF ok, of g f]) blast
  have "calm (entity_map m) em"
    using em(2) f by (simp add: calm_def em(3) split: option.split)
  with em(1) show ?thesis by blast
qed

lemma calm_index:
  assumes ok: "map_ok (entity_map m)"
  shows "\<exists>em. snd (entity_index g m) = m\<lparr>entity_map := em\<rparr> \<and> calm (entity_map m) em"
proof -
  have "calm (entity_map m) (std_put fst (g, blank_info) (entity_map m))"
    using ok by (simp add: calm_def map_find_put std_ok_put split: option.split)
  then show ?thesis using ok by (auto simp: entity_index_eq)
qed

text \<open>The steps of an endpoint event.\<close>

lemma calm_steps:
  assumes ok: "map_ok (entity_map m)"
  shows "\<exists>em. snd (getPubSubEntityFromParticipantGuid k g m) = m\<lparr>entity_map := em\<rparr> \<and> calm (entity_map m) em"
    and "\<exists>em. snd (getParticipantTopicByName D p name m) = m\<lparr>entity_map := em\<rparr> \<and> calm (entity_map m) em"
    and "\<exists>em. setParticipantTopic D p t m = m\<lparr>entity_map := em\<rparr> \<and> calm (entity_map m) em"
    and "\<exists>em. setDomainEntityTopic k D p t m = m\<lparr>entity_map := em\<rparr> \<and> calm (entity_map m) em"
    and "\<exists>em. fst (snd (remove_endpoint k D p (m, w))) = m\<lparr>entity_map := em\<rparr> \<and> calm (entity_map m) em"
proof -
  have same: "\<exists>em. m = m\<lparr>entity_map := em\<rparr> \<and> calm (entity_map m) em"
    by (intro exI [of _ "entity_map m"]) (simp add: calm_refl ok)
  have topic: "\<exists>em. entity_assign g (registeredTopics_update f) m = m\<lparr>entity_map := em\<rparr> \<and> calm (entity_map m) em"
    "\<exists>em. entity_assign g (info_publisherTopic_update h) m = m\<lparr>entity_map := em\<rparr> \<and> calm (entity_map m) em"
    "\<exists>em. entity_assign g (info_subscriberTopic_update h) m = m\<lparr>entity_map := em\<rparr> \<and> calm (entity_map m) em"
    for g f h by (rule calm_assign [OF ok]; simp add: core_def)+
  show "\<exists>em. snd (getPubSubEntityFromParticipantGuid k g m) = m\<lparr>entity_map := em\<rparr> \<and> calm (entity_map m) em"
    using calm_index [OF ok] by (simp add: getPubSubEntityFromParticipantGuid_def split_beta)
  show "\<exists>em. snd (getParticipantTopicByName D p name m) = m\<lparr>entity_map := em\<rparr> \<and> calm (entity_map m) em"
    using topic(1) same by (auto simp: getParticipantTopicByName_def Let_def split: option.split)
  show "\<exists>em. setParticipantTopic D p t m = m\<lparr>entity_map := em\<rparr> \<and> calm (entity_map m) em"
    using topic(1) same by (auto simp: setParticipantTopic_def split: option.split)
  show "\<exists>em. setDomainEntityTopic k D p t m = m\<lparr>entity_map := em\<rparr> \<and> calm (entity_map m) em"
    using topic(2,3) same by (cases k) (auto simp: setDomainEntityTopic_def split: option.split)
  show "\<exists>em. fst (snd (remove_endpoint k D p (m, w))) = m\<lparr>entity_map := em\<rparr> \<and> calm (entity_map m) em"
    using calm_index [OF ok] same
    by (cases k; cases p) (auto simp: remove_endpoint_def deleteDataReader_def deleteDataWriter_def
        split_beta Let_def split: option.split)
qed

section \<open>The invariant\<close>

definition roles :: "('g::linorder, 'd, 'q, 'l) Manager \<Rightarrow> ('g \<times> 'd) list list" where
  "roles m = [clients m, servers m, simples m]"

definition registry_ok :: "('g::linorder, 'd, 'q, 'w) dds \<Rightarrow> ('g, 'd, 'q, 'l) Manager \<Rightarrow> bool" where
  "registry_ok D m \<longleftrightarrow> manager_ok m
     \<and> (\<forall>ms\<in>set (roles m). \<forall>g p. map_find g ms = Some p \<longrightarrow> dds_guid D p = g
          \<and> (\<exists>i. map_find g (entity_map m) = Some i \<and> info_participant i \<noteq> None))
     \<and> (\<forall>g i. map_find g (entity_map m) = Some i \<longrightarrow> info_participant i \<noteq> None \<longrightarrow>
          g \<noteq> guid_unknown D \<and> info_publisher i \<noteq> None \<and> info_subscriber i \<noteq> None)"

text \<open>No GUID is registered in two roles.\<close>

definition apart :: "('g::linorder, 'd, 'q, 'l) Manager \<Rightarrow> bool" where
  "apart m \<longleftrightarrow> (\<forall>g. length (filter (\<lambda>ms. map_find g ms \<noteq> None) (roles m)) \<le> 1)"

lemma registry_okD: "registry_ok D m \<Longrightarrow> manager_ok m"
  by (simp add: registry_ok_def)

text \<open>Members that the registry does not read.\<close>

lemma registry_frame:
  assumes "registry_ok D m" "manager_ok m'" "roles m' = roles m" "entity_map m' = entity_map m"
  shows "registry_ok D m'"
  using assms by (simp add: registry_ok_def)

lemma registry_calm:
  assumes ok: "registry_ok D m" and calm: "calm (entity_map m) em"
  shows "registry_ok D (m\<lparr>entity_map := em\<rparr>)"
  unfolding registry_ok_def
proof (intro conjI ballI allI impI)
  have at: "case map_find g (entity_map m) of
       Some i \<Rightarrow> (case map_find g em of Some i' \<Rightarrow> core i' = core i | None \<Rightarrow> False)
     | None \<Rightarrow> (case map_find g em of Some i' \<Rightarrow> core i' = core blank_info | None \<Rightarrow> True)" for g
    using calm unfolding calm_def by blast
  show "manager_ok (m\<lparr>entity_map := em\<rparr>)"
    by (rule manager_ok_entities [OF registry_okD [OF ok] calm_ok [OF calm]])
  fix g
  {
    fix ms p
    assume "ms \<in> set (roles (m\<lparr>entity_map := em\<rparr>))" "map_find g ms = Some p"
    then have *: "dds_guid D p = g" "\<exists>i. map_find g (entity_map m) = Some i \<and> info_participant i \<noteq> None"
      using ok by (auto simp: registry_ok_def roles_def)
    then show "dds_guid D p = g" by simp
    from * at [of g] show "\<exists>i. map_find g (entity_map (m\<lparr>entity_map := em\<rparr>)) = Some i \<and> info_participant i \<noteq> None"
      by (auto simp: core_def split: option.splits)
  next
    fix i
    assume "map_find g (entity_map (m\<lparr>entity_map := em\<rparr>)) = Some i" "info_participant i \<noteq> None"
    then obtain i' where "map_find g (entity_map m) = Some i'" "core i = core i'"
      using at [of g] by (auto simp: core_def blank_info_def split: option.splits)
    then show "g \<noteq> guid_unknown D" "info_publisher i \<noteq> None" "info_subscriber i \<noteq> None"
      using ok \<open>info_participant i \<noteq> None\<close> by (auto simp: registry_ok_def core_def)
  }
qed

text \<open>A participant that is found has its publisher and its subscriber.\<close>

lemma registry_entities:
  assumes ok: "registry_ok D m" and p: "getParticipant g m = Some p"
  obtains i where "map_find g (entity_map m) = Some i" "info_participant i = Some p" "g \<noteq> guid_unknown D"
    "info_publisher i \<noteq> None" "info_subscriber i \<noteq> None"
proof (cases "map_find g (entity_map m)")
  case None
  then have "first_registered g m = Some p" using p by (simp add: getParticipant_eq)
  then have "\<exists>ms\<in>set (roles m). map_find g ms = Some p"
    by (auto simp: first_registered_def roles_def split: option.splits)
  then show thesis using ok None unfolding registry_ok_def by fastforce
next
  case (Some i)
  then have "info_participant i = Some p" using p by (simp add: getParticipant_eq)
  with Some ok that show thesis by (auto simp: registry_ok_def)
qed

lemma getParticipant_calm:
  assumes ok: "registry_ok D m" and calm: "calm (entity_map m) em"
  shows "getParticipant g (m\<lparr>entity_map := em\<rparr>) = getParticipant g m"
proof (cases "map_find g (entity_map m)")
  case None
  then have "getParticipant g m = None" using registry_entities [OF ok, of g] by (cases "getParticipant g m") auto
  moreover have "case map_find g em of Some i' \<Rightarrow> core i' = core blank_info | None \<Rightarrow> True"
    using calm None unfolding calm_def by (metis option.simps(4))
  ultimately show ?thesis
    using None by (auto simp: getParticipant_eq core_def blank_info_def split: option.splits)
next
  case (Some i)
  then have "case map_find g em of Some i' \<Rightarrow> core i' = core i | None \<Rightarrow> False"
    using calm unfolding calm_def by (metis option.simps(5))
  then show ?thesis using Some by (auto simp: getParticipant_eq core_def split: option.splits)
qed

lemma registry_heard:
  assumes "registry_ok D m" "heard m m'"
  shows "registry_ok D m'"
  using registry_frame [OF assms(1) quiet_ok [OF heard_quiet [OF registry_okD [OF assms(1)] assms(2)]]]
  by (simp add: roles_def heard_members [OF assms(2)])

section \<open>Participant events\<close>

lemma creation_guid_SetGuid [simp]:
  "creation_guid a (participant_destruction_SetGuid D r g m) = creation_guid a m"
  "creation_guid a (endpoint_destruction_SetGuid D r g m) = creation_guid a m"
  by (auto simp: creation_guid_def participant_destruction_SetGuid_def endpoint_destruction_SetGuid_def
      split: option.split event_action.split)

lemma creation_guid_store: "event_store m' = event_store m \<Longrightarrow> creation_guid a m' = creation_guid a m"
  by (simp add: creation_guid_def)

lemma participant_SetGuid_members:
  "roles (participant_destruction_SetGuid D r g m) = roles m"
  "entity_map (participant_destruction_SetGuid D r g m) = entity_map m"
  "manager_ok (participant_destruction_SetGuid D r g m) = manager_ok m"
  by (rule SetGuid_frame [of D r g m]; simp add: roles_def)+

lemma add_role_members:
  assumes ok: "manager_ok m" and run: "add_role r D dbg p m = Inr m'"
  shows "manager_ok m'" "entity_map m' = entity_map m" "event_store m' = event_store m"
    "\<And>g. g \<noteq> dds_guid D p \<Longrightarrow>
       map (map_find g) (roles m') = map (map_find g) (roles m)"
    "\<And>ms. ms \<in> set (roles m') \<Longrightarrow> map_find (dds_guid D p) ms = Some p \<or>
       (\<exists>ms'\<in>set (roles m). map_find (dds_guid D p) ms = map_find (dds_guid D p) ms')"
    "apart m \<Longrightarrow> first_registered (dds_guid D p) m = None \<Longrightarrow> apart m'"
proof -
  show "manager_ok m'" using run ok by (cases r) (auto simp: add_role_def intro: ok_add)
  show "entity_map m' = entity_map m" "event_store m' = event_store m"
    using run by (cases r; auto simp: add_role_def addServer_def addClient_def addSimple_def)+
  note find = std_map.find_assign manager_okD [OF ok]
  show "map (map_find g) (roles m') = map (map_find g) (roles m)" if "g \<noteq> dds_guid D p" for g
    using run that
    by (cases r) (auto simp: add_role_def addServer_def addClient_def addSimple_def roles_def find)
  show "map_find (dds_guid D p) ms = Some p \<or>
       (\<exists>ms'\<in>set (roles m). map_find (dds_guid D p) ms = map_find (dds_guid D p) ms')" if "ms \<in> set (roles m')" for ms
    using run that
    by (cases r) (auto simp: add_role_def addServer_def addClient_def addSimple_def roles_def find)
  show "apart m'" if "apart m" "first_registered (dds_guid D p) m = None"
    unfolding apart_def
  proof
    fix g
    have "length (filter (\<lambda>ms. map_find g ms \<noteq> None) (roles m)) \<le> 1" using that(1) unfolding apart_def by blast
    then show "length (filter (\<lambda>ms. map_find g ms \<noteq> None) (roles m')) \<le> 1"
      using run that(2)
      by (cases r; cases "g = dds_guid D p")
        (auto simp: add_role_def addServer_def addClient_def addSimple_def roles_def find first_registered_def
          split: option.splits if_splits)
  qed
qed

lemma participant_creation_registry:
  assumes ok: "registry_ok D m" and p: "create_participant D q w = (Some p, w1)" "dds_guid D p \<noteq> guid_unknown D"
    and entities: "\<And>p w. fst (create_publisher D p w) \<noteq> None" "\<And>p w. fst (create_subscriber D p w) \<noteq> None"
    and run: "participant_creation D dbg q r rm (m, w) = Inr (g, m', w')"
  shows "registry_ok D m'" "g = dds_guid D p" "creation_guid a m' = creation_guid a m"
    "h \<noteq> g \<Longrightarrow> first_registered h m' = first_registered h m"
    "apart m \<Longrightarrow> first_registered g m = None \<Longrightarrow> apart m'"
proof -
  let ?g = "dds_guid D p"
  obtain pub w2 where pub: "create_publisher D p w1 = (Some pub, w2)" using entities(1) by (metis option.exhaust prod.collapse)
  obtain sub w3 where sub: "create_subscriber D p w2 = (Some sub, w3)" using entities(2) by (metis option.exhaust prod.collapse)
  let ?info = "blank_info\<lparr>info_participant := Some p, info_publisher := Some pub, info_subscriber := Some sub\<rparr>"
  obtain m1 where m1: "add_role r D dbg p m = Inr m1" and g: "g = ?g"
    and m': "m' = setParticipantInfo ?g ?info (participant_destruction_SetGuid D rm ?g m1)"
    using run by (auto simp: participant_creation_def p(1) pub sub bind_run_Inr_iff Let_def)
  note role = add_role_members [OF registry_okD [OF ok] m1]
  let ?m2 = "participant_destruction_SetGuid D rm ?g m1"
  have "manager_ok ?m2" using role(1) by (simp add: participant_SetGuid_members)
  then obtain em where em: "m' = ?m2\<lparr>entity_map := em\<rparr>" "map_ok em"
      "\<And>h. map_find h em = (if h = ?g then Some ?info else map_find h (entity_map m))"
    unfolding m' by (rule setParticipantInfo_effect [where g = ?g and info = ?info])
      (simp add: participant_SetGuid_members role(2))
  have roles: "roles m' = roles m1" by (simp add: em(1) roles_def [of "_\<lparr>entity_map := em\<rparr>"]
        roles_def [symmetric] participant_SetGuid_members)
  show "g = ?g" by (rule g)
  show "registry_ok D m'"
    unfolding registry_ok_def
  proof (intro conjI ballI allI impI)
    show "manager_ok m'" unfolding em(1) by (rule manager_ok_entities [OF \<open>manager_ok ?m2\<close> em(2)])
    fix h
    {
      fix ms p'
      assume ms: "ms \<in> set (roles m')" "map_find h ms = Some p'"
      have *: "h = ?g \<and> p' = p \<or> (\<exists>ms'\<in>set (roles m). map_find h ms' = Some p')"
      proof (cases "h = ?g")
        case True
        then show ?thesis using role(5) [of ms] ms by (auto simp: roles)
      next
        case False
        have "Some p' \<in> set (map (map_find h) (roles m'))" using ms by force
        then show ?thesis using role(4) [OF False] by (auto simp: roles)
      qed
      then show "dds_guid D p' = h" using ok by (auto simp: registry_ok_def)
      show "\<exists>i. map_find h (entity_map m') = Some i \<and> info_participant i \<noteq> None"
        using * ok by (auto simp: em(1,3) registry_ok_def)
    next
      fix i
      assume "map_find h (entity_map m') = Some i" "info_participant i \<noteq> None"
      then show "h \<noteq> guid_unknown D" "info_publisher i \<noteq> None" "info_subscriber i \<noteq> None"
        using ok p(2) by (auto simp: em(1,3) registry_ok_def split: if_splits)
    }
  qed
  have "creation_guid a m' = creation_guid a ?m2" by (simp add: em(1) creation_guid_def)
  then show "creation_guid a m' = creation_guid a m" by (simp add: creation_guid_store [OF role(3)])
  have first: "first_registered h m'' = (case map (map_find h) (roles m'') of [a, b, c] \<Rightarrow>
      (case a of Some p \<Rightarrow> Some p | None \<Rightarrow> (case b of Some p \<Rightarrow> Some p | None \<Rightarrow> c)))"
    for h and m'' :: "('a, 'b, 'c, 'e) Manager"
    by (simp add: first_registered_def roles_def)
  show "first_registered h m' = first_registered h m" if "h \<noteq> g" for h
    using role(4) [of h] that by (simp add: first roles g)
  show "apart m'" if "apart m" "first_registered g m = None"
    using role(6) that by (simp add: apart_def roles g)
qed

lemma participant_creation_returns:
  assumes "create_participant D q w = (Some p, w1)"
  shows "\<exists>g mw. participant_creation D False q r rm (m, w) = Inr (g, mw)"
  using assms
  by (cases r) (auto simp: participant_creation_def add_role_def addServer_def addClient_def addSimple_def
      Let_def split_beta)

lemma first_registered_roles: "first_registered g m = None \<longleftrightarrow> (\<forall>ms\<in>set (roles m). map_find g ms = None)"
  by (auto simp: first_registered_def roles_def split: option.split)

lemma removeParticipant_members:
  assumes ok: "manager_ok m" and run: "removeParticipant D g m = (p, m')"
  shows "manager_ok m'" "entity_map m' = entity_map m" "event_store m' = event_store m"
    "\<And>h ms. ms \<in> set (roles m') \<Longrightarrow> map_find h ms \<noteq> None \<Longrightarrow> \<exists>ms'\<in>set (roles m). map_find h ms' = map_find h ms"
    "p = first_registered g m" "apart m \<Longrightarrow> apart m'"
    "apart m \<Longrightarrow> first_registered h m' = (if h = g then None else first_registered h m)"
proof -
  note erase = std_map.find_erase manager_okD [OF ok]
  show "manager_ok m'" using ok_removeParticipant [OF ok, of D g] run by simp
  show "entity_map m' = entity_map m" "event_store m' = event_store m"
    using run by (auto simp: removeParticipant_def Let_def split_beta split: option.splits)
  show "p = first_registered g m"
  proof -
    have "fst (removeParticipant D g m) = first_registered g m"
      by (simp add: removeParticipant_def Let_def split_beta first_registered_def split: option.split)
    with run show ?thesis by simp
  qed
  have roles: "roles m' \<in> {roles m, [map_erase g (clients m), servers m, simples m],
      [clients m, map_erase g (servers m), simples m], [clients m, servers m, map_erase g (simples m)]}"
  proof -
    have "roles (snd (removeParticipant D g m)) \<in> {roles m, [map_erase g (clients m), servers m, simples m],
        [clients m, map_erase g (servers m), simples m], [clients m, servers m, map_erase g (simples m)]}"
      by (simp add: removeParticipant_def Let_def split_beta roles_def split: option.split)
    with run show ?thesis by simp
  qed
  have found: "map_find h (map_erase g ms) = (if h = g then None else map_find h ms)" if "ms \<in> set (roles m)" for h ms
    using that by (auto simp: roles_def erase)
  show "\<exists>ms'\<in>set (roles m). map_find h ms' = map_find h ms" if "ms \<in> set (roles m')" "map_find h ms \<noteq> None" for h ms
  proof -
    have "ms \<in> set (roles m) \<or> (\<exists>ms'\<in>set (roles m). ms = map_erase g ms')"
      using roles that(1) by (auto simp: roles_def)
    then show ?thesis using that(2) found by (auto split: if_splits)
  qed
  have count: "length (filter (\<lambda>ms. map_find h ms \<noteq> None) (roles m')) \<le> length (filter (\<lambda>ms. map_find h ms \<noteq> None) (roles m))" for h
    using roles found [of "clients m" h] found [of "servers m" h] found [of "simples m" h]
    by (cases "h = g") (auto simp: roles_def)
  show "apart m'" if "apart m" using that count order_trans unfolding apart_def by blast
  show "first_registered h m' = (if h = g then None else first_registered h m)" if "apart m"
  proof -
    have "length (filter (\<lambda>ps. map_find g ps \<noteq> None) [clients m, servers m, simples m]) \<le> 1"
      using that unfolding apart_def roles_def by blast
    from first_registered_removed [OF ok this, of h D] run show ?thesis by simp
  qed
qed

lemma participant_destruction_registry:
  assumes ok: "registry_ok D m" and apart: "apart m" and run: "participant_destruction D g (m, w) = (m', w')"
  shows "registry_ok D m'" "apart m'" "creation_guid a m' = creation_guid a m"
    "first_registered h m = None \<Longrightarrow> first_registered h m' = None"
proof -
  obtain p m1 where m1: "removeParticipant D g m = (p, m1)" by (metis prod.collapse)
  note removed = removeParticipant_members [OF registry_okD [OF ok] m1]
  define em where "em = (case p of None \<Rightarrow> entity_map m | Some d \<Rightarrow> map_erase g (entity_map m))"
  have guid: "dds_guid D d = g" if "p = Some d" for d
  proof -
    have "first_registered g m = Some d" using that removed(5) by simp
    then have "\<exists>ms\<in>set (roles m). map_find g ms = Some d"
      by (auto simp: first_registered_def roles_def split: option.splits)
    then show ?thesis using ok by (auto simp: registry_ok_def)
  qed
  have m': "m' = m1\<lparr>entity_map := em\<rparr>"
    using run removed(2) guid by (auto simp: participant_destruction_def m1 deleteParticipant_def em_def Let_def split_beta split: option.splits)
  have roles: "roles m' = roles m1" by (simp add: m' roles_def)
  have em_ok: "map_ok em" using manager_okD(4) [OF registry_okD [OF ok]]
    by (simp add: em_def map_ok_erase split: option.split)
  have find: "map_find h em = (if h = g \<and> p \<noteq> None then None else map_find h (entity_map m))" for h
    using manager_okD(4) [OF registry_okD [OF ok]] by (simp add: em_def std_map.find_erase split: option.split)
  show "registry_ok D m'"
    unfolding registry_ok_def
  proof (intro conjI ballI allI impI)
    show "manager_ok m'" unfolding m' by (rule manager_ok_entities [OF removed(1) em_ok])
    fix h
    {
      fix ms d
      assume ms: "ms \<in> set (roles m')" "map_find h ms = Some d"
      then obtain ms' where ms': "ms' \<in> set (roles m)" "map_find h ms' = Some d"
        using removed(4) [of ms h] by (auto simp: roles)
      have "first_registered h m1 \<noteq> None" using ms unfolding first_registered_roles roles by auto
      then have "h \<noteq> g" using removed(7) [OF apart] by auto
      with ms' ok show "dds_guid D d = h" "\<exists>i. map_find h (entity_map m') = Some i \<and> info_participant i \<noteq> None"
        by (auto simp: m' find registry_ok_def)
    next
      fix i
      assume "map_find h (entity_map m') = Some i" "info_participant i \<noteq> None"
      then show "h \<noteq> guid_unknown D" "info_publisher i \<noteq> None" "info_subscriber i \<noteq> None"
        using ok by (auto simp: m' find registry_ok_def split: if_splits)
    }
  qed
  show "apart m'" using removed(6) [OF apart] by (simp add: apart_def roles)
  show "creation_guid a m' = creation_guid a m" using removed(3) by (simp add: creation_guid_def m')
  show "first_registered h m' = None" if "first_registered h m = None"
  proof -
    have "first_registered h m1 = None" using removed(7) [OF apart, of h] that by simp
    then show ?thesis by (simp only: first_registered_roles roles)
  qed
qed

section \<open>Endpoint events\<close>

text \<open>What an endpoint event changes: topics, the readers and writers, and the event that will remove it.\<close>

definition touches_endpoints :: "('g::linorder, 'd, 'q, 'l) Manager \<Rightarrow> ('g, 'd, 'q, 'l) Manager \<Rightarrow> bool" where
  "touches_endpoints m m' \<longleftrightarrow> calm (entity_map m) (entity_map m') \<and> manager_ok m' \<and> roles m' = roles m
     \<and> (\<forall>a. creation_guid a m' = creation_guid a m)"

lemma touches_trans: "touches_endpoints m m' \<Longrightarrow> touches_endpoints m' m'' \<Longrightarrow> touches_endpoints m m''"
  by (auto simp: touches_endpoints_def intro: calm_trans)

lemma touches_entities:
  "manager_ok m \<Longrightarrow> calm (entity_map m) em \<Longrightarrow> touches_endpoints m (m\<lparr>entity_map := em\<rparr>)"
  by (auto simp: touches_endpoints_def roles_def creation_guid_def intro: manager_ok_entities calm_ok)

lemma touches_ok: "touches_endpoints m m' \<Longrightarrow> manager_ok m'"
  by (simp add: touches_endpoints_def)

lemma touches_same:
  assumes "manager_ok m" "manager_ok m'" "entity_map m' = entity_map m" "roles m' = roles m"
    "\<And>a. creation_guid a m' = creation_guid a m"
  shows "touches_endpoints m m'"
  using assms by (simp add: touches_endpoints_def calm_refl manager_okD)

lemma touches_registry:
  assumes ok: "registry_ok D m" and touch: "touches_endpoints m m'"
  shows "registry_ok D m'" "apart m \<Longrightarrow> apart m'" "first_registered h m' = None \<longleftrightarrow> first_registered h m = None"
    "creation_guid a m' = creation_guid a m"
proof -
  have "registry_ok D (m\<lparr>entity_map := entity_map m'\<rparr>)"
    using registry_calm [OF ok] touch by (simp add: touches_endpoints_def)
  then show "registry_ok D m'"
    using touch by (intro registry_frame [of D "m\<lparr>entity_map := entity_map m'\<rparr>" m'])
      (simp_all add: touches_endpoints_def roles_def)
qed (use touch in \<open>simp_all add: touches_endpoints_def apart_def first_registered_roles\<close>)

lemma endpoint_topic_touches:
  fixes m :: "('g::linorder, 'd, 'q, 'l) Manager"
  assumes ok: "manager_ok m" and run: "endpoint_topic D part tn ty tp (m, w) = (t, m', w')"
  shows "touches_endpoints m m'"
proof -
  have step: "touches_endpoints m (snd (getParticipantTopicByName D p name m))" if "manager_ok m" for p name and m :: "('g, 'd, 'q, 'l) Manager"
    using calm_steps(2) [OF manager_okD(4) [OF that], of D p name] touches_entities [OF that] by fastforce
  have step': "touches_endpoints m (setParticipantTopic D p t m)" if "manager_ok m" for p t and m :: "('g, 'd, 'q, 'l) Manager"
    using calm_steps(3) [OF manager_okD(4) [OF that], of D p t] touches_entities [OF that] by fastforce
  let ?n = "if ty = ''UNDEF'' then topic_item_name default_topic_description else tn"
  note 1 = step [OF ok, of "Some part" ?n]
  show ?thesis
    using run 1 touches_trans [OF 1 step' [OF touches_ok [OF 1]]]
    by (auto simp: endpoint_topic_def Let_def split_beta split: option.splits)
qed

lemma endpoint_creation_touches:
  assumes ok: "manager_ok m" and run: "endpoint_creation D dbg k tn ty tp ep g link owner (m, w) = Inr (m', w')"
  shows "touches_endpoints m m'"
proof -
  have 1: "touches_endpoints m (snd (getPubSubEntityFromParticipantGuid k g m))"
    using calm_steps(1) [OF manager_okD(4) [OF ok], of k g] touches_entities [OF ok] by auto
  have topic: "touches_endpoints m (setDomainEntityTopic k D e t m2)" if "touches_endpoints m m2" for e t m2
    using calm_steps(4) [OF manager_okD(4) [OF touches_ok [OF that]], of k D e t] touches_entities [OF touches_ok [OF that]]
      touches_trans [OF that] by fastforce
  have guid: "touches_endpoints m (endpoint_destruction_SetGuid D link h m2)" if m2: "touches_endpoints m m2" for h m2
  proof -
    obtain es where "endpoint_destruction_SetGuid D link h m2 = m2\<lparr>event_store := es\<rparr>"
      by (rule endpoint_SetGuid_frame)
    moreover have "creation_guid a (endpoint_destruction_SetGuid D link h m2) = creation_guid a m2" for a by simp
    ultimately show ?thesis
      using touches_ok [OF m2] by (intro touches_trans [OF m2 touches_same]) (simp_all add: roles_def)
  qed
  have add: "touches_endpoints m m3" if m2: "touches_endpoints m m2" and run: "add_endpoint k D dbg e m2 = Inr m3" for e m2 m3
  proof (rule touches_trans [OF m2 touches_same])
    show "manager_ok m2" by (rule touches_ok [OF m2])
    then show "manager_ok m3" using run by (cases k) (auto simp: add_endpoint_def intro: ok_add)
  qed (use run in \<open>cases k; cases e; auto simp: add_endpoint_def addDataReader_def addDataWriter_def roles_def creation_guid_def\<close>)+
  show ?thesis
    using run
  proof (cases rule: endpoint_creation_cases)
    case orphan
    then show ?thesis using 1 by simp
  next
    case (created part ps m1 t m2 w2 e)
    have m1: "touches_endpoints m m1" using 1 by (simp add: created(1))
    have 2: "touches_endpoints m m2"
      by (rule touches_trans [OF m1 endpoint_topic_touches [OF touches_ok [OF m1] created(2)]])
    show ?thesis
      using created(4) topic [OF 2] add [OF guid [OF topic [OF 2]]] by (auto split: option.splits)
  qed
qed

lemma endpoint_destruction_touches:
  assumes ok: "manager_ok m"
  shows "touches_endpoints m (fst (endpoint_destruction D k g (m, w)))"
proof -
  obtain e m1 where m1: "retrieve_endpoint k g m = (e, m1)" by (metis prod.collapse)
  have "manager_ok m1"
    using ok_removeEndpoint [OF ok, of g] m1 by (cases k) (simp_all add: retrieve_endpoint_def prod_eq_iff)
  then have 1: "touches_endpoints m m1"
    using m1 by (intro touches_same ok; cases k)
      (auto simp: retrieve_endpoint_def removeSubscriber_def removePublisher_def roles_def creation_guid_def split: option.splits)
  have "touches_endpoints m1 (fst (snd (remove_endpoint k D d (m1, w))))" for d
    using calm_steps(5) [OF manager_okD(4) [OF touches_ok [OF 1]], of k D d w] touches_entities [OF touches_ok [OF 1]]
    by fastforce
  then show ?thesis
    using 1 touches_trans [OF 1] by (auto simp: endpoint_destruction_def m1 Let_def split_beta split: option.split)
qed

text \<open>
  An endpoint event returns when its participant, however it is found, is filed under the GUID the event
  was given.
\<close>

lemma endpoint_creation_returns:
  assumes ok: "registry_ok D m"
    and owner: "\<And>a h. owner = Some a \<Longrightarrow> creation_guid a m = Some h \<Longrightarrow> h = g \<or> h = guid_unknown D"
  shows "\<exists>mw. endpoint_creation D False k tn ty tp ep g link owner (m, w) = Inr mw"
proof (cases "getParticipant g m")
  case None
  obtain em where em: "snd (getPubSubEntityFromParticipantGuid k g m) = m\<lparr>entity_map := em\<rparr>" "calm (entity_map m) em"
    using calm_steps(1) [OF manager_okD(4) [OF registry_okD [OF ok]]] by blast
  have unknown: "getParticipant (guid_unknown D) m = None"
  proof (rule ccontr)
    assume "getParticipant (guid_unknown D) m \<noteq> None"
    then obtain p where "getParticipant (guid_unknown D) m = Some p" by blast
    then show False by (rule registry_entities [OF ok]) simp
  qed
  have "getParticipant h (m\<lparr>entity_map := em\<rparr>) = None" if "owner = Some a" "creation_guid a (m\<lparr>entity_map := em\<rparr>) = Some h" for a h
  proof -
    have "creation_guid a m = Some h" using that(2) by (simp add: creation_guid_def)
    then show ?thesis using owner [OF that(1)] None unknown getParticipant_calm [OF ok em(2)] by auto
  qed
  then show ?thesis
    by (auto simp: endpoint_creation_def Let_def split_beta None em(1) split: option.split)
next
  case (Some p)
  obtain i where i: "map_find g (entity_map m) = Some i" "info_publisher i \<noteq> None" "info_subscriber i \<noteq> None"
    by (rule registry_entities [OF ok Some])
  then obtain ps where "fst (getPubSubEntityFromParticipantGuid k g m) = Some ps"
    using manager_okD(4) [OF registry_okD [OF ok]]
    by (cases k) (auto simp: getPubSubEntityFromParticipantGuid_def entity_index_eq split_beta)
  then show ?thesis
    by (cases k) (simp_all add: endpoint_creation_def Let_def split_beta Some createEndpoint_def add_endpoint_def
        addDataReader_def addDataWriter_def split: option.split)
qed

end
