(* ===== verification/Run_Progress.thy ===== *)
theory Run_Progress
  imports Registry Event_Run Configuration_Invariant
begin

text \<open>
  Progress: where Fast DDS creates the participants it is asked for, unless their GUID is in use, a
  schedule whose participants have GUIDs of their own always runs to its end.
\<close>

section \<open>What Fast DDS promises\<close>

text \<open>
  A participant that was created has a GUID and can have a publisher and a subscriber.
\<close>

definition lawful :: "('g::linorder, 'd, 'q, 'w) dds \<Rightarrow> bool" where
  "lawful D \<longleftrightarrow> (\<forall>q w p w'. create_participant D q w = (Some p, w') \<longrightarrow> dds_guid D p \<noteq> guid_unknown D)
     \<and> (\<forall>p w. fst (create_publisher D p w) \<noteq> None) \<and> (\<forall>p w. fst (create_subscriber D p w) \<noteq> None)"

text \<open>
  \<open>in_use\<close> are the GUIDs of the participants that exist. A participant gets the GUID its QoS asks for, a
  creation fails only when that is in use, and nothing but a creation brings a GUID into use.
\<close>

definition creates_participants ::
  "('x, 'g, 'p, 'q, 't, 'l, 'w) config \<Rightarrow> ('g::linorder, 'd, 'q, 'w) dds \<Rightarrow> ('w \<Rightarrow> 'g set) \<Rightarrow> bool" where
  "creates_participants C D in_use \<longleftrightarrow> lawful D \<and> (\<forall>q w.
     (qos_prefix C q = unknown_prefix C \<or> qos_guid C q \<notin> in_use w) \<longrightarrow>
     (\<exists>p w'. create_participant D q w = (Some p, w')
        \<and> (qos_prefix C q = unknown_prefix C \<or> dds_guid D p = qos_guid C q)
        \<and> in_use w' \<subseteq> insert (dds_guid D p) (in_use w)))"

definition keeps_guids :: "('g::linorder, 'd, 'q, 'w) dds \<Rightarrow> 'w platform \<Rightarrow> ('w \<Rightarrow> 'g set) \<Rightarrow> bool" where
  "keeps_guids D P in_use \<longleftrightarrow>
     lawful D \<and> (\<forall>p w. in_use (snd (create_publisher D p w)) \<subseteq> in_use w)
     \<and> (\<forall>p w. in_use (snd (create_subscriber D p w)) \<subseteq> in_use w)
     \<and> (\<forall>p w. in_use (register_type D p w) \<subseteq> in_use w)
     \<and> (\<forall>p n t w. in_use (snd (create_topic D p n t w)) \<subseteq> in_use w)
     \<and> (\<forall>p n t f w. in_use (snd (create_topic_with_profile D p n t f w)) \<subseteq> in_use w)
     \<and> (\<forall>p t w. in_use (snd (create_datawriter D p t w)) \<subseteq> in_use w)
     \<and> (\<forall>p t f w. in_use (snd (create_datawriter_with_profile D p t f w)) \<subseteq> in_use w)
     \<and> (\<forall>p t w. in_use (snd (create_datareader D p t w)) \<subseteq> in_use w)
     \<and> (\<forall>p t f w. in_use (snd (create_datareader_with_profile D p t f w)) \<subseteq> in_use w)
     \<and> (\<forall>p w. in_use (set_no_listener D p w) \<subseteq> in_use w)
     \<and> (\<forall>p w. in_use (snd (delete_contained_entities D p w)) \<subseteq> in_use w)
     \<and> (\<forall>p w. in_use (snd (delete_participant D p w)) \<subseteq> in_use w)
     \<and> (\<forall>p d w. in_use (snd (delete_datareader D p d w)) \<subseteq> in_use w)
     \<and> (\<forall>p d w. in_use (snd (delete_datawriter D p d w)) \<subseteq> in_use w)
     \<and> (\<forall>f t w. in_use (write_file P f t w) \<subseteq> in_use w)"

lemma keeps_guidsD:
  assumes "keeps_guids D P in_use"
  shows "fst (create_publisher D p w) \<noteq> None" "in_use (snd (create_publisher D p w)) \<subseteq> in_use w"
    "fst (create_subscriber D p w) \<noteq> None" "in_use (snd (create_subscriber D p w)) \<subseteq> in_use w"
    "in_use (register_type D p w) \<subseteq> in_use w" "in_use (snd (create_topic D p n t w)) \<subseteq> in_use w"
    "in_use (snd (create_topic_with_profile D p n t f w)) \<subseteq> in_use w"
    "in_use (snd (create_datawriter D p t' w)) \<subseteq> in_use w"
    "in_use (snd (create_datawriter_with_profile D p t' f w)) \<subseteq> in_use w"
    "in_use (snd (create_datareader D p t' w)) \<subseteq> in_use w"
    "in_use (snd (create_datareader_with_profile D p t' f w)) \<subseteq> in_use w"
    "in_use (set_no_listener D p w) \<subseteq> in_use w" "in_use (snd (delete_contained_entities D p w)) \<subseteq> in_use w"
    "in_use (snd (delete_participant D p w)) \<subseteq> in_use w" "in_use (snd (delete_datareader D p d w)) \<subseteq> in_use w"
    "in_use (snd (delete_datawriter D p d w)) \<subseteq> in_use w" "in_use (write_file P f t w) \<subseteq> in_use w"
  using assms by (simp_all add: keeps_guids_def lawful_def)

section \<open>The GUIDs in use after an event\<close>

lemma endpoint_topic_guids:
  assumes laws: "keeps_guids D P in_use"
  shows "in_use (snd (snd (endpoint_topic D part tn ty tp (m, w)))) \<subseteq> in_use w"
  using keeps_guidsD(6,7) [OF laws]
  by (simp add: endpoint_topic_def Let_def split_beta split: option.split)

lemma createEndpoint_guids:
  assumes laws: "keeps_guids D P in_use" and run: "createEndpoint k D ps t ep w = Inr (e, w')"
  shows "in_use w' \<subseteq> in_use w"
proof -
  obtain p where p: "ps = Some p" using run by (cases ps) (auto simp: createEndpoint_def)
  have "(e, w') \<in> {create_datawriter D p t w, create_datawriter_with_profile D p t ep w,
      create_datareader D p t w, create_datareader_with_profile D p t ep w}"
    using run by (auto simp: createEndpoint_def p split: endpoint_kind.splits if_splits)
  then show ?thesis using keeps_guidsD(8-11) [OF laws] by (metis empty_iff insert_iff snd_conv)
qed

lemma endpoint_creation_guids:
  assumes laws: "keeps_guids D P in_use" and run: "endpoint_creation D dbg k tn ty tp ep g link owner (m, w) = Inr (m', w')"
  shows "in_use w' \<subseteq> in_use w"
  using run
proof (cases rule: endpoint_creation_cases)
  case (created part ps m1 t m2 w2 e)
  have "in_use w2 \<subseteq> in_use (register_type D part w)"
    using endpoint_topic_guids [OF laws, of part tn ty tp m1 "register_type D part w"] created(2) by simp
  with createEndpoint_guids [OF laws created(3)] keeps_guidsD(5) [OF laws, of part w] show ?thesis by blast
qed simp

lemma participant_creation_guids:
  assumes laws: "keeps_guids D P in_use" and p: "create_participant D q w = (Some p, w1)"
    and run: "participant_creation D dbg q r rm (m, w) = Inr (g, m', w')"
  shows "in_use w' \<subseteq> in_use w1"
proof -
  obtain pub w2 where pub: "create_publisher D p w1 = (pub, w2)" by (metis prod.collapse)
  obtain sub where sub: "create_subscriber D p w2 = (sub, w')"
    using run by (auto simp: participant_creation_def p pub Let_def split_beta bind_run_Inr_iff prod_eq_iff)
  show ?thesis using keeps_guidsD(2,4) [OF laws] pub sub by (metis snd_conv subset_trans)
qed

lemma destruction_guids:
  fixes m :: "('g::linorder, 'd, 'q, 'l) Manager"
  assumes laws: "keeps_guids D P in_use"
  shows "in_use (snd (participant_destruction D g (m, w))) \<subseteq> in_use w"
    and "in_use (snd (endpoint_destruction D k g (m, w))) \<subseteq> in_use w"
    and "in_use (snd (environment_modification P key val (m, w))) \<subseteq> in_use w"
proof -
  have "in_use (snd (snd (deleteParticipant D d (m, w)))) \<subseteq> in_use w" for d and m :: "('g, 'd, 'q, 'l) Manager"
    using keeps_guidsD(12-14) [OF laws] unfolding deleteParticipant_def Let_def split_beta
    by (auto split: option.split) (meson subsetD)
  then show "in_use (snd (participant_destruction D g (m, w))) \<subseteq> in_use w"
    by (simp add: participant_destruction_def Let_def split_beta split: option.split)
  have "in_use (snd (snd (remove_endpoint k D d (m, w)))) \<subseteq> in_use w" for d and m :: "('g, 'd, 'q, 'l) Manager"
    using keeps_guidsD(15,16) [OF laws]
    by (cases k) (simp_all add: remove_endpoint_def deleteDataReader_def deleteDataWriter_def Let_def split_beta split: option.split)
  then show "in_use (snd (endpoint_destruction D k g (m, w))) \<subseteq> in_use w"
    by (simp add: endpoint_destruction_def Let_def split_beta split: option.split)
  show "in_use (snd (environment_modification P key val (m, w))) \<subseteq> in_use w"
    using keeps_guidsD(17) [OF laws] by (simp add: environment_modification_def split: option.split)
qed

section \<open>Schedules that can run\<close>

text \<open>The GUID that an event brings into use.\<close>

definition late_guid ::
  "('x, 'g, 'p, 'q, 't, 'l, 'w) config \<Rightarrow> ('g, 'd, 'q, 'l) Manager \<Rightarrow> address \<Rightarrow> 'g option" where
  "late_guid C m a = (case schedule m a of Some (t, Makes_Participant r q) \<Rightarrow> Some (qos_guid C q) | _ \<Rightarrow> None)"

text \<open>
  \<open>settled\<close>: the registries are well formed, a creation event holds no GUID or the one of its QoS, and the
  owner of an endpoint is the creation of the participant with its GUID. \<open>pending\<close>: the events that have
  not run are alive, and the GUIDs they bring into use are known, distinct and unused.
\<close>

definition settled ::
  "('x, 'g, 'p, 'q, 't, 'l, 'w) config \<Rightarrow> ('g::linorder, 'd, 'q, 'w) dds \<Rightarrow> ('g, 'd, 'q, 'l) Manager \<Rightarrow> bool" where
  "settled C D m \<longleftrightarrow> registry_ok D m \<and> apart m
     \<and> (\<forall>a g. creation_guid a m = Some g \<longrightarrow> g = guid_unknown D \<or> late_guid C m a = Some g)
     \<and> (\<forall>a t k l ow g. schedule m a = Some (t, Makes_Endpoint k l (Some ow) g) \<longrightarrow> late_guid C m ow = Some g)"

definition pending ::
  "('x, 'g, 'p, 'q, 't, 'l, 'w) config \<Rightarrow> ('w \<Rightarrow> 'g set) \<Rightarrow> address list
    \<Rightarrow> ('g::linorder, 'd, 'q, 'l) Manager \<times> 'w \<Rightarrow> bool" where
  "pending C in_use xs mw \<longleftrightarrow> set xs \<subseteq> dom (schedule (fst mw))
     \<and> (\<forall>a\<in>set xs. \<forall>t r q. schedule (fst mw) a = Some (t, Makes_Participant r q) \<longrightarrow>
          qos_prefix C q \<noteq> unknown_prefix C)
     \<and> distinct (List.map_filter (late_guid C (fst mw)) xs)
     \<and> (\<forall>g\<in>set (List.map_filter (late_guid C (fst mw)) xs).
          g \<notin> in_use (snd mw) \<and> first_registered g (fst mw) = None)"

lemma late_guid_schedule: "schedule m' = schedule m \<Longrightarrow> late_guid C m' = late_guid C m"
  by (simp add: late_guid_def fun_eq_iff)

lemma settled_step:
  assumes settled: "settled C D m" and "registry_ok D m'" "apart m'" "schedule m' = schedule m"
    and "\<And>a g. creation_guid a m' = Some g \<Longrightarrow> creation_guid a m = Some g \<or> late_guid C m a = Some g"
  shows "settled C D m'"
  using assms late_guid_schedule [OF assms(4), of C] unfolding settled_def by metis

lemma pending_step:
  assumes pending: "pending C in_use xs (m, w)" and "schedule m' = schedule m" and "in_use w' \<subseteq> insert g (in_use w)"
    and "\<And>h. h \<noteq> g \<Longrightarrow> first_registered h m = None \<Longrightarrow> first_registered h m' = None"
    and "g \<notin> set (List.map_filter (late_guid C m) xs)"
  shows "pending C in_use xs (m', w')"
  using assms late_guid_schedule [OF assms(2), of C] unfolding pending_def fst_conv snd_conv by (metis insertE subsetD)

lemma pending_keep:
  assumes "pending C in_use xs (m, w)" "schedule m' = schedule m" "in_use w' \<subseteq> in_use w"
    and "\<And>h. first_registered h m = None \<Longrightarrow> first_registered h m' = None"
  shows "pending C in_use xs (m', w')"
  using assms late_guid_schedule [OF assms(2), of C] unfolding pending_def fst_conv snd_conv by (metis subsetD)

lemma pending_Cons:
  "pending C in_use (a # xs) mw \<Longrightarrow> pending C in_use xs mw"
  by (auto simp: pending_def map_filter_simps split: option.splits)

lemma pending_guid:
  assumes "pending C in_use (a # xs) (m, w)" "late_guid C m a = Some g"
  shows "g \<notin> in_use w" "first_registered g m = None" "g \<notin> set (List.map_filter (late_guid C m) xs)"
  using assms by (simp_all add: pending_def map_filter_simps)

text \<open>One event.\<close>

lemma execute_event_progress:
  assumes creates: "creates_participants C D in_use" and keeps: "keeps_guids D P in_use"
    and settled: "settled C D m" and pending: "pending C in_use (a # xs) (m, w)"
  shows "\<exists>m' w'. execute_event D P False a (m, w) = Inr (m', w') \<and> settled C D m' \<and> pending C in_use xs (m', w')"
proof -
  have reg: "registry_ok D m" and apart: "apart m" using settled by (simp_all add: settled_def)
  note ok = registry_okD [OF reg]
  note rest = pending_Cons [OF pending]
  obtain e where e: "event_store m a = Some e" using pending by (auto simp: pending_def schedule_def)
  have effect: "schedule m' = schedule m" if "execute_event D P False a (m, w) = Inr (m', w')" for m' w'
    using execute_event_effect [OF ok that] by simp
  show ?thesis
  proof (cases "event_action e")
    case (DelayedParticipantCreation q r rm g0)
    have shape: "schedule m a = Some (event_time e, Makes_Participant rm q)"
      by (simp add: schedule_def e DelayedParticipantCreation)
    then have guid: "late_guid C m a = Some (qos_guid C q)" by (simp add: late_guid_def)
    note fresh = pending_guid [OF pending guid]
    have known: "qos_prefix C q \<noteq> unknown_prefix C" using pending shape by (auto simp: pending_def)
    then obtain p w1 where p: "create_participant D q w = (Some p, w1)" "dds_guid D p \<noteq> guid_unknown D"
      "dds_guid D p = qos_guid C q" "in_use w1 \<subseteq> insert (qos_guid C q) (in_use w)"
      using creates fresh(1) unfolding creates_participants_def lawful_def by metis
    obtain g m1 w2 where run: "participant_creation D False q r rm (m, w) = Inr (g, m1, w2)"
      using participant_creation_returns [OF p(1), of r rm m] by auto
    note new = participant_creation_registry [OF reg p(1,2) keeps_guidsD(1,3) [OF keeps] run]
    have g: "g = qos_guid C q" using new(2) p(3) by simp
    let ?m = "m1\<lparr>event_store := (event_store m1)(a \<mapsto> e\<lparr>event_action := DelayedParticipantCreation q r rm g\<rparr>)\<rparr>"
    have exec: "execute_event D P False a (m, w) = Inr (?m, w2)"
      by (simp add: execute_event_def e DelayedParticipantCreation run)
    have "registry_ok D ?m" "apart ?m"
      using registry_frame [OF new(1), of ?m] registry_okD [OF new(1)] new(5) [OF apart] fresh(2)
      by (simp_all add: roles_def g apart_def)
    moreover have "creation_guid b ?m = Some h \<Longrightarrow> creation_guid b m = Some h \<or> late_guid C m b = Some h" for b h
      using new(3) [of b] guid by (cases "b = a") (auto simp: creation_guid_def g)
    ultimately have "settled C D ?m" using settled_step [OF settled _ _ effect [OF exec]] by blast
    moreover have "in_use w2 \<subseteq> insert g (in_use w)"
      using participant_creation_guids [OF keeps p(1) run] p(4) g by blast
    then have "pending C in_use xs (?m, w2)"
      using pending_step [OF rest effect [OF exec], of w2 g] new(4) fresh(3) by (simp add: g)
    ultimately show ?thesis using exec by blast
  next
    case (DelayedParticipantDestruction g)
    obtain m' w' where run: "participant_destruction D g (m, w) = (m', w')" by (metis prod.collapse)
    have exec: "execute_event D P False a (m, w) = Inr (m', w')"
      by (simp add: execute_event_def e DelayedParticipantDestruction run)
    note gone = participant_destruction_registry [OF reg apart run]
    have "in_use w' \<subseteq> in_use w" using destruction_guids(1) [OF keeps, of g m w] run by simp
    then have "pending C in_use xs (m', w')" using pending_keep [OF rest effect [OF exec]] gone(4) by blast
    moreover have "settled C D m'" using settled_step [OF settled gone(1,2) effect [OF exec]] gone(3) by simp
    ultimately show ?thesis using exec by blast
  next
    case (DelayedEndpointCreation k tn ty tp ep g link owner)
    have shape: "schedule m a = Some (event_time e, Makes_Endpoint k link owner g)"
      by (simp add: schedule_def e DelayedEndpointCreation)
    have "h = g \<or> h = guid_unknown D" if "owner = Some b" "creation_guid b m = Some h" for b h
      using settled shape that unfolding settled_def by (metis option.inject)
    then obtain m' w' where run: "endpoint_creation D False k tn ty tp ep g link owner (m, w) = Inr (m', w')"
      using endpoint_creation_returns [OF reg] by (metis prod.collapse)
    then have exec: "execute_event D P False a (m, w) = Inr (m', w')"
      by (simp add: execute_event_def e DelayedEndpointCreation)
    note touched = touches_registry [OF reg endpoint_creation_touches [OF ok run]]
    have "pending C in_use xs (m', w')"
      using pending_keep [OF rest effect [OF exec] endpoint_creation_guids [OF keeps run]] touched(3) by blast
    moreover have "settled C D m'" using settled_step [OF settled touched(1) touched(2) [OF apart] effect [OF exec]] touched(4) by simp
    ultimately show ?thesis using exec by blast
  next
    case (DelayedEndpointDestruction k g)
    obtain m' w' where run: "endpoint_destruction D k g (m, w) = (m', w')" by (metis prod.collapse)
    have exec: "execute_event D P False a (m, w) = Inr (m', w')"
      by (simp add: execute_event_def e DelayedEndpointDestruction run)
    have "touches_endpoints m m'" using endpoint_destruction_touches [OF ok, of D k g w] run by simp
    note touched = touches_registry [OF reg this]
    have "in_use w' \<subseteq> in_use w" using destruction_guids(2) [OF keeps, of k g m w] run by simp
    then have "pending C in_use xs (m', w')" using pending_keep [OF rest effect [OF exec]] touched(3) by blast
    moreover have "settled C D m'" using settled_step [OF settled touched(1) touched(2) [OF apart] effect [OF exec]] touched(4) by simp
    ultimately show ?thesis using exec by blast
  next
    case (DelayedSnapshot desc sm lv)
    let ?m = "manager_takeSnapshot (steady_now P w) desc sm lv m"
    have exec: "execute_event D P False a (m, w) = Inr (?m, w)"
      by (simp add: execute_event_def e DelayedSnapshot snapshot_event_def)
    have same: "roles ?m = roles m" "entity_map ?m = entity_map m" "event_store ?m = event_store m"
      by (simp_all add: manager_takeSnapshot_def roles_def)
    have "registry_ok D ?m" "apart ?m"
      using registry_frame [OF reg manager_step_ok [OF manager_step.snapshot ok]] same apart by (simp_all add: apart_def)
    then have "settled C D ?m"
      using settled_step [OF settled _ _ effect [OF exec]] creation_guid_store [OF same(3)] by simp
    moreover have "pending C in_use xs (?m, w)"
      using pending_keep [OF rest effect [OF exec], of w] same(1) by (simp add: first_registered_roles)
    ultimately show ?thesis using exec by blast
  next
    case (DelayedEnvironmentModification key val)
    have "fst (environment_modification P key val (m, w)) = m"
      by (simp add: environment_modification_def split: option.split)
    then obtain w' where run: "environment_modification P key val (m, w) = (m, w')" by (metis prod.collapse)
    have exec: "execute_event D P False a (m, w) = Inr (m, w')"
      by (simp add: execute_event_def e DelayedEnvironmentModification run)
    have "in_use w' \<subseteq> in_use w" using destruction_guids(3) [OF keeps, of key val m w] run by simp
    then have "pending C in_use xs (m, w')" using pending_keep [OF rest] by blast
    with exec settled show ?thesis by blast
  qed
qed

text \<open>All of them, with what the other threads do in between.\<close>

definition waiting_keeps_guids ::
  "('w \<Rightarrow> 'g set) \<Rightarrow> (pause \<Rightarrow> ('g::linorder, 'd, 'q, 'l) Manager \<times> 'w \<Rightarrow> ('g, 'd, 'q, 'l) Manager \<times> 'w) \<Rightarrow> bool" where
  "waiting_keeps_guids in_use waiting \<longleftrightarrow> (\<forall>p mw. in_use (snd (waiting p mw)) \<subseteq> in_use (snd mw))"

lemma waiting_progress:
  assumes waiting: "waiting_ok waiting" "waiting_keeps_guids in_use waiting"
    and settled: "settled C D m" and pending: "pending C in_use xs (m, w)" and wait: "waiting p (m, w) = (m', w')"
  shows "settled C D m' \<and> pending C in_use xs (m', w')"
proof -
  have reg: "registry_ok D m" and apart: "apart m" using settled by (simp_all add: settled_def)
  have heard: "heard m m'" using waiting_okD(1) [OF waiting(1) registry_okD [OF reg], of p w] wait by simp
  note same = heard_members [OF heard]
  have schedule: "schedule m' = schedule m" using same(1) by (simp add: schedule_def fun_eq_iff)
  have "in_use w' \<subseteq> in_use w" using waiting(2) wait unfolding waiting_keeps_guids_def by (metis snd_conv)
  moreover have "roles m' = roles m" by (simp add: roles_def same)
  ultimately show ?thesis
    using settled_step [OF settled registry_heard [OF reg heard] _ schedule] pending_keep [OF pending schedule, of w']
      apart creation_guid_store [OF same(1)]
    by (simp add: apart_def first_registered_roles)
qed

lemma fold_events_progress:
  assumes laws: "creates_participants C D in_use" "keeps_guids D P in_use"
    and waiting: "waiting_ok waiting" "waiting_keeps_guids in_use waiting"
  shows "settled C D m \<Longrightarrow> pending C in_use xs (m, w) \<Longrightarrow>
    \<exists>mw. fold_run (\<lambda>p mw. execute_event D P False p (waiting (Sleep_Until (time p)) mw)) xs (m, w) = Inr mw"
proof (induction xs arbitrary: m w)
  case (Cons a xs)
  obtain m1 w1 where wait: "waiting (Sleep_Until (time a)) (m, w) = (m1, w1)" by (metis prod.collapse)
  have "settled C D m1" "pending C in_use (a # xs) (m1, w1)"
    using waiting_progress [OF waiting Cons.prems wait] by blast+
  then obtain m2 w2 where "execute_event D P False a (m1, w1) = Inr (m2, w2)" "settled C D m2" "pending C in_use xs (m2, w2)"
    using execute_event_progress [OF laws] by blast
  with Cons.IH show ?case by (simp add: wait)
qed simp

lemma pending_mset:
  assumes "mset xs = mset ys" "pending C in_use xs mw"
  shows "pending C in_use ys mw"
proof -
  let ?guids = "List.map_filter (late_guid C (fst mw))"
  have m: "mset (?guids xs) = mset (?guids ys)"
    unfolding map_filter_def mset_map mset_filter using assms(1) by simp
  have "set xs = set ys" "set (?guids xs) = set (?guids ys)" using assms(1) m by (metis set_mset_mset)+
  moreover have "distinct (?guids xs) = distinct (?guids ys)" using m by (rule mset_eq_imp_distinct_iff)
  ultimately show ?thesis using assms(2) by (simp add: pending_def)
qed

lemma runEvents_progress:
  assumes laws: "creates_participants C D in_use" "keeps_guids D P in_use"
    and sort: "sort_laws std_sort" and waiting: "waiting_ok waiting" "waiting_keeps_guids in_use waiting"
    and settled: "settled C D m" and pending: "pending C in_use (events m) (m, w)"
  shows "\<exists>mw. runEvents std_sort waiting D P False (m, w) = Inr mw"
proof -
  let ?time = "stored_event_time (event_store m)"
  define order where "order = std_sort (\<lambda>a b. ?time a < ?time b) (events m)"
  let ?m = "m\<lparr>events := order\<rparr>"
  have order: "mset order = mset (events m)" using sort unfolding order_def sort_laws_def by blast
  have schedule: "schedule ?m = schedule m" by (simp add: schedule_def fun_eq_iff)
  have reg: "registry_ok D m" "apart m" using settled by (simp_all add: settled_def)
  have "registry_ok D ?m" "apart ?m"
    using registry_frame [OF reg(1), of ?m] registry_okD [OF reg(1)] reg(2)
    by (simp_all add: roles_def apart_def manager_ok_def)
  then have "settled C D ?m" using settled_step [OF settled _ _ schedule] by (simp add: creation_guid_def)
  moreover have "pending C in_use order (?m, w)"
    using pending_keep [OF pending_mset [OF order [symmetric] pending] schedule, of w] by (simp add: first_registered_roles roles_def)
  ultimately obtain mw where
    "fold_run (\<lambda>p mw. execute_event D P False p (waiting (Sleep_Until (?time p)) mw)) order (?m, w) = Inr mw"
    using fold_events_progress [OF laws waiting] by blast
  then show ?thesis by (simp add: runEvents_def order_def [symmetric] Let_def)
qed

end
