(* ===== verification/Configuration_Steps.thy ===== *)
theory Configuration_Steps
  imports Run_Progress Snapshot_Load
begin

text \<open>
  What reading a configuration keeps: an invariant of the manager that survives a pushed event, a created
  participant, a created endpoint and the members that only the reader uses survives the constructor.
\<close>

section \<open>Steps of the configuration reader\<close>

text \<open>An event that is pushed holds no GUID of a participant yet.\<close>

fun fresh_event :: "'g \<Rightarrow> ('g, 'q) event_action \<Rightarrow> bool" where
  "fresh_event unknown (DelayedParticipantCreation q r d g) \<longleftrightarrow> g = unknown"
| "fresh_event unknown act \<longleftrightarrow> True"

locale configuration_steps =
  fixes D :: "('g::linorder, 'd, 'q, 'w) dds" and dbg :: bool and I :: "('g, 'd, 'q, 'l) Manager \<Rightarrow> bool"
  assumes push: "I m \<Longrightarrow> fresh_event (guid_unknown D) act \<Longrightarrow> I (snd (push_event t act m))"
    and participants: "I m \<Longrightarrow> participant_creation D dbg q r rm (m, w) = Inr (g, m', w') \<Longrightarrow> I m'"
    and endpoints: "I m \<Longrightarrow> endpoint_creation D dbg k tn ty tp ep g link owner (m, w) = Inr (m', w') \<Longrightarrow> I m'"
    and members: "I m \<Longrightarrow> I (m\<lparr>server_locators := ls\<rparr>)" "I m \<Longrightarrow> I (m\<lparr>topic_description_profiles := ts\<rparr>)"
      "I m \<Longrightarrow> I (m\<lparr>snapshots_output_file := file_name, validate := b\<rparr>)"
      "I m \<Longrightarrow> I (m\<lparr>validate := b, auto_shutdown := b', enable_prefix_validation := b''\<rparr>)"
      "I m \<Longrightarrow> I (m\<lparr>correctly_created := b\<rparr>)"
begin

lemma removal: "I m \<Longrightarrow> fresh_event (guid_unknown D) act \<Longrightarrow> I (snd (removal_event t act m))"
  using push by (simp add: removal_event_def split_beta Let_def)

lemma fold_keeps:
  assumes "fold_run f xs (m, w) = Inr (m', w')" "I m"
    and "\<And>x m w m' w'. I m \<Longrightarrow> f x (m, w) = Inr (m', w') \<Longrightarrow> I m'"
  shows "I m'"
  using fold_run_invariant [OF assms(1), of "\<lambda>(m, w). I m"] assms(2,3) by auto

lemma load_endpoint_keeps:
  assumes inv: "I m" and run: "load_endpoint k X D dbg g x creation removal (m, w) = Inr (m', w')"
  shows "I m'"
proof -
  obtain c rt where run1: "bind_run (std_string (Attribute X s_sTopic x)) (\<lambda>tp.
      let topic = described_topic (Attribute X s_sTopic x) m;
          (pDE, m1) = removal_event rt (DelayedEndpointDestruction k (guid_unknown D)) m;
          ep = (case Attribute X s_profile_name x of None \<Rightarrow> [] | Some p \<Rightarrow> p)
      in if c = getTime m1 then endpoint_creation D dbg k (topic_item_name topic) (topic_item_type topic) tp ep g pDE creation (m1, w)
         else Inr (snd (push_event c (DelayedEndpointCreation k (topic_item_name topic) (topic_item_type topic) tp ep g
                pDE creation) m1), w)) = Inr (m', w')"
    using run by (simp add: load_endpoint_def bind_run_Inr_iff Let_def split_beta cong: if_cong) blast
  have "I (snd (removal_event rt (DelayedEndpointDestruction k (guid_unknown D)) m))" using removal [OF inv] by simp
  then show ?thesis
    using run1 push endpoints by (auto simp: bind_run_Inr_iff Let_def split_beta split: if_splits)
qed

lemma load_endpoints_keeps:
  assumes inv: "I m" and run: "load_endpoints X D dbg g x creation (m, w) = Inr (m', w')"
  shows "I m'"
proof -
  obtain m1 w1 where m1: "fold_run (\<lambda>pub. loadPublisher X D dbg g pub creation None) (ChildElements X s_sPublisher x) (m, w)
      = Inr (m1, w1)"
    and m': "fold_run (\<lambda>sub. loadSubscriber X D dbg g sub creation None) (ChildElements X s_sSubscriber x) (m1, w1)
      = Inr (m', w')"
    using run by (auto simp: load_endpoints_def bind_run_Inr_iff)
  have "I m1" by (rule fold_keeps [OF m1 inv]) (simp add: loadPublisher_def load_endpoint_keeps)
  then show ?thesis by (rule fold_keeps [OF m']) (simp add: loadSubscriber_def load_endpoint_keeps)
qed

lemma create_participant_or_event_keeps:
  assumes inv: "I m" and run: "create_participant_or_event r D dbg c rt g qos (m, w) = Inr (g', creation, m', w')"
  shows "I m'"
proof -
  obtain d m1 where d: "removal_event rt (DelayedParticipantDestruction g) m = (d, m1)" by (metis prod.collapse)
  have m1: "I m1" using removal [OF inv, of "DelayedParticipantDestruction g" rt] d by simp
  show ?thesis
  proof (cases "c = getTime m1")
    case True
    then have "participant_creation D dbg qos r d (m1, w) = Inr (g', m', w')"
      using run by (auto simp: create_participant_or_event_def d bind_run_Inr_iff)
    then show ?thesis by (rule participants [OF m1])
  next
    case False
    then have "m' = snd (push_event c (DelayedParticipantCreation qos r d (guid_unknown D)) m1)"
      using run by (auto simp: create_participant_or_event_def d split_beta prod_eq_iff Let_def)
    then show ?thesis using push [OF m1] by simp
  qed
qed

lemma load_participants_keep:
  assumes inv: "I m"
  shows "loadSimple X C D dbg x (m, w) = Inr (m', w') \<Longrightarrow> I m'" "loadClient X C D dbg x (m, w) = Inr (m', w') \<Longrightarrow> I m'"
proof -
  have rest: "I m'" if "create_participant_or_event r D dbg c rt g qos (m, w) = Inr (g', creation, m1, w1)"
    "load_endpoints X D dbg g' x creation (m1, w1) = Inr (m', w')" for r c rt g qos g' creation m1 w1
    by (rule load_endpoints_keeps [OF create_participant_or_event_keeps [OF inv that(1)] that(2)])
  show "loadSimple X C D dbg x (m, w) = Inr (m', w') \<Longrightarrow> I m'" "loadClient X C D dbg x (m, w) = Inr (m', w') \<Longrightarrow> I m'"
    using inv by (auto simp: loadSimple_def loadClient_def bind_run_Inr_iff Let_def split: option.splits dest: rest)
qed

lemma loadServer_keeps:
  assumes inv: "I m" and run: "loadServer X C D dbg x (m, w) = Inr (m', w')"
  shows "I m'"
proof (cases "m' = m")
  case False
  obtain c rt qos g where
    c: "time_attribute X s_sCreationTime x (getTime m) m = Inr c"
    and rt: "time_attribute X s_sRemovalTime x (getTime m) m = Inr rt"
    and qos: "server_qos X C x w = Some qos" and g: "g = guid_of_prefix C (qos_prefix C qos)"
    using run False by (auto simp: loadServer_def bind_run_Inr_iff Let_def split: option.splits)
  obtain qos1 m1 where m1: "server_locator_lists C g qos m = (qos1, m1)" by (metis prod.collapse)
  let ?qos = "avoid_shared_memory C m1 qos1"
  let ?act = "DelayedParticipantCreation ?qos Server_Role None (guid_unknown D)"
  obtain m2 w2 where
    m2: "(if c = getTime m1
          then bind_run (participant_creation D dbg ?qos Server_Role None (m1, w)) (\<lambda>(participant_guid, mw). Inr mw)
          else Inr (snd (push_event c ?act m1), w)) = Inr (m2, w2)"
    and eps: "load_endpoints X D dbg g x None (snd (removal_event rt (DelayedParticipantDestruction g) m2), w2)
      = Inr (m', w')"
    using run False by (auto simp: loadServer_def bind_run_Inr_iff c rt qos m1 g [symmetric] Let_def split_beta
        split: if_splits)
  have "I m1" using m1 members(1) [OF inv] by (auto simp: server_locator_lists_def Let_def split_beta)
  then have "I m2" using m2 participants push [of m1 ?act c] by (auto simp: bind_run_Inr_iff split: if_splits)
  then show ?thesis by (intro load_endpoints_keeps [OF removal eps]) simp_all
qed (use inv in simp)

lemma server_elements_keep:
  assumes inv: "I m"
  shows "MapServerInfo X C x (m, w) = Inr (m', w') \<Longrightarrow> I m'" and "I (load_topic_profiles X C xs m)"
proof -
  show "MapServerInfo X C x (m, w) = Inr (m', w') \<Longrightarrow> I m'"
    using inv members(1) [OF inv] by (auto simp: MapServerInfo_def bind_run_Inr_iff Let_def split_beta split: if_splits)
  show "I (load_topic_profiles X C xs m)"
    using inv by (induction xs arbitrary: m) (simp_all add: Let_def split_beta members(2) split: option.split)
qed

lemma plain_events_keep:
  assumes inv: "I m"
  shows "loadSnapshot X x m = Inr m' \<Longrightarrow> I m'" "loadEnvironmentChange X x m = Inr m' \<Longrightarrow> I m'"
  using inv push [OF inv]
  by (auto simp: loadSnapshot_def loadEnvironmentChange_def bind_run_Inr_iff Let_def split: option.splits)

lemma load_servers_keeps:
  assumes inv: "I m" and run: "load_servers X C D dbg child (m, w) = Inr (b, m', w')"
  shows "I m'"
proof (cases "ChildElements X s_sServers child")
  case Nil
  then show ?thesis using run inv by (simp add: load_servers_def)
next
  case (Cons x xs)
  then obtain m1 w1 where 1: "fold_run (MapServerInfo X C) (ChildElements X s_sServer x) (m, w) = Inr (m1, w1)"
    and 2: "fold_run (loadServer X C D dbg) (ChildElements X s_sServer x) (m1, w1) = Inr (m', w')"
    using run by (auto simp: load_servers_def bind_run_Inr_iff)
  show ?thesis by (rule fold_keeps [OF 2 fold_keeps [OF 1 inv server_elements_keep(1)] loadServer_keeps])
qed

lemma load_clients_simples_keep:
  assumes inv: "I m"
  shows "load_clients X C D dbg child (m, w) = Inr (m', w') \<Longrightarrow> I m'" "load_simples X C D dbg child (m, w) = Inr (m', w') \<Longrightarrow> I m'"
proof -
  have "I m'" if "fold_run (loadClient X C D dbg) xs (m, w) = Inr (m', w')" for xs
    by (rule fold_keeps [OF that inv load_participants_keep(2)])
  then show "load_clients X C D dbg child (m, w) = Inr (m', w') \<Longrightarrow> I m'"
    using inv by (auto simp: load_clients_def split: list.splits)
  have "I m'" if "fold_run (loadSimple X C D dbg) xs (m, w) = Inr (m', w')" for xs
    by (rule fold_keeps [OF that inv load_participants_keep(1)])
  then show "load_simples X C D dbg child (m, w) = Inr (m', w') \<Longrightarrow> I m'"
    using inv by (auto simp: load_simples_def split: list.splits)
qed

lemma plain_folds_keep:
  assumes "I m"
  shows "fold_run (loadSnapshot X) xs m = Inr m' \<Longrightarrow> I m'" "fold_run (loadEnvironmentChange X) xs m = Inr m' \<Longrightarrow> I m'"
proof -
  show "fold_run (loadSnapshot X) xs m = Inr m' \<Longrightarrow> I m'"
    by (rule fold_run_invariant [where I = I, OF _ assms plain_events_keep(1)])
  show "fold_run (loadEnvironmentChange X) xs m = Inr m' \<Longrightarrow> I m'"
    by (rule fold_run_invariant [where I = I, OF _ assms plain_events_keep(2)])
qed

lemma load_section_keeps:
  assumes inv: "I m" and run: "load_section X C D P dbg child (m, w) = Inr (b, m', w')"
  shows "I m'"
proof -
  obtain m0 w0 where 0: "load_profiles X C child (m, w) = (m0, w0)" by (metis prod.collapse)
  have m0: "I m0"
    using 0 inv server_elements_keep(2) [OF inv] by (auto simp: load_profiles_def Let_def split_beta split: list.splits)
  obtain b1 m1 w1 where 1: "load_servers X C D dbg child (m0, w0) = Inr (b1, m1, w1)"
    and rest: "(if \<not> b1 then Inr (False, m1, w1) else
       bind_run (load_clients X C D dbg child (m1, w1)) (\<lambda>mw.
       bind_run (load_simples X C D dbg child mw) (\<lambda>(m, w).
       bind_run (load_snapshot_events X child m) (\<lambda>m.
       load_environment X P child (m, w))))) = Inr (b, m', w')"
    using run by (auto simp: load_section_def 0 bind_run_Inr_iff)
  note m1 = load_servers_keeps [OF m0 1]
  show ?thesis
  proof (cases b1)
    case True
    obtain m2 w2 m3 w3 m4 where 2: "load_clients X C D dbg child (m1, w1) = Inr (m2, w2)"
      and 3: "load_simples X C D dbg child (m2, w2) = Inr (m3, w3)"
      and 4: "load_snapshot_events X child m3 = Inr m4"
      and 5: "load_environment X P child (m4, w3) = Inr (b, m', w')"
      using rest True by (auto simp: bind_run_Inr_iff)
    have m3: "I m3" by (rule load_clients_simples_keep(2) [OF load_clients_simples_keep(1) [OF m1 2] 3])
    have "I m4"
      using 4 m3 plain_folds_keep(1) [OF members(3) [OF m3]] plain_folds_keep(1) [OF m3]
      by (auto simp: load_snapshot_events_def Let_def split: list.splits option.splits)
    then show ?thesis
      using 5 plain_folds_keep(2) by (auto simp: load_environment_def bind_run_Inr_iff Let_def split: list.splits option.splits)
  qed (use rest m1 in simp)
qed

lemma load_sections_keeps:
  "I m \<Longrightarrow> load_sections X C D P dbg xs (m, w) = Inr (b, m', w') \<Longrightarrow> I m'"
proof (induction xs arbitrary: m w)
  case (Cons x xs)
  then obtain b1 m1 w1 where 1: "load_section X C D P dbg x (m, w) = Inr (b1, m1, w1)"
    and 2: "(if b1 then load_sections X C D P dbg xs (m1, w1) else Inr (False, m1, w1)) = Inr (b, m', w')"
    by (auto simp: bind_run_Inr_iff)
  have "I m1" by (rule load_section_keeps [OF Cons.prems(1) 1])
  with Cons.IH 2 show ?case by (auto split: if_splits)
qed simp

lemma construct_keeps:
  assumes inv: "I m" and root: "ChildElements X s_sDS doc \<noteq> []"
    and run: "construct X C D P G clk dbg (Some doc) (m, w) = Inr (m', w')"
  shows "I m'"
proof -
  obtain r rs where rs: "ChildElements X s_sDS doc = r # rs" using root by (cases "ChildElements X s_sDS doc") auto
  define m0 where "m0 = m\<lparr>validate := True, auto_shutdown := \<not> BoolAttribute X s_sUserShutdown (\<not> auto_shutdown m) r,
     enable_prefix_validation := BoolAttribute X s_sPrefixValidation (enable_prefix_validation m) r\<rparr>"
  obtain b m1 w1 where 1: "load_sections X C D P dbg (r # rs) (m0, w) = Inr (b, m1, w1)"
    and m': "m' = (if b then m1\<lparr>correctly_created := True\<rparr> else m1)"
    using run by (auto simp: construct_def rs m0_def bind_run_Inr_iff Let_def simp del: load_sections.simps)
  have "I m1" using load_sections_keeps [OF _ 1] members(4) [OF inv] by (simp add: m0_def)
  with members(5) show ?thesis by (simp add: m')
qed

end

section \<open>The registries after the constructor\<close>

text \<open>Well formed registries, when Fast DDS is lawful, and creation events that hold no GUID yet.\<close>

definition wired_ok :: "('g::linorder, 'd, 'q, 'w) dds \<Rightarrow> ('g, 'd, 'q, 'l) Manager \<Rightarrow> bool" where
  "wired_ok D m \<longleftrightarrow> (lawful D \<longrightarrow> registry_ok D m \<and> (\<forall>a g. creation_guid a m = Some g \<longrightarrow> g = guid_unknown D))"

lemma wired_frame:
  assumes "wired_ok D m" "manager_ok m \<Longrightarrow> manager_ok m'" "roles m' = roles m" "entity_map m' = entity_map m"
    and "\<And>a g. creation_guid a m' = Some g \<Longrightarrow> creation_guid a m = Some g \<or> g = guid_unknown D"
  shows "wired_ok D m'"
  using assms registry_frame [of D m m'] registry_okD [of D m] unfolding wired_ok_def by metis

interpretation wired: configuration_steps D dbg "wired_ok D :: ('g, 'd, 'q, 'l) Manager \<Rightarrow> bool"
  for D :: "('g::linorder, 'd, 'q, 'w) dds" and dbg
proof
  fix m :: "('g, 'd, 'q, 'l) Manager" and act :: "('g, 'q) event_action"
    and t q r rm w g m' w' k tn ty tp ep link owner
  assume wired: "wired_ok D m"
  {
    assume "fresh_event (guid_unknown D) act"
    then show "wired_ok D (snd (push_event t act m))"
      using wired by (elim wired_frame; cases act)
        (auto simp: push_event_def Let_def manager_ok_def roles_def creation_guid_def split: if_splits)
  next
    assume run: "participant_creation D dbg q r rm (m, w) = Inr (g, m', w')"
    show "wired_ok D m'"
      unfolding wired_ok_def
    proof (intro impI)
      assume lawful: "lawful D"
      obtain p w1 where p: "create_participant D q w = (Some p, w1)"
        using run by (auto simp: participant_creation_def Let_def split: prod.splits option.splits)
      have "dds_guid D p \<noteq> guid_unknown D" "\<And>p w. fst (create_publisher D p w) \<noteq> None"
        "\<And>p w. fst (create_subscriber D p w) \<noteq> None"
        using lawful p unfolding lawful_def by blast+
      note new = participant_creation_registry [OF _ p this run]
      show "registry_ok D m' \<and> (\<forall>a g. creation_guid a m' = Some g \<longrightarrow> g = guid_unknown D)"
        using wired lawful new(1,3) unfolding wired_ok_def by metis
    qed
  next
    assume run: "endpoint_creation D dbg k tn ty tp ep g link owner (m, w) = Inr (m', w')"
    show "wired_ok D m'"
      using wired touches_registry(1,4) [OF _ endpoint_creation_touches [OF registry_okD run]]
      unfolding wired_ok_def by metis
  }
qed (elim wired_frame; simp add: manager_ok_def roles_def creation_guid_def)+

lemma wired_new:
  assumes "db_inv img"
  shows "wired_ok D (new_manager t img shm)"
  using assms by (simp add: wired_ok_def registry_ok_def manager_ok_def new_manager_def roles_def creation_guid_def)

text \<open>The constructor leaves a manager that is settled, when no GUID is registered in two roles.\<close>

lemma construct_settled:
  fixes m' :: "('g::linorder, 'd, 'q, 'l) Manager"
  assumes img: "db_inv img" and root: "ChildElements X s_sDS doc \<noteq> []" and lawful: "lawful D"
    and run: "construct X C D P G clk dbg (Some doc) (new_manager t img shm, w) = Inr (m', w')"
    and linked: "config_inv (qos_guid C) m'" and apart: "apart m'"
  shows "settled C D m'"
proof -
  have wired: "wired_ok D m'" by (rule wired.construct_keeps [OF wired_new [OF img] root run])
  have "late_guid C m' ow = Some g" if "schedule m' a = Some (u, Makes_Endpoint k l (Some ow) g)" for a u k l ow g
    using config_invD [OF linked that] by (auto simp: late_guid_def)
  with wired lawful apart show ?thesis by (simp add: settled_def wired_ok_def)
qed

end
