(* ===== verification/Option_Parser.thy ===== *)
theory Option_Parser
  imports Prelude
begin

text \<open>
  The command line parser (\<open>optionparser.h\<close>): the loop over the argument vector, the checks of arguments,
  the arrays of options with their linked lists, and the pass that computes the sizes of the arrays.

  A C string is a list of characters without the final NUL; a pointer into a string is the rest of it. The
  array of descriptors is a list without its terminating entry, whose index is the length of the list. An
  access outside an array is \<open>Inl Invalid_Access\<close>.
\<close>

section \<open>Descriptors and options\<close>

datatype ArgStatus = ARG_NONE | ARG_OK | ARG_IGNORE | ARG_ILLEGAL

text \<open>The members of an \<open>Option\<close> that a check of its argument can read.\<close>

record option_text =
  opt_name :: "string option"
  opt_arg :: "string option"
  opt_namelen :: nat

record Descriptor =
  desc_index :: nat
  desc_type :: int
  shortopt :: string
  longopt :: string
  check_arg :: "option_text \<Rightarrow> bool \<Rightarrow> ArgStatus"
  help_text :: "string option"

record Option = option_text +
  opt_desc :: "Descriptor option"

definition Arg_None :: "option_text \<Rightarrow> bool \<Rightarrow> ArgStatus" where
  "Arg_None opt msg = ARG_NONE"

definition name_length :: "string option \<Rightarrow> nat" where
  "name_length nm =
     (case nm of
        None \<Rightarrow> 0
      | Some (CHR ''-'' # cs) \<Rightarrow> 1 + length (takeWhile (\<lambda>c. c \<noteq> CHR ''='') cs)
      | Some _ \<Rightarrow> 1)"

definition init_option :: "Descriptor option \<Rightarrow> string option \<Rightarrow> string option \<Rightarrow> Option" where
  "init_option d nm a = \<lparr>opt_name = nm, opt_arg = a, opt_namelen = name_length nm, opt_desc = d\<rparr>"

section \<open>Linked options\<close>

text \<open>
  An element of the array \<open>options\<close> or of the array \<open>buffer\<close>. A link is a pointer and its tag; the first
  and the last element of a list have a tagged pointer to the other end.
\<close>

datatype slot = Options nat | Buffer nat

record node = Option +
  next_link :: "slot \<times> bool"
  prev_link :: "slot \<times> bool"

type_synonym memory = "slot \<Rightarrow> node option"

definition init_node :: "slot \<Rightarrow> Descriptor option \<Rightarrow> string option \<Rightarrow> string option \<Rightarrow> node" where
  "init_node self d nm a = \<lparr>opt_name = nm, opt_arg = a, opt_namelen = name_length nm, opt_desc = d,
     next_link = (self, True), prev_link = (self, True)\<rparr>"

definition unused_node :: "slot \<Rightarrow> node" where
  "unused_node self = \<lparr>opt_name = None, opt_arg = None, opt_namelen = 0, opt_desc = None,
     next_link = (self, True), prev_link = (self, True)\<rparr>"

text \<open>\<open>std::vector<Option>\<close> of the two sizes.\<close>

definition new_arrays :: "nat \<Rightarrow> nat \<Rightarrow> memory" where
  "new_arrays options_max buffer_max s =
     (case s of
        Options i \<Rightarrow> if i < options_max then Some (unused_node s) else None
      | Buffer i \<Rightarrow> if i < buffer_max then Some (unused_node s) else None)"

definition load_node :: "memory \<Rightarrow> slot \<Rightarrow> node run" where
  "load_node mem s = (case mem s of None \<Rightarrow> Inl Invalid_Access | Some n \<Rightarrow> Inr n)"

definition store_node :: "slot \<Rightarrow> (node \<Rightarrow> node) \<Rightarrow> memory \<Rightarrow> memory run" where
  "store_node s f mem = bind_run (load_node mem s) (\<lambda>n. Inr (mem(s \<mapsto> f n)))"

text \<open>\<open>operator=\<close> copies what \<open>init\<close> takes, not the links.\<close>

definition assign_node :: "slot \<Rightarrow> ('a Option_scheme) \<Rightarrow> memory \<Rightarrow> memory run" where
  "assign_node s orig = store_node s (\<lambda>_. init_node s (opt_desc orig) (opt_name orig) (opt_arg orig))"

definition used :: "('a Option_scheme) \<Rightarrow> bool" where
  "used opt \<longleftrightarrow> opt_desc opt \<noteq> None"

definition isFirst :: "node \<Rightarrow> bool" where
  "isFirst n \<longleftrightarrow> snd (prev_link n)"

definition isLast :: "node \<Rightarrow> bool" where
  "isLast n \<longleftrightarrow> snd (next_link n)"

text \<open>\<open>first\<close> and the loop of \<open>count\<close>: \<open>None\<close> when the links lead outside the arrays or never to an end.\<close>

partial_function (option) first_slot :: "memory \<Rightarrow> slot \<Rightarrow> slot option" where
  "first_slot mem s =
     (case mem s of
        None \<Rightarrow> None
      | Some n \<Rightarrow> if isFirst n then Some s else first_slot mem (fst (prev_link n)))"

partial_function (option) later_options :: "memory \<Rightarrow> slot \<Rightarrow> nat \<Rightarrow> nat option" where
  "later_options mem s c =
     (case mem s of
        None \<Rightarrow> None
      | Some n \<Rightarrow> if isLast n then Some c else later_options mem (fst (next_link n)) (Suc c))"

declare first_slot.simps [code] later_options.simps [code]

definition valid_run :: "'a option \<Rightarrow> 'a run" where
  "valid_run r = (case r of None \<Rightarrow> Inl Invalid_Access | Some x \<Rightarrow> Inr x)"

definition option_count :: "memory \<Rightarrow> slot \<Rightarrow> nat run" where
  "option_count mem this =
     bind_run (load_node mem this) (\<lambda>n.
     bind_run (valid_run (first_slot mem this)) (\<lambda>p.
     valid_run (later_options mem p (if used n then 1 else 0))))"

text \<open>\<open>last ()\<close> is the untagged \<open>prev_\<close> of the first element.\<close>

definition last_slot :: "memory \<Rightarrow> slot \<Rightarrow> slot run" where
  "last_slot mem this =
     bind_run (valid_run (first_slot mem this)) (\<lambda>f.
     bind_run (load_node mem f) (\<lambda>n. Inr (fst (prev_link n))))"

text \<open>The neighbours of an option, \<open>None\<close> for the null pointer past an end; the others wrap around.\<close>

definition next_option :: "memory \<Rightarrow> slot \<Rightarrow> slot option run" where
  "next_option mem this = bind_run (load_node mem this) (\<lambda>n. Inr (if isLast n then None else Some (fst (next_link n))))"

definition prev_option :: "memory \<Rightarrow> slot \<Rightarrow> slot option run" where
  "prev_option mem this = bind_run (load_node mem this) (\<lambda>n. Inr (if isFirst n then None else Some (fst (prev_link n))))"

definition nextwrap :: "memory \<Rightarrow> slot \<Rightarrow> slot run" where
  "nextwrap mem this = bind_run (load_node mem this) (\<lambda>n. Inr (fst (next_link n)))"

definition prevwrap :: "memory \<Rightarrow> slot \<Rightarrow> slot run" where
  "prevwrap mem this = bind_run (load_node mem this) (\<lambda>n. Inr (fst (prev_link n)))"

definition append_option :: "slot \<Rightarrow> slot \<Rightarrow> memory \<Rightarrow> memory run" where
  "append_option this new_last mem =
     bind_run (last_slot mem this) (\<lambda>p.
     bind_run (valid_run (first_slot mem this)) (\<lambda>f.
     bind_run (store_node p (next_link_update (\<lambda>_. (new_last, False))) mem) (\<lambda>mem.
     bind_run (store_node new_last (prev_link_update (\<lambda>_. (p, False))) mem) (\<lambda>mem.
     bind_run (store_node new_last (next_link_update (\<lambda>_. (f, True))) mem) (\<lambda>mem.
     store_node f (prev_link_update (\<lambda>_. (new_last, True))) mem)))))"

section \<open>Actions\<close>

text \<open>
  The two subclasses of \<open>Parser::Action\<close> as a pair of methods on the state they refer to. \<open>finished\<close> gets
  the number of arguments that are left and the pointer to the first of them.
\<close>

record 's action =
  perform :: "Option \<Rightarrow> 's \<Rightarrow> (bool \<times> 's) run"
  finished :: "int \<Rightarrow> string list \<Rightarrow> 's \<Rightarrow> bool \<times> 's"

definition CountOptionsAction :: "nat action" where
  "CountOptionsAction =
     \<lparr>perform = (\<lambda>opt buffer_max.
        Inr (if int buffer_max = 0x7fffffff then (False, buffer_max) else (True, Suc buffer_max))),
      finished = (\<lambda>numargs args buffer_max. (True, buffer_max))\<rparr>"

record parser =
  op_count :: nat
  nonop_count :: int
  nonop_args :: "string list"
  err :: bool

definition new_parser :: parser where
  "new_parser = \<lparr>op_count = 0, nonop_count = 0, nonop_args = [], err = False\<rparr>"

text \<open>Its constructor looks for the first unused element of the buffer.\<close>

partial_function (option) first_unused :: "int \<Rightarrow> memory \<Rightarrow> nat \<Rightarrow> nat option" where
  "first_unused bufmax mem bufidx =
     (if bufmax < 0 \<or> int bufidx < bufmax
      then case mem (Buffer bufidx) of
             None \<Rightarrow> None
           | Some n \<Rightarrow> if used n then first_unused bufmax mem (Suc bufidx) else Some bufidx
      else Some bufidx)"

declare first_unused.simps [code]

definition store_option :: "int \<Rightarrow> Option \<Rightarrow> parser \<times> memory \<Rightarrow> (bool \<times> parser \<times> memory) run" where
  "store_option bufmax opt pm =
     (let (p, mem) = pm
      in if bufmax < 0 \<or> int (op_count p) < bufmax
         then if int (op_count p) = 0x7fffffff then Inr (False, p, mem)
           else
             bind_run (assign_node (Buffer (op_count p)) opt mem) (\<lambda>mem.
             bind_run (load_node mem (Buffer (op_count p))) (\<lambda>stored.
             case opt_desc stored of
               None \<Rightarrow> Inl Null_Dereference
             | Some d \<Rightarrow>
                 bind_run (load_node mem (Options (desc_index d))) (\<lambda>head.
                 bind_run
                   (if used head then append_option (Options (desc_index d)) (Buffer (op_count p)) mem
                    else assign_node (Options (desc_index d)) stored mem) (\<lambda>mem.
                 Inr (True, p\<lparr>op_count := Suc (op_count p)\<rparr>, mem)))))
         else Inr (True, p, mem))"

definition StoreOptionAction :: "int \<Rightarrow> (parser \<times> memory) action" where
  "StoreOptionAction bufmax =
     \<lparr>perform = store_option bufmax,
      finished = (\<lambda>numargs args (p, mem).
        (True, if numargs > 0 then p\<lparr>nonop_count := numargs, nonop_args := args\<rparr> else p, mem))\<rparr>"

section \<open>Matching options\<close>

text \<open>\<open>st1\<close> is the name in the table, \<open>st2\<close> the argument, which may go on with \<open>=\<close> and a value.\<close>

fun streq :: "string \<Rightarrow> string \<Rightarrow> bool" where
  "streq [] st2 \<longleftrightarrow> st2 = [] \<or> hd st2 = CHR ''=''"
| "streq (c # st1) [] \<longleftrightarrow> False"
| "streq (c # st1) (d # st2) \<longleftrightarrow> c = d \<and> streq st1 st2"

fun after_common :: "string \<Rightarrow> string \<Rightarrow> int \<Rightarrow> string \<times> string \<times> int" where
  "after_common (c # st1) (d # st2) n =
     (if c = d then after_common st1 st2 (n + 1) else (c # st1, d # st2, n))"
| "after_common st1 st2 n = (st1, st2, n)"

definition streqabbr :: "string \<Rightarrow> string \<Rightarrow> int \<Rightarrow> bool" where
  "streqabbr st1 st2 min_len =
     (let (r1, r2, n) = after_common st1 st2 0
      in (r1 = [] \<or> (min_len > 0 \<and> n \<ge> min_len)) \<and> (r2 = [] \<or> hd r2 = CHR ''=''))"

fun instr :: "char \<Rightarrow> string \<Rightarrow> bool" where
  "instr ch [] \<longleftrightarrow> ch = CHR 0x00"
| "instr ch (c # st) \<longleftrightarrow> c = ch \<or> instr ch st"

fun find_descriptor :: "(Descriptor \<Rightarrow> bool) \<Rightarrow> Descriptor list \<Rightarrow> nat" where
  "find_descriptor P [] = 0"
| "find_descriptor P (d # usage) = (if P d then 0 else Suc (find_descriptor P usage))"

text \<open>The index of the long option, abbreviated if that is allowed and unambiguous.\<close>

definition find_long_option :: "Descriptor list \<Rightarrow> string \<Rightarrow> int \<Rightarrow> nat" where
  "find_long_option usage longopt_name min_abbr_len =
     (let idx = find_descriptor (\<lambda>d. streq (longopt d) longopt_name) usage
      in if idx = length usage \<and> min_abbr_len > 0
         then let abbr = (\<lambda>d. streqabbr (longopt d) longopt_name min_abbr_len);
                  i1 = find_descriptor abbr usage
              in if i1 < length usage \<and> Suc i1 + find_descriptor abbr (drop (Suc i1) usage) = length usage
                 then i1 else idx
         else idx)"

section \<open>The argument vector\<close>

text \<open>
  \<open>args\<close> points to the element \<open>cur_pos\<close> of the vector, whose length is the index of the terminating
  null pointer; \<open>numargs\<close> is negative when the number of arguments is not known.
\<close>

record cursor =
  cur_args :: "string list"
  cur_pos :: nat
  numargs :: int

text \<open>\<open>shift\<close> moves the element at the pointer before the \<open>count\<close> elements in front of it.\<close>

fun shift :: "string list \<Rightarrow> nat \<Rightarrow> nat \<Rightarrow> string list" where
  "shift args i 0 = args"
| "shift args i (Suc count) = shift (args[i := args ! (i - 1), i - 1 := args ! i]) (i - 1) count"

definition skip_argument :: "nat \<Rightarrow> cursor \<Rightarrow> cursor" where
  "skip_argument nonops cur =
     \<lparr>cur_args = shift (cur_args cur) (cur_pos cur) nonops, cur_pos = Suc (cur_pos cur),
      numargs = (if numargs cur > 0 then numargs cur - 1 else numargs cur)\<rparr>"

text \<open>
  A potential argument: the text and whether its pointer is \<open>args[1]\<close>. \<open>args[1]\<close> may be the terminating
  null pointer.
\<close>

type_synonym optarg = "(string \<times> bool) option"

definition separate_argument :: "bool \<Rightarrow> cursor \<Rightarrow> optarg" where
  "separate_argument have_more_args cur =
     (if have_more_args \<and> Suc (cur_pos cur) < length (cur_args cur)
      then Some (cur_args cur ! Suc (cur_pos cur), True) else None)"

text \<open>
  The first half of the loop over a group of short options: the option that \<open>param\<close> stands for. The
  result holds \<open>param\<close>, \<open>handle_short_options\<close>, the index and the potential argument, \<open>None\<close> is the
  \<open>break\<close> at the end of the group.
\<close>

definition select_option ::
  "Descriptor list \<Rightarrow> int \<Rightarrow> string \<Rightarrow> bool \<Rightarrow> cursor \<Rightarrow> string \<Rightarrow> bool \<Rightarrow> bool
    \<Rightarrow> (string \<times> bool \<times> nat \<times> optarg) option" where
  "select_option usage min_abbr_len longopt_name have_more_args cur param
       handle_short_options try_single_minus_longopt =
     (let (handle_short_options, idx, optarg) =
            (if \<not> handle_short_options \<or> try_single_minus_longopt
             then let idx = find_long_option usage longopt_name min_abbr_len
                  in (handle_short_options \<and> idx = length usage, idx,
                      case dropWhile (\<lambda>c. c \<noteq> CHR ''='') longopt_name of
                        [] \<Rightarrow> separate_argument have_more_args cur
                      | _ # attached \<Rightarrow> Some (attached, False))
             else (handle_short_options, 0, None))
      in if handle_short_options
         then case tl param of
                [] \<Rightarrow> None
              | c # rest \<Rightarrow>
                  Some (c # rest, True, find_descriptor (\<lambda>d. instr c (shortopt d)) usage,
                        if rest = [] then separate_argument have_more_args cur else Some (rest, False))
         else Some (param, False, idx, optarg))"

text \<open>The descriptor at the index; for unknown options the first dummy, if there is one.\<close>

definition chosen_descriptor :: "Descriptor list \<Rightarrow> nat \<Rightarrow> Descriptor option" where
  "chosen_descriptor usage idx =
     (if idx < length usage then Some (usage ! idx)
      else let dummy = find_descriptor (\<lambda>d. shortopt d = [] \<and> longopt d = []) usage
           in if dummy < length usage then Some (usage ! dummy) else None)"

text \<open>
  The second half: the argument is checked and the action performed. The result is false for
  \<open>return false\<close>, then whether more short options may follow.
\<close>

definition take_option ::
  "Descriptor list \<Rightarrow> 's action \<Rightarrow> bool \<Rightarrow> nat \<Rightarrow> bool \<Rightarrow> string \<Rightarrow> nat \<Rightarrow> optarg \<Rightarrow> cursor \<Rightarrow> 's
    \<Rightarrow> (bool \<times> bool \<times> cursor \<times> 's) run" where
  "take_option usage act print_errors nonops have_more_args param idx optarg cur s =
     (case chosen_descriptor usage idx of
        None \<Rightarrow> Inr (True, True, cur, s)
      | Some descriptor \<Rightarrow>
          let opt = init_option (Some descriptor) (Some param) (map_option fst optarg)
          in case check_arg descriptor (option_text.truncate opt) print_errors of
               ARG_ILLEGAL \<Rightarrow> Inr (False, False, cur, s)
             | ARG_OK \<Rightarrow>
                 let cur = (case optarg of
                              Some (_, True) \<Rightarrow> if have_more_args then skip_argument nonops cur else cur
                            | _ \<Rightarrow> cur)
                 in bind_run (perform act opt s) (\<lambda>(go_on, s). Inr (go_on, False, cur, s))
             | _ \<Rightarrow> bind_run (perform act (opt\<lparr>opt_arg := None\<rparr>) s) (\<lambda>(go_on, s). Inr (go_on, True, cur, s)))"

lemma select_option_shorter:
  assumes "select_option usage ab ln hm cur param h t = Some (param', True, idx, oa)"
  shows "length param' < length param"
proof -
  have "param' = tl param \<and> tl param \<noteq> []"
    using assms unfolding select_option_def Let_def split_beta by (cases "tl param") (simp_all split: if_split_asm)
  then show ?thesis by (cases param) auto
qed

text \<open>The loop over a group; its body is executed once for a long option.\<close>

function option_group ::
  "Descriptor list \<Rightarrow> 's action \<Rightarrow> bool \<Rightarrow> int \<Rightarrow> nat \<Rightarrow> string \<Rightarrow> bool \<Rightarrow> string \<Rightarrow> bool \<Rightarrow> bool
    \<Rightarrow> cursor \<Rightarrow> 's \<Rightarrow> (bool \<times> cursor \<times> 's) run" where
  "option_group usage act print_errors min_abbr_len nonops longopt_name have_more_args param
       handle_short_options try_single_minus_longopt cur s =
     (case select_option usage min_abbr_len longopt_name have_more_args cur param
             handle_short_options try_single_minus_longopt of
        None \<Rightarrow> Inr (True, cur, s)
      | Some (param', grouped, idx, optarg) \<Rightarrow>
          (case take_option usage act print_errors nonops have_more_args param' idx optarg cur s of
             Inl e \<Rightarrow> Inl e
           | Inr (go_on, again, cur, s) \<Rightarrow>
               if \<not> go_on then Inr (False, cur, s)
               else if grouped \<and> again
               then option_group usage act print_errors min_abbr_len nonops longopt_name have_more_args
                      param' True False cur s
               else Inr (True, cur, s)))"
  by pat_completeness auto

termination
proof (relation "measure (\<lambda>(_, _, _, _, _, _, _, param, _). length param)", goal_cases)
  case 2
  then show ?case by (simp only: in_measure split_conv) (metis select_option_shorter)
qed simp

declare option_group.simps [simp del]

text \<open>The cursor only moves forward, in a vector of the same length.\<close>

lemma length_shift [simp]: "length (shift args i n) = length args"
  by (induction args i n rule: shift.induct) simp_all

definition moves :: "cursor \<Rightarrow> cursor \<Rightarrow> bool" where
  "moves cur cur' \<longleftrightarrow> length (cur_args cur') = length (cur_args cur) \<and> cur_pos cur \<le> cur_pos cur'"

lemma moves_refl [simp]: "moves cur cur"
  by (simp add: moves_def)

lemma moves_trans: "moves a b \<Longrightarrow> moves b c \<Longrightarrow> moves a c"
  by (auto simp: moves_def)

lemma moves_skip [simp]: "moves cur (skip_argument n cur)"
  by (simp add: moves_def skip_argument_def)

lemma take_option_moves:
  "take_option usage act pe n hm param idx oa cur s = Inr (b, again, cur', s') \<Longrightarrow> moves cur cur'"
  by (auto simp: take_option_def Let_def bind_run_Inr_iff split: option.splits ArgStatus.splits bool.splits if_splits)

lemma option_group_moves:
  "option_group usage act pe ab n ln hm param h t cur s = Inr (b, cur', s') \<Longrightarrow> moves cur cur'"
proof (induction usage act pe ab n ln hm param h t cur s arbitrary: b cur' s' rule: option_group.induct)
  case (1 usage act pe ab n ln hm param h t cur s)
  show ?case
  proof (cases "select_option usage ab ln hm cur param h t")
    case None
    then show ?thesis using "1.prems" by (simp add: option_group.simps)
  next
    case (Some x)
    obtain param' g idx oa where x: "x = (param', g, idx, oa)" by (cases x) auto
    obtain go_on again cur1 s1 where
      r: "take_option usage act pe n hm param' idx oa cur s = Inr (go_on, again, cur1, s1)"
      using "1.prems" by (auto simp: option_group.simps [of usage act pe ab n ln hm param h t] Some x split: sum.splits)
    note m = take_option_moves [OF r]
    show ?thesis
    proof (cases "go_on \<and> g \<and> again")
      case True
      then have "option_group usage act pe ab n ln hm param' True False cur1 s1 = Inr (b, cur', s')"
        using "1.prems" by (simp add: option_group.simps [of usage act pe ab n ln hm param h t] Some x r)
      then have "moves cur1 cur'" by (intro "1.IH" [OF Some]) (use True in \<open>auto simp: x r\<close>)
      with m show ?thesis by (rule moves_trans)
    next
      case False
      then show ?thesis
        using "1.prems" m by (auto simp: option_group.simps [of usage act pe ab n ln hm param h t] Some x r split: if_splits)
    qed
  qed
qed

section \<open>The loop over the arguments\<close>

text \<open>
  An element that is no option: it does not start with a minus, or is a lone minus.
\<close>

definition non_option :: "string \<Rightarrow> bool" where
  "non_option param \<longleftrightarrow> param = [] \<or> hd param \<noteq> CHR ''-'' \<or> tl param = []"

text \<open>
  The result is false for \<open>return false\<close>; otherwise it is the cursor at the end of the loop and \<open>nonops\<close>,
  the number of arguments in front of it that are no options.
\<close>

function scan_arguments ::
  "bool \<Rightarrow> Descriptor list \<Rightarrow> 's action \<Rightarrow> bool \<Rightarrow> bool \<Rightarrow> int \<Rightarrow> nat \<Rightarrow> cursor \<Rightarrow> 's
    \<Rightarrow> (bool \<times> nat \<times> cursor \<times> 's) run" where
  "scan_arguments gnu usage act single_minus_longopt print_errors min_abbr_len nonops cur s =
     (if numargs cur = 0 \<or> length (cur_args cur) \<le> cur_pos cur then Inr (True, nonops, cur, s)
      else
        let param = cur_args cur ! cur_pos cur
        in if non_option param
           then if gnu
             then scan_arguments gnu usage act single_minus_longopt print_errors min_abbr_len (Suc nonops)
                    (skip_argument 0 cur) s
             else Inr (True, nonops, cur, s)
           else if param = ''--'' then Inr (True, nonops, skip_argument nonops cur, s)
           else
             let handle_short_options = (hd (tl param) \<noteq> CHR ''-'');
                 longopt_name = (if handle_short_options then tl param else tl (tl param));
                 have_more_args = (numargs cur > 1 \<or> numargs cur < 0)
             in (case option_group usage act print_errors min_abbr_len nonops longopt_name have_more_args param
                        handle_short_options single_minus_longopt cur s of
                   Inl e \<Rightarrow> Inl e
                 | Inr (go_on, cur, s) \<Rightarrow>
                     if \<not> go_on then Inr (False, nonops, cur, s)
                     else scan_arguments gnu usage act single_minus_longopt print_errors min_abbr_len nonops
                            (skip_argument nonops cur) s))"
  by pat_completeness auto
termination
proof (relation "measure (\<lambda>(_, _, _, _, _, _, _, cur, _). length (cur_args cur) - cur_pos cur)", goal_cases)
  case (3 gnu usage act sm pe ab n cur s param h ln hm y ok z cur' s')
  then have "moves cur cur'" by (auto intro: option_group_moves)
  then show ?case using 3 by (auto simp: moves_def skip_argument_def)
qed (auto simp: skip_argument_def)

declare scan_arguments.simps [simp del]

text \<open>
  The number of arguments left is corrected when it is too large and counted when it is not known. The
  result is the value returned, the vector as it was permuted, and the state of the action.
\<close>

definition workhorse ::
  "bool \<Rightarrow> Descriptor list \<Rightarrow> int \<Rightarrow> string list \<Rightarrow> 's action \<Rightarrow> bool \<Rightarrow> bool \<Rightarrow> int \<Rightarrow> 's
    \<Rightarrow> (bool \<times> string list \<times> 's) run" where
  "workhorse gnu usage argc argv act single_minus_longopt print_errors min_abbr_len s =
     bind_run (scan_arguments gnu usage act single_minus_longopt print_errors min_abbr_len 0
                 \<lparr>cur_args = argv, cur_pos = 0, numargs = argc\<rparr> s) (\<lambda>(go_on, nonops, cur, s).
     if \<not> go_on then Inr (False, cur_args cur, s)
     else
       let num = numargs cur;
           num = (if num > 0 \<and> cur_pos cur = length (cur_args cur) then 0 else num);
           num = (if num < 0 then int (length (cur_args cur) - cur_pos cur) else num);
           (ok, s) = finished act (num + int nonops) (drop (cur_pos cur - nonops) (cur_args cur)) s
       in Inr (ok, cur_args cur, s))"

section \<open>Parsing and its sizes\<close>

text \<open>\<open>Stats::add\<close>: \<open>buffer_max\<close>, \<open>options_max\<close> and the vector as it was permuted.\<close>

definition count_arguments ::
  "bool \<Rightarrow> Descriptor list \<Rightarrow> int \<Rightarrow> string list \<Rightarrow> int \<Rightarrow> bool \<Rightarrow> nat \<times> nat \<Rightarrow> ((nat \<times> nat) \<times> string list) run" where
  "count_arguments gnu usage argc argv min_abbr_len single_minus_longopt sizes =
     (let (buffer_max, options_max) = sizes;
          options_max = fold (\<lambda>d m. if desc_index d + 1 \<ge> m then desc_index d + 1 + 1 else m) usage options_max
      in bind_run (workhorse gnu usage argc argv CountOptionsAction single_minus_longopt False min_abbr_len buffer_max)
           (\<lambda>(ok, argv, buffer_max). Inr ((buffer_max, options_max), argv)))"

definition parse_arguments ::
  "bool \<Rightarrow> Descriptor list \<Rightarrow> int \<Rightarrow> string list \<Rightarrow> int \<Rightarrow> bool \<Rightarrow> int \<Rightarrow> parser \<times> memory
    \<Rightarrow> (string list \<times> parser \<times> memory) run" where
  "parse_arguments gnu usage argc argv min_abbr_len single_minus_longopt bufmax pm =
     (let (p, mem) = pm
      in bind_run (valid_run (first_unused bufmax mem 0)) (\<lambda>bufidx.
         bind_run (workhorse gnu usage argc argv (StoreOptionAction bufmax) single_minus_longopt True min_abbr_len
                     (p\<lparr>op_count := bufidx\<rparr>, mem)) (\<lambda>(ok, argv, p, mem).
         Inr (argv, p\<lparr>err := \<not> ok\<rparr>, mem))))"

end
