(* ===== verification/Usage_Text.thy ===== *)
theory Usage_Text
  imports Option_Parser "HOL-Library.Monad_Syntax"
begin

text \<open>
  The text of the usage message (\<open>PrintUsageImplementation\<close> in \<open>optionparser.h\<close>): characters in UTF-8,
  indentation and the line wrapper.

  What an \<open>IStringWriter\<close> has written is a string that the functions extend. The result \<open>None\<close> is an access
  outside an array or to an element that was never written, a null pointer, or a loop without an end.
  A string has no NUL; reading it at its end gives one. The built-in \<open>__builtin_clz\<close> is a parameter.
\<close>

unbundle bit_operations_syntax

definition newline :: string where
  "newline = [CHR 0x0A]"

definition write_text :: "string \<Rightarrow> string \<Rightarrow> nat \<Rightarrow> string" where
  "write_text out str n = out @ take n str"

definition string_at :: "string \<Rightarrow> nat \<Rightarrow> char" where
  "string_at s i = (if i < length s then s ! i else CHR 0x00)"

section \<open>Indentation\<close>

text \<open>The new column and the output. After a line break \<open>x\<close> is only set when there is something to indent.\<close>

definition indent :: "string \<Rightarrow> int \<Rightarrow> int \<Rightarrow> int \<times> string" where
  "indent out x want_x =
     (let (indent, out) = (if want_x - x < 0 then (want_x, out @ newline) else (want_x - x, out))
      in if indent > 0 then (want_x, out @ replicate (nat indent) CHR '' '') else (x, out))"

section \<open>Characters\<close>

type_synonym leading_zeros = "32 word \<Rightarrow> nat"

definition isWideChar :: "32 word \<Rightarrow> bool" where
  "isWideChar ch \<longleftrightarrow> ch \<noteq> 0x303F \<and>
     (0x1100 \<le> ch \<and> ch \<le> 0x115F \<or> 0x2329 \<le> ch \<and> ch \<le> 0x232A \<or> 0x2E80 \<le> ch \<and> ch \<le> 0xA4C6
      \<or> 0xA960 \<le> ch \<and> ch \<le> 0xA97C \<or> 0xAC00 \<le> ch \<and> ch \<le> 0xD7FB \<or> 0xF900 \<le> ch \<and> ch \<le> 0xFAFF
      \<or> 0xFE10 \<le> ch \<and> ch \<le> 0xFE6B \<or> 0xFF01 \<le> ch \<and> ch \<le> 0xFF60 \<or> 0xFFE0 \<le> ch \<and> ch \<le> 0xFFE6
      \<or> 0x1B000 \<le> ch)"

definition unsigned_char :: "char \<Rightarrow> 32 word" where
  "unsigned_char c = of_char c"

text \<open>The continuation bytes at the start of a string: the code point with them, and how many there are.\<close>

fun continuation :: "string \<Rightarrow> 32 word \<Rightarrow> 32 word \<times> nat" where
  "continuation [] ch = (ch, 0)"
| "continuation (c # cs) ch =
     (if unsigned_char c XOR 0x80 \<le> 0x3F
      then let (ch, n) = continuation cs (push_bit 6 ch XOR unsigned_char c XOR 0x80) in (ch, Suc n)
      else (ch, 0))"

text \<open>
  A character by its first byte and what follows: whether it is wide and its further bytes. For the
  byte 0xFF, which begins no character, the code calls \<open>__builtin_clz (0)\<close>, whose result is whatever
  the parameter gives.
\<close>

definition decode :: "leading_zeros \<Rightarrow> char \<Rightarrow> string \<Rightarrow> bool \<times> nat" where
  "decode clz c cs =
     (if unsigned_char c > 0xC1
      then let mask = drop_bit (clz (unsigned_char c XOR 0xFF)) (- 1);
               (ch, n) = continuation cs (unsigned_char c AND mask)
           in (ch \<ge> 0x1100 \<and> isWideChar ch, n)
      else (False, 0))"

text \<open>\<open>update_length\<close>: the bytes and the screen columns of a part, which ends at a separator.\<close>

definition separator :: "char \<Rightarrow> bool" where
  "separator c \<longleftrightarrow> c = CHR 0x0B \<or> c = CHR 0x09 \<or> c = CHR 0x0A"

function part_length :: "leading_zeros \<Rightarrow> string \<Rightarrow> nat \<times> nat" where
  "part_length clz [] = (0, 0)"
| "part_length clz (c # cs) =
     (if separator c then (0, 0)
      else let (wide, n) = decode clz c cs;
               (len, screenlen) = part_length clz (drop n cs)
           in (Suc n + len, (if wide then 2 else 1) + screenlen))"
  by pat_completeness auto
termination by (relation "measure (length \<circ> snd)") (auto simp: le_imp_less_Suc)

section \<open>The line wrapper\<close>

text \<open>A ring buffer of 16 lines to write; \<open>buf_tail\<close> is the index of the next line less one.\<close>

definition bufmask :: nat where
  "bufmask = 15"

record LineWrapper =
  lenbuf :: "nat \<Rightarrow> nat option"
  datbuf :: "nat \<Rightarrow> string option"
  wrap_x :: int
  wrap_width :: int
  buf_head :: nat
  buf_tail :: nat
  wrote_something :: bool

definition new_LineWrapper :: "int \<Rightarrow> int \<Rightarrow> LineWrapper" where
  "new_LineWrapper x1 x2 =
     \<lparr>lenbuf = (\<lambda>_. None), datbuf = (\<lambda>_. None), wrap_x = x1, wrap_width = (if x2 - x1 < 2 then 2 else x2 - x1),
      buf_head = 0, buf_tail = bufmask, wrote_something = False\<rparr>"

definition buf_empty :: "LineWrapper \<Rightarrow> bool" where
  "buf_empty w \<longleftrightarrow> (buf_tail w + 1) AND bufmask = buf_head w"

definition buf_full :: "LineWrapper \<Rightarrow> bool" where
  "buf_full w \<longleftrightarrow> buf_tail w = buf_head w"

definition buf_store :: "string \<Rightarrow> nat \<Rightarrow> LineWrapper \<Rightarrow> LineWrapper" where
  "buf_store data len w =
     w\<lparr>lenbuf := (lenbuf w)(buf_head w \<mapsto> len), datbuf := (datbuf w)(buf_head w \<mapsto> data),
       buf_head := (buf_head w + 1) AND bufmask\<rparr>"

definition buf_next :: "LineWrapper \<Rightarrow> LineWrapper" where
  "buf_next w = w\<lparr>buf_tail := (buf_tail w + 1) AND bufmask\<rparr>"

definition write_one_line :: "LineWrapper \<Rightarrow> string \<Rightarrow> (LineWrapper \<times> string) option" where
  "write_one_line w out =
     (let out = (if wrote_something w then snd (indent (out @ newline) 0 (wrap_x w)) else out)
      in do {
        (w, out) \<leftarrow>
          (if \<not> buf_empty w
           then let w = buf_next w
                in do {
                  data \<leftarrow> datbuf w (buf_tail w);
                  len \<leftarrow> lenbuf w (buf_tail w);
                  Some (w, write_text out data len)
                }
           else Some (w, out));
        Some (w\<lparr>wrote_something := True\<rparr>, out)
      })"

definition wrap_output :: "string \<Rightarrow> nat \<Rightarrow> LineWrapper \<Rightarrow> string \<Rightarrow> (LineWrapper \<times> string) option" where
  "wrap_output data len w out =
     do {
       (w, out) \<leftarrow> (if buf_full w then write_one_line w out else Some (w, out));
       Some (buf_store data len w, out)
     }"

partial_function (option) flush_lines :: "LineWrapper \<Rightarrow> string \<Rightarrow> (LineWrapper \<times> string) option" where
  "flush_lines w out =
     (if buf_empty w then Some (w, out)
      else do { (w, out) \<leftarrow> write_one_line w out; flush_lines w out })"

definition flush :: "LineWrapper \<Rightarrow> string \<Rightarrow> (LineWrapper \<times> string) option" where
  "flush w out =
     (if buf_empty w then Some (w, out)
      else do {
        (w, out) \<leftarrow> flush_lines (w\<lparr>wrote_something := False\<rparr>) (snd (indent out 0 (wrap_x w)));
        Some (w, out @ newline)
      })"

text \<open>How many bytes of a text fit into the width; \<open>maxi\<close> bytes of \<open>utf8width\<close> columns precede it.\<close>

function bytes_that_fit :: "leading_zeros \<Rightarrow> int \<Rightarrow> string \<Rightarrow> int \<Rightarrow> nat \<Rightarrow> nat" where
  "bytes_that_fit clz width [] utf8width maxi = maxi"
| "bytes_that_fit clz width (c # cs) utf8width maxi =
     (if utf8width < width
      then let (wide, n) = decode clz c cs
           in if wide \<and> utf8width + 2 > width then maxi
              else bytes_that_fit clz width (drop n cs) (utf8width + (if wide then 2 else 1)) (maxi + Suc n)
      else maxi)"
  by pat_completeness auto
termination by (relation "measure (\<lambda>(_, _, s, _, _). length s)") (auto simp: le_imp_less_Suc)

text \<open>The search for a space, backwards.\<close>

fun space_before :: "string \<Rightarrow> nat \<Rightarrow> nat option" where
  "space_before data 0 = (if string_at data 0 = CHR '' '' then Some 0 else None)"
| "space_before data (Suc i) = (if string_at data (Suc i) = CHR '' '' then Some (Suc i) else space_before data i)"

text \<open>The loop of \<open>process\<close>.\<close>

partial_function (option) wrap_lines ::
  "leading_zeros \<Rightarrow> LineWrapper \<Rightarrow> string \<Rightarrow> nat \<Rightarrow> string \<Rightarrow> (LineWrapper \<times> string) option" where
  "wrap_lines clz w data len out =
     (if len = 0 then Some (w, out)
      else if int len \<le> wrap_width w then wrap_output data len w out
      else
        let maxi = bytes_that_fit clz (wrap_width w) (take len data) 0 0
        in if maxi = len then wrap_output data len w out
           else
             let (line, rest) = (case space_before data maxi of Some i \<Rightarrow> (i, i + 1) | None \<Rightarrow> (maxi, maxi))
             in do {
               (w, out) \<leftarrow> wrap_output data line w out;
               wrap_lines clz w (drop rest data) (len - rest) out
             })"

declare flush_lines.simps [code] wrap_lines.simps [code]

definition wrap_process ::
  "leading_zeros \<Rightarrow> LineWrapper \<Rightarrow> string \<Rightarrow> nat \<Rightarrow> string \<Rightarrow> (LineWrapper \<times> string) option" where
  "wrap_process clz w data len out =
     do {
       (w, out) \<leftarrow> wrap_lines clz (w\<lparr>wrote_something := False\<rparr>) data len out;
       if \<not> wrote_something w then write_one_line w out else Some (w, out)
     }"

end
