(* ===== verification/Usage_Printing.thy ===== *)
theory Usage_Printing
  imports Usage_Text "HOL-Library.Signed_Division"
begin

text \<open>
  The usage message (\<open>PrintUsageImplementation\<close> in \<open>optionparser.h\<close>): the iterator over the parts of the
  help texts and \<open>printUsage\<close> with its tables of columns.
\<close>

section \<open>The iterator over parts\<close>

text \<open>
  \<open>tablestart\<close> and \<open>rowdesc\<close> point into the array of descriptors: they are the rest of it, whose last
  element, not in the list, has neither a short option nor a help text. \<open>rowstart\<close> and \<open>part_ptr\<close> point
  into a help text. The constructor leaves \<open>screenlen\<close> unset, and nothing reads it before it is set.
\<close>

record LinePartIterator =
  tablestart :: "Descriptor list"
  rowdesc :: "Descriptor list option"
  rowstart :: "string option"
  part_ptr :: "string option"
  part_col :: int
  part_len :: nat
  screenlen :: nat
  max_line_in_block :: nat
  line_in_block :: nat
  target_line_in_block :: nat
  hit_target_line :: bool

definition new_LinePartIterator :: "Descriptor list \<Rightarrow> LinePartIterator" where
  "new_LinePartIterator usage =
     \<lparr>tablestart = usage, rowdesc = None, rowstart = None, part_ptr = None, part_col = - 1, part_len = 0, screenlen = 0,
      max_line_in_block = 0, line_in_block = 0, target_line_in_block = 0, hit_target_line = True\<rparr>"

definition help_at :: "Descriptor list \<Rightarrow> string option" where
  "help_at ds = (case ds of [] \<Rightarrow> None | d # _ \<Rightarrow> help_text d)"

definition update_length :: "leading_zeros \<Rightarrow> string \<Rightarrow> LinePartIterator \<Rightarrow> LinePartIterator" where
  "update_length clz p it =
     (let (len, scr) = part_length clz p in it\<lparr>part_ptr := Some p, part_len := len, screenlen := scr\<rparr>)"

definition restartTable :: "LinePartIterator \<Rightarrow> LinePartIterator" where
  "restartTable it =
     it\<lparr>rowdesc := Some (tablestart it), rowstart := help_at (tablestart it), part_ptr := None\<rparr>"

definition nextTable :: "LinePartIterator \<Rightarrow> bool \<times> LinePartIterator" where
  "nextTable it =
     (let start = (if rowdesc it \<noteq> None then dropWhile (\<lambda>d. help_text d \<noteq> None) (tablestart it) else tablestart it);
          it = restartTable (it\<lparr>tablestart := dropWhile (\<lambda>d. help_text d = None) start\<rparr>)
      in (rowstart it \<noteq> None, it))"

definition restartRow :: "LinePartIterator \<Rightarrow> LinePartIterator" where
  "restartRow it =
     it\<lparr>part_ptr := rowstart it, part_col := - 1, part_len := 0, screenlen := 0, max_line_in_block := 0,
        line_in_block := 0, target_line_in_block := 0, hit_target_line := True\<rparr>"

definition nextRow :: "LinePartIterator \<Rightarrow> bool \<times> LinePartIterator" where
  "nextRow it =
     (case part_ptr it of
        None \<Rightarrow> (rowstart it \<noteq> None, restartRow it)
      | Some p \<Rightarrow>
          (case dropWhile (\<lambda>c. c \<noteq> CHR 0x0A) p of
             [] \<Rightarrow>
               (case rowdesc it of
                  Some (_ # ds) \<Rightarrow>
                    if help_at ds = None then (False, it\<lparr>part_ptr := Some []\<rparr>)
                    else (True, restartRow (it\<lparr>rowdesc := Some ds, rowstart := help_at ds\<rparr>))
                | _ \<Rightarrow> (False, it\<lparr>part_ptr := Some []\<rparr>))
           | _ # row \<Rightarrow> (True, restartRow (it\<lparr>rowstart := Some row\<rparr>))))"

text \<open>
  The loop of \<open>next\<close> from the string \<open>p\<close>. A row is scanned once for every line of its block; \<open>lines_left\<close>
  bounds the scans to come.
\<close>

definition vertical_tabs :: "string \<Rightarrow> nat" where
  "vertical_tabs s = length (filter (\<lambda>c. c = CHR 0x0B) s)"

definition lines_left :: "string \<Rightarrow> LinePartIterator \<Rightarrow> nat" where
  "lines_left p it =
     Suc (max (max_line_in_block it) (max (line_in_block it + vertical_tabs p)
       (case rowstart it of None \<Rightarrow> 0 | Some r \<Rightarrow> vertical_tabs r))) - target_line_in_block it"

lemma vertical_tabs_simps [simp]:
  "vertical_tabs [] = 0" "vertical_tabs (c # cs) = (if c = CHR 0x0B then Suc (vertical_tabs cs) else vertical_tabs cs)"
  by (simp_all add: vertical_tabs_def)

function part_loop :: "leading_zeros \<Rightarrow> LinePartIterator \<Rightarrow> string \<Rightarrow> (bool \<times> LinePartIterator) option" where
  "part_loop clz it [] =
     (if \<not> hit_target_line it then Some (True, (update_length clz [] it)\<lparr>hit_target_line := True\<rparr>)
      else
        let it = it\<lparr>target_line_in_block := Suc (target_line_in_block it)\<rparr>
        in if target_line_in_block it > max_line_in_block it then Some (False, update_length clz [] it)
           else (case rowstart it of
                   None \<Rightarrow> None
                 | Some row \<Rightarrow> part_loop clz (it\<lparr>hit_target_line := False, line_in_block := 0, part_col := 0\<rparr>) row))"
| "part_loop clz it (c # p) =
     (if c = CHR 0x0B then
        let it = it\<lparr>line_in_block := Suc (line_in_block it),
                    max_line_in_block := max (max_line_in_block it) (Suc (line_in_block it))\<rparr>
        in if line_in_block it = target_line_in_block it
           then Some (True, (update_length clz p it)\<lparr>hit_target_line := True\<rparr>)
           else part_loop clz it p
      else if c = CHR 0x09 then
        if \<not> hit_target_line it then Some (True, (update_length clz (c # p) it)\<lparr>hit_target_line := True\<rparr>)
        else
          let it = it\<lparr>hit_target_line := False, line_in_block := 0, part_col := part_col it + 1\<rparr>
          in if line_in_block it = target_line_in_block it
             then Some (True, (update_length clz p it)\<lparr>hit_target_line := True\<rparr>)
             else part_loop clz it p
      else if c = CHR 0x0A then
        if \<not> hit_target_line it then Some (True, (update_length clz (c # p) it)\<lparr>hit_target_line := True\<rparr>)
        else
          let it = it\<lparr>target_line_in_block := Suc (target_line_in_block it)\<rparr>
          in if target_line_in_block it > max_line_in_block it then Some (False, update_length clz (c # p) it)
             else (case rowstart it of
                     None \<Rightarrow> None
                   | Some row \<Rightarrow> part_loop clz (it\<lparr>hit_target_line := False, line_in_block := 0, part_col := 0\<rparr>) row)
      else part_loop clz it p)"
  by pat_completeness auto
termination
  by (relation "measures [\<lambda>(_, it, p). lines_left p it, \<lambda>(_, it, p). length p]")
    (auto simp: lines_left_def less_diff_conv max_def split: option.split if_splits)

definition next_part :: "leading_zeros \<Rightarrow> LinePartIterator \<Rightarrow> (bool \<times> LinePartIterator) option" where
  "next_part clz it =
     (case part_ptr it of
        None \<Rightarrow> Some (False, it)
      | Some p \<Rightarrow>
          if part_col it = - 1 then Some (True, update_length clz p (it\<lparr>part_col := 0\<rparr>))
          else part_loop clz it (drop (part_len it) p))"

section \<open>Loops over parts, rows and tables\<close>

text \<open>A loop carries a state of its own; the body of a loop over rows and tables also moves the iterator.\<close>

partial_function (option) while_next ::
  "leading_zeros \<Rightarrow> (LinePartIterator \<Rightarrow> 's \<Rightarrow> 's option) \<Rightarrow> LinePartIterator \<Rightarrow> 's \<Rightarrow> (LinePartIterator \<times> 's) option" where
  "while_next clz body it s =
     do {
       (more, it) \<leftarrow> next_part clz it;
       if more then do { s \<leftarrow> body it s; while_next clz body it s } else Some (it, s)
     }"

partial_function (option) while_nextRow ::
  "(LinePartIterator \<Rightarrow> 's \<Rightarrow> (LinePartIterator \<times> 's) option) \<Rightarrow> LinePartIterator \<Rightarrow> 's \<Rightarrow> (LinePartIterator \<times> 's) option" where
  "while_nextRow body it s =
     (let (more, it) = nextRow it
      in if more then do { (it, s) \<leftarrow> body it s; while_nextRow body it s } else Some (it, s))"

partial_function (option) while_nextTable ::
  "(LinePartIterator \<Rightarrow> 's \<Rightarrow> (LinePartIterator \<times> 's) option) \<Rightarrow> LinePartIterator \<Rightarrow> 's \<Rightarrow> (LinePartIterator \<times> 's) option" where
  "while_nextTable body it s =
     (let (more, it) = nextTable it
      in if more then do { (it, s) \<leftarrow> body it s; while_nextTable body it s } else Some (it, s))"

declare while_next.simps [code] while_nextRow.simps [code] while_nextTable.simps [code]

section \<open>Columns\<close>

definition maxcolumns :: nat where
  "maxcolumns = 8"

definition array_get :: "'a list \<Rightarrow> int \<Rightarrow> 'a option" where
  "array_get xs i = (if 0 \<le> i \<and> i < int (length xs) then Some (xs ! nat i) else None)"

text \<open>A part of a row with separators, which takes part in the layout.\<close>

definition tabular :: "LinePartIterator \<Rightarrow> bool option" where
  "tabular it =
     (if part_col it > 0 \<or> target_line_in_block it > 0 then Some True
      else do {
        p \<leftarrow> part_ptr it;
        Some (string_at p (part_len it) = CHR 0x09 \<or> string_at p (part_len it) = CHR 0x0B)
      })"

text \<open>The last column and the width of each, without the parts that are as long as the threshold.\<close>

definition measure_part :: "int \<Rightarrow> LinePartIterator \<Rightarrow> int \<times> nat list \<Rightarrow> (int \<times> nat list) option" where
  "measure_part overlong_column_threshold it s =
     (let (lastcolumn, col_width) = s
      in if part_col it < int maxcolumns
         then let lastcolumn = max lastcolumn (part_col it)
              in if int (screenlen it) < overlong_column_threshold
                 then do {
                   aligned \<leftarrow> tabular it;
                   if aligned
                   then do {
                     w \<leftarrow> array_get col_width (part_col it);
                     Some (lastcolumn, col_width[nat (part_col it) := max w (screenlen it)])
                   }
                   else Some (lastcolumn, col_width)
                 }
                 else Some (lastcolumn, col_width)
         else Some (lastcolumn, col_width))"

text \<open>
  Columns that do not fit are measured again without their longest parts. The arrays have \<open>maxcolumns\<close>
  elements and \<open>lastcolumn\<close> is less.
\<close>

partial_function (option) column_widths ::
  "leading_zeros \<Rightarrow> int \<Rightarrow> LinePartIterator \<Rightarrow> int \<Rightarrow> (LinePartIterator \<times> int \<times> nat list) option" where
  "column_widths clz width it overlong_column_threshold =
     do {
       (it, lastcolumn, col_width) \<leftarrow>
         while_nextRow (while_next clz (measure_part overlong_column_threshold)) (restartTable it)
           (0, replicate maxcolumns 0);
       let left = take (nat lastcolumn) col_width;
       if int (sum_list left) > width then column_widths clz width it (int (fold max left 0))
       else Some (it, lastcolumn, col_width)
     }"

declare column_widths.simps [code]

definition tabstops :: "nat list \<Rightarrow> int list" where
  "tabstops col_width = map (\<lambda>i. int (sum_list (take i col_width))) [0..<maxcolumns]"

section \<open>Rows\<close>

text \<open>The settings of a table and the state of printing a row.\<close>

record layout =
  last_column :: int
  tab_stops :: "int list"
  own_line :: bool
  right_margin :: int

record printing =
  row_x :: int
  lastColumnLineWrapper :: LineWrapper
  interjectionLineWrapper :: LineWrapper
  printed :: string

definition print_part :: "leading_zeros \<Rightarrow> layout \<Rightarrow> LinePartIterator \<Rightarrow> printing \<Rightarrow> printing option" where
  "print_part clz L it s =
     (if part_col it > last_column L then Some s
      else
        let s = (if part_col it = 0
                 then s\<lparr>printed := (if row_x s \<ge> 0 then printed s @ newline else printed s), row_x := 0\<rparr> else s)
        in do {
          stop \<leftarrow> array_get (tab_stops L) (part_col it);
          data \<leftarrow> part_ptr it;
          aligned \<leftarrow> (if part_col it < last_column L then tabular it else Some False);
          let (x, out) = indent (printed s) (row_x s) stop;
          if aligned
          then Some (s\<lparr>row_x := x + int (screenlen it), printed := write_text out data (part_len it)\<rparr>)
          else if own_line L \<and> part_col it = last_column L then Some (s\<lparr>row_x := x, printed := out\<rparr>)
          else if part_col it = 0
          then do {
            (w, out) \<leftarrow> wrap_process clz (interjectionLineWrapper s) data (part_len it) out;
            Some (s\<lparr>row_x := x, interjectionLineWrapper := w, printed := out\<rparr>)
          }
          else do {
            (w, out) \<leftarrow> wrap_process clz (lastColumnLineWrapper s) data (part_len it) out;
            Some (s\<lparr>row_x := x, lastColumnLineWrapper := w, printed := out\<rparr>)
          }
        })"

definition print_own_line :: "leading_zeros \<Rightarrow> layout \<Rightarrow> LinePartIterator \<Rightarrow> printing \<Rightarrow> printing option" where
  "print_own_line clz L it s =
     (if part_col it = last_column L
      then do {
        data \<leftarrow> part_ptr it;
        let (_, out) = indent (printed s @ newline) 0 (right_margin L);
        (w, out) \<leftarrow> wrap_process clz (lastColumnLineWrapper s) data (part_len it) out;
        Some (s\<lparr>lastColumnLineWrapper := w, printed := out\<rparr>)
      }
      else Some s)"

definition print_row ::
  "leading_zeros \<Rightarrow> layout \<Rightarrow> LinePartIterator \<Rightarrow> printing \<Rightarrow> (LinePartIterator \<times> printing) option" where
  "print_row clz L it s =
     do {
       (it, s) \<leftarrow> while_next clz (print_part clz L) it (s\<lparr>row_x := - 1\<rparr>);
       (it, s) \<leftarrow> (if own_line L then while_next clz (print_own_line clz L) (restartRow it) s else Some (it, s));
       (w, out) \<leftarrow> flush (lastColumnLineWrapper s) (printed s @ newline);
       (v, out) \<leftarrow> flush (interjectionLineWrapper s) out;
       Some (it, s\<lparr>lastColumnLineWrapper := w, interjectionLineWrapper := v, printed := out\<rparr>)
     }"

section \<open>The usage message\<close>

text \<open>
  Division of \<open>int\<close> rounds towards zero. The product is exact here; in the code it may overflow for
  percentages far outside the documented range from 0 to 100.
\<close>

definition percent_of :: "int \<Rightarrow> int \<Rightarrow> int" where
  "percent_of width percent = (width * percent + 50) sdiv 100"

definition table_layout :: "int \<Rightarrow> int \<Rightarrow> int \<Rightarrow> int \<Rightarrow> nat list \<Rightarrow> (layout \<times> int) option" where
  "table_layout width last_column_min_width last_column_own_line_max_width lastcolumn col_width =
     do {
       stop \<leftarrow> array_get (tabstops col_width) lastcolumn;
       last_width \<leftarrow> array_get col_width lastcolumn;
       let rightwidth = width - stop;
       let own = (rightwidth < last_column_min_width \<and> (last_width = 0 \<or> rightwidth < int last_width));
       let rightwidth = (if own then last_column_own_line_max_width else rightwidth);
       Some (\<lparr>last_column = lastcolumn, tab_stops = tabstops col_width, own_line = own \<and> lastcolumn \<noteq> 0,
              right_margin = width - rightwidth\<rparr>, rightwidth)
     }"

definition print_table ::
  "leading_zeros \<Rightarrow> int \<Rightarrow> int \<Rightarrow> int \<Rightarrow> LinePartIterator \<Rightarrow> string \<Rightarrow> (LinePartIterator \<times> string) option" where
  "print_table clz width last_column_min_width last_column_own_line_max_width it out =
     do {
       (it, lastcolumn, col_width) \<leftarrow> column_widths clz width it 10000;
       (L, rightwidth) \<leftarrow> table_layout width last_column_min_width last_column_own_line_max_width lastcolumn col_width;
       (it, s) \<leftarrow> while_nextRow (print_row clz L) (restartTable it)
         \<lparr>row_x = - 1, lastColumnLineWrapper = new_LineWrapper (width - rightwidth) width,
          interjectionLineWrapper = new_LineWrapper 0 width, printed = out\<rparr>;
       Some (it, printed s)
     }"

definition printUsage :: "leading_zeros \<Rightarrow> Descriptor list \<Rightarrow> int \<Rightarrow> int \<Rightarrow> int \<Rightarrow> string \<Rightarrow> string option" where
  "printUsage clz usage width last_column_min_percent last_column_own_line_max_percent out =
     (let width = (if width < 1 then 80 else width);
          width = (if width > 10000 then 10000 else width);
          min_width = percent_of width last_column_min_percent;
          own_line_width = percent_of width last_column_own_line_max_percent;
          own_line_width = (if own_line_width = 0 then 1 else own_line_width)
      in map_option snd
           (while_nextTable (print_table clz width min_width own_line_width) (new_LinePartIterator usage) out))"

end
