(* ===== verification/Usage_Wrapping.thy ===== *)
theory Usage_Wrapping
  imports Usage_Text
begin

text \<open>
  The line wrapper against its contract: the ring buffer is a queue of at most 15 lines, the text is broken
  into lines that fit, and what is not written at once is written later and in order.
\<close>

section \<open>The buffer as a queue\<close>

lemma bufmask_mod: "n AND bufmask = n mod 16"
proof -
  have "bufmask = mask 4" by (simp add: bufmask_def mask_eq_exp_minus_1)
  then have "n AND bufmask = take_bit 4 n" by (simp only: take_bit_eq_mask)
  then show ?thesis by (simp add: take_bit_eq_mod)
qed

lemma ring_index:
  assumes "i < 16" "j < 16"
  shows "(a + i) mod 16 = (a + j) mod (16 :: nat) \<longleftrightarrow> i = j"
proof -
  have "(a + j) mod 16 = (a + i) mod 16 \<Longrightarrow> i = j" if "i \<le> j" "j < 16" for i j
  proof -
    assume "(a + j) mod 16 = (a + i) mod 16"
    then have "16 dvd j - i" using mod_eq_dvd_iff_nat [of "a + i" "a + j" 16] that by simp
    then show "i = j" using that nat_dvd_not_less [of "j - i" 16] by fastforce
  qed
  from this [of i j] this [of j i] assms show ?thesis by (cases "i \<le> j") auto
qed

lemma suc_mod: "Suc (Suc t mod 16 + k) mod 16 = Suc (Suc (t + k)) mod (16 :: nat)"
  by (metis add_Suc mod_Suc_eq mod_add_left_eq)

definition queued :: "LineWrapper \<Rightarrow> string list \<Rightarrow> bool" where
  "queued w q \<longleftrightarrow> length q \<le> bufmask \<and> buf_tail w < 16 \<and> buf_head w = (buf_tail w + 1 + length q) mod 16
     \<and> (\<forall>k<length q. \<exists>d n. datbuf w ((buf_tail w + 1 + k) mod 16) = Some d
          \<and> lenbuf w ((buf_tail w + 1 + k) mod 16) = Some n \<and> q ! k = take n d)"

lemma queued_new: "queued (new_LineWrapper x1 x2) []"
  by (simp add: queued_def new_LineWrapper_def bufmask_def)

lemma queued_empty: "queued w q \<Longrightarrow> buf_empty w \<longleftrightarrow> q = []"
proof -
  assume q: "queued w q"
  then have "length q < 16" by (simp add: queued_def bufmask_def)
  then show ?thesis
    using q ring_index [of 0 "length q" "buf_tail w + 1"] unfolding queued_def buf_empty_def bufmask_mod by simp
qed

lemma queued_full: "queued w q \<Longrightarrow> buf_full w \<longleftrightarrow> length q = bufmask"
proof -
  assume q: "queued w q"
  then have t: "buf_tail w = (buf_tail w + 1 + 15) mod 16" by (simp add: queued_def)
  show ?thesis
    using q ring_index [of 15 "length q" "buf_tail w + 1"] unfolding buf_full_def queued_def t [symmetric]
    by (auto simp: bufmask_def)
qed

lemma queued_store:
  assumes q: "queued w q" and room: "length q < bufmask"
  shows "queued (buf_store d n w) (q @ [take n d])"
proof -
  have t: "buf_tail w < 16" "length q < 15" and h: "buf_head w = (buf_tail w + 1 + length q) mod 16"
    using q room by (simp_all add: queued_def bufmask_def)
  have other: "(buf_tail w + 1 + k) mod 16 \<noteq> buf_head w" if "k < length q" for k
    using that t ring_index [of k "length q" "buf_tail w + 1"] unfolding h by simp
  have "(buf_head w + 1) mod 16 = (buf_tail w + 1 + length (q @ [take n d])) mod 16"
    unfolding h by (simp add: mod_simps)
  then show ?thesis
    using q t other h unfolding queued_def buf_store_def bufmask_mod
    by (auto simp: bufmask_def nth_append less_Suc_eq)
qed

lemma queued_next:
  assumes q: "queued w (l # q)"
  shows "queued (buf_next w) q"
    "\<exists>d n. datbuf w (buf_tail (buf_next w)) = Some d \<and> lenbuf w (buf_tail (buf_next w)) = Some n \<and> l = take n d"
proof -
  have t: "buf_tail (buf_next w) = (buf_tail w + 1) mod 16" by (simp add: buf_next_def bufmask_mod)
  have at: "\<exists>d n. datbuf w ((buf_tail w + 1 + k) mod 16) = Some d \<and> lenbuf w ((buf_tail w + 1 + k) mod 16) = Some n
      \<and> (l # q) ! k = take n d" if "k < length (l # q)" for k
    using q that unfolding queued_def by blast
  show "\<exists>d n. datbuf w (buf_tail (buf_next w)) = Some d \<and> lenbuf w (buf_tail (buf_next w)) = Some n \<and> l = take n d"
    using at [of 0] by (simp add: t)
  have "\<exists>d n. datbuf w (((buf_tail w + 1) mod 16 + 1 + k) mod 16) = Some d
      \<and> lenbuf w (((buf_tail w + 1) mod 16 + 1 + k) mod 16) = Some n \<and> q ! k = take n d" if "k < length q" for k
    using at [of "Suc k"] that by (simp add: mod_simps suc_mod)
  moreover have "buf_head w = ((buf_tail w + 1) mod 16 + 1 + length q) mod 16"
    using q by (simp add: queued_def suc_mod)
  ultimately show "queued (buf_next w) q"
    using q by (simp add: queued_def buf_next_def bufmask_mod)
qed

lemma queued_wrote [simp]: "queued (w\<lparr>wrote_something := b\<rparr>) q \<longleftrightarrow> queued w q"
  by (simp add: queued_def)

section \<open>Written lines\<close>

text \<open>The indentation of a line, and lines with their breaks.\<close>

definition margin :: "int \<Rightarrow> string" where
  "margin x = snd (indent [] 0 x)"

lemma indent_margin: "snd (indent out 0 x) = out @ margin x"
  by (simp add: margin_def indent_def)

fun lines_text :: "int \<Rightarrow> bool \<Rightarrow> string list \<Rightarrow> string" where
  "lines_text x wrote [] = []"
| "lines_text x wrote (l # ls) = (if wrote then newline @ margin x else []) @ l @ lines_text x True ls"

lemma lines_text_append: "lines_text x b (ls @ ms) = lines_text x b ls @ lines_text x (b \<or> ls \<noteq> []) ms"
  by (induction ls arbitrary: b) simp_all

text \<open>What an operation of the wrapper keeps.\<close>

definition same_margins :: "LineWrapper \<Rightarrow> LineWrapper \<Rightarrow> bool" where
  "same_margins w w' \<longleftrightarrow> wrap_x w' = wrap_x w \<and> wrap_width w' = wrap_width w"

lemma same_margins_simps [simp]:
  "same_margins w w" "same_margins w (w'\<lparr>wrote_something := b\<rparr>) \<longleftrightarrow> same_margins w w'"
  "same_margins (w\<lparr>wrote_something := b\<rparr>) w' \<longleftrightarrow> same_margins w w'"
  "same_margins w (buf_next w') \<longleftrightarrow> same_margins w w'" "same_margins w (buf_store d n w') \<longleftrightarrow> same_margins w w'"
  by (simp_all add: same_margins_def buf_next_def buf_store_def)

lemma same_marginsD: "same_margins w w' \<Longrightarrow> wrap_x w' = wrap_x w \<and> wrap_width w' = wrap_width w"
  by (simp add: same_margins_def)

lemma write_one_line_queued:
  assumes "queued w q"
  obtains w' where "write_one_line w out = Some (w', out @ (if q = [] \<and> wrote_something w then newline @ margin (wrap_x w)
      else lines_text (wrap_x w) (wrote_something w) (take 1 q)))"
    "queued w' (drop 1 q)" "wrote_something w'" "same_margins w w'"
proof (cases q)
  case Nil
  then show thesis using assms queued_empty [OF assms] that [of "w\<lparr>wrote_something := True\<rparr>"]
    by (auto simp: write_one_line_def indent_margin)
next
  case (Cons l ls)
  obtain d n where "datbuf w (buf_tail (buf_next w)) = Some d" "lenbuf w (buf_tail (buf_next w)) = Some n" "l = take n d"
    using queued_next(2) assms unfolding Cons by blast
  moreover have "datbuf (buf_next w) = datbuf w" "lenbuf (buf_next w) = lenbuf w" by (simp_all add: buf_next_def)
  moreover have "queued (buf_next w) ls" using queued_next(1) assms unfolding Cons by blast
  ultimately show thesis
    using queued_empty [OF assms] that [of "(buf_next w)\<lparr>wrote_something := True\<rparr>"]
    by (simp add: Cons write_one_line_def indent_margin Let_def write_text_def)
qed

lemma wrap_output_queued:
  assumes q: "queued w q" "length q = bufmask \<longrightarrow> q \<noteq> []"
  obtains w' where
    "wrap_output d n w out = Some (w', out @ lines_text (wrap_x w) (wrote_something w) (take (Suc (length q) - bufmask) q))"
    "queued w' (drop (Suc (length q) - bufmask) q @ [take n d])"
    "wrote_something w' \<longleftrightarrow> wrote_something w \<or> length q = bufmask" "same_margins w w'"
proof (cases "length q = bufmask")
  case True
  obtain w1 where w1: "write_one_line w out = Some (w1, out @ (if q = [] \<and> wrote_something w then newline @ margin (wrap_x w)
      else lines_text (wrap_x w) (wrote_something w) (take 1 q)))"
    "queued w1 (drop 1 q)" "wrote_something w1" "same_margins w w1"
    by (rule write_one_line_queued [OF q(1)])
  have "queued (buf_store d n w1) (drop 1 q @ [take n d])"
    by (rule queued_store [OF w1(2)]) (simp add: True bufmask_def)
  then show thesis
    using that [of "buf_store d n w1"] w1 queued_full [OF q(1)] q(2) True
    by (simp add: wrap_output_def buf_store_def same_margins_def)
next
  case False
  then have "length q < bufmask" using q(1) by (simp add: queued_def)
  then show thesis
    using that [of "buf_store d n w"] queued_full [OF q(1)] queued_store [OF q(1), of d n] False
    by (simp add: wrap_output_def) (simp add: buf_store_def)
qed

section \<open>Characters that fit\<close>

text \<open>The screen columns of a text.\<close>

function screen_columns :: "leading_zeros \<Rightarrow> string \<Rightarrow> nat" where
  "screen_columns clz [] = 0"
| "screen_columns clz (c # cs) =
     (let (wide, n) = decode clz c cs in (if wide then 2 else 1) + screen_columns clz (drop n cs))"
  by pat_completeness auto
termination by (relation "measure (length \<circ> snd)") (auto simp: le_imp_less_Suc)

definition continues :: "char \<Rightarrow> bool" where
  "continues c \<longleftrightarrow> unsigned_char c XOR 0x80 \<le> 0x3F"

lemma continuation_length: "snd (continuation cs ch) \<le> length cs"
  by (induction cs ch rule: continuation.induct) (auto simp: split_beta)

lemma decode_length: "decode clz c cs = (wide, n) \<Longrightarrow> n \<le> length cs"
  using continuation_length [of cs] by (auto simp: decode_def Let_def split_beta split: if_splits)

lemma continuation_append: "b = [] \<or> \<not> continues (hd b) \<Longrightarrow> continuation (cs @ b) ch = continuation cs ch"
proof (induction cs ch rule: continuation.induct)
  case (1 ch)
  then show ?case by (cases b) (auto simp: continues_def)
qed (auto simp: split_beta)

lemma continuation_take: "snd (continuation cs ch) \<le> i \<Longrightarrow> continuation (take i cs) ch = continuation cs ch"
proof (induction cs ch arbitrary: i rule: continuation.induct)
  case (2 c cs ch)
  then show ?case by (cases i) (auto simp: split_beta split: if_split_asm)
qed simp

lemma decode_append: "b = [] \<or> \<not> continues (hd b) \<Longrightarrow> decode clz c (cs @ b) = decode clz c cs"
  by (simp add: decode_def continuation_append)

lemma decode_take: "decode clz c cs = (wide, n) \<Longrightarrow> n \<le> i \<Longrightarrow> decode clz c (take i cs) = (wide, n)"
  using continuation_take [of cs] by (auto simp: decode_def Let_def split_beta split: if_splits)

lemma decode_wide: "decode clz c cs = (True, n) \<Longrightarrow> 0 < n"
proof -
  have small: "unsigned_char c AND m < 0x1100" for m
  proof -
    have "unsigned_char c AND m \<le> unsigned_char c" by (rule word_and_le2)
    also have "unsigned_char c < 0x1100"
    proof -
      have "(of_char c :: nat) < 256" by (cases c) (simp split: if_splits)
      then have "(of_char c :: nat) mod 2 ^ 32 < 4352" by (rule le_less_trans [OF mod_less_eq_dividend less_trans]) simp
      moreover have "unsigned_char c = of_nat (of_char c :: nat)" by (simp add: unsigned_char_def of_char_def)
      then have "unat (unsigned_char c) = (of_char c :: nat) mod 2 ^ 32" by (simp only: unat_of_nat) simp
      ultimately show ?thesis unfolding word_less_nat_alt by simp
    qed
    finally show ?thesis .
  qed
  have "fst (continuation cs ch) = ch" if "snd (continuation cs ch) = 0" for ch
    using that by (cases cs) (auto simp: split_beta split: if_splits)
  moreover assume "decode clz c cs = (True, n)"
  then obtain m where "0x1100 \<le> fst (continuation cs (unsigned_char c AND m))" "n = snd (continuation cs (unsigned_char c AND m))"
    by (auto simp: decode_def Let_def split_beta split: if_splits)
  ultimately show "0 < n" using small [of m] by (metis gr0I leD)
qed

lemma screen_columns_append:
  "b = [] \<or> \<not> continues (hd b) \<Longrightarrow> screen_columns clz (a @ b) = screen_columns clz a + screen_columns clz b"
proof (induction clz a rule: screen_columns.induct)
  case (2 clz c cs)
  obtain wide n where d: "decode clz c cs = (wide, n)" by (metis prod.collapse)
  have "drop n (cs @ b) = drop n cs @ b" using decode_length [OF d] by simp
  then show ?case
    using "2.IH" [OF d [symmetric] refl "2.prems"] decode_append [OF "2.prems", of clz c cs] d by simp
qed simp

lemma screen_columns_space:
  assumes "i \<le> m" "m \<le> length s" "i < length s" "s ! i = CHR '' ''"
  shows "screen_columns clz (take i s) \<le> screen_columns clz (take m s)"
proof (cases "i = m")
  case False
  then have "take m s = take i s @ take (m - i) (drop i s)" using assms by (simp flip: take_add)
  moreover have "hd (take (m - i) (drop i s)) = CHR '' ''" using assms False by (simp add: hd_drop_conv_nth)
  moreover have "\<not> continues (CHR '' '')" by (simp add: continues_def unsigned_char_def)
  ultimately show ?thesis using screen_columns_append [of "take (m - i) (drop i s)" clz "take i s"] by simp
qed simp

lemma screen_columns_length: "screen_columns clz s \<le> length s"
proof (induction clz s rule: screen_columns.induct)
  case (2 clz c cs)
  obtain wide n where d: "decode clz c cs = (wide, n)" by (metis prod.collapse)
  have "screen_columns clz (drop n cs) \<le> length cs - n" using "2.IH" [OF d [symmetric] refl] by simp
  then show ?case using decode_length [OF d] decode_wide [of clz c cs n] d by (cases wide) auto
qed simp

lemma bytes_that_fit_spec:
  assumes "u \<le> width"
  shows "\<exists>k. bytes_that_fit clz width s u m = m + k \<and> k \<le> length s
    \<and> u + int (screen_columns clz (take k s)) \<le> width \<and> (s \<noteq> [] \<and> u + 2 \<le> width \<longrightarrow> 0 < k)"
  using assms
proof (induction clz width s u m rule: bytes_that_fit.induct)
  case (2 clz width c cs u m)
  obtain wide n where d: "decode clz c cs = (wide, n)" by (metis prod.collapse)
  show ?case
  proof (cases "u < width \<and> \<not> (wide \<and> u + 2 > width)")
    case True
    define u' where "u' = u + (if wide then 2 else 1)"
    have "u' \<le> width" using True by (auto simp: u'_def)
    then obtain k where k: "bytes_that_fit clz width (drop n cs) u' (m + Suc n) = m + Suc n + k"
      "k \<le> length (drop n cs)" "u' + int (screen_columns clz (take k (drop n cs))) \<le> width"
      using "2.IH" [OF _ d [symmetric] refl] True unfolding u'_def by blast
    have "screen_columns clz (take (Suc (n + k)) (c # cs)) = (if wide then 2 else 1) + screen_columns clz (take k (drop n cs))"
      using decode_take [OF d, of "n + k"] by (simp add: take_drop add.commute)
    then show ?thesis
      using True d k decode_length [OF d] by (intro exI [of _ "Suc (n + k)"]) (auto simp: u'_def)
  next
    case False
    then show ?thesis using "2.prems" d by (intro exI [of _ 0]) auto
  qed
qed simp

lemma bytes_that_fit_bounds:
  assumes "2 \<le> width"
  shows "bytes_that_fit clz width s 0 0 \<le> length s" "s \<noteq> [] \<Longrightarrow> 0 < bytes_that_fit clz width s 0 0"
    "int (screen_columns clz (take (bytes_that_fit clz width s 0 0) s)) \<le> width"
  using bytes_that_fit_spec [of 0 width clz s 0] assms by auto

lemma space_before_spec:
  "space_before s m = Some i \<Longrightarrow> i \<le> m \<and> i < length s \<and> s ! i = CHR '' ''"
proof (induction m)
  case (Suc m)
  then show ?case by (auto simp: string_at_def split: if_splits)
qed (auto simp: string_at_def split: if_splits)

lemma space_before_take: "m < n \<Longrightarrow> space_before (take n s) m = space_before s m"
  by (induction m) (auto simp: string_at_def)

section \<open>Breaking a text into lines\<close>

text \<open>
  The lines of a text: as many bytes as fit, up to the last space among them or right after them, which is
  dropped, or without a space all of them. The last case is only there for widths below 2.
\<close>

definition first_line :: "leading_zeros \<Rightarrow> int \<Rightarrow> string \<Rightarrow> nat \<times> nat" where
  "first_line clz width s =
     (let maxi = bytes_that_fit clz width s 0 0
      in if int (length s) \<le> width \<or> maxi = length s then (length s, length s)
         else (case space_before s maxi of Some i \<Rightarrow> (i, i + 1) | None \<Rightarrow> (maxi, maxi)))"

function break_lines :: "leading_zeros \<Rightarrow> int \<Rightarrow> string \<Rightarrow> string list" where
  "break_lines clz width s =
     (let (line, rest) = first_line clz width s
      in if s = [] then [] else if rest = 0 then [s] else take line s # break_lines clz width (drop rest s))"
  by pat_completeness auto
termination by (relation "measure (\<lambda>(_, _, s). length s)") auto

declare break_lines.simps [simp del]

lemma break_lines_Nil [simp]: "break_lines clz width [] = []"
  by (simp add: break_lines.simps split_beta)

lemma first_line_fits:
  assumes "2 \<le> width" "s \<noteq> []" "first_line clz width s = (line, rest)"
  shows "0 < rest" "line \<le> rest" "rest \<le> length s" "int (screen_columns clz (take line s)) \<le> width"
    "rest = line \<or> rest = Suc line \<and> line < length s \<and> s ! line = CHR '' ''"
proof -
  let ?m = "bytes_that_fit clz width s 0 0"
  note fit = bytes_that_fit_bounds [OF assms(1), where clz = clz and s = s]
  have "0 < rest \<and> line \<le> rest \<and> rest \<le> length s \<and> int (screen_columns clz (take line s)) \<le> width
    \<and> (rest = line \<or> rest = Suc line \<and> line < length s \<and> s ! line = CHR '' '')"
  proof (cases "int (length s) \<le> width \<or> ?m = length s")
    case True
    then have "line = length s" "rest = length s" using assms(3) by (auto simp: first_line_def)
    then show ?thesis using True fit(3) screen_columns_length [of clz s] assms(2) by auto
  next
    case False
    show ?thesis
    proof (cases "space_before s ?m")
      case None
      then show ?thesis using False assms(2,3) fit by (auto simp: first_line_def Let_def)
    next
      case (Some i)
      note i = space_before_spec [OF Some]
      have "screen_columns clz (take i s) \<le> screen_columns clz (take ?m s)"
        using i fit(1) by (intro screen_columns_space) auto
      then show ?thesis using False Some i assms(3) fit(3) by (auto simp: first_line_def Let_def)
    qed
  qed
  then show "0 < rest" "line \<le> rest" "rest \<le> length s" "int (screen_columns clz (take line s)) \<le> width"
    "rest = line \<or> rest = Suc line \<and> line < length s \<and> s ! line = CHR '' ''" by blast+
qed

lemma break_lines_step:
  assumes "2 \<le> width" "s \<noteq> []" "first_line clz width s = (line, rest)"
  shows "break_lines clz width s = take line s # break_lines clz width (drop rest s)"
  using first_line_fits(1) [OF assms] assms(2,3) by (simp add: break_lines.simps [of clz width s])

text \<open>The lines fit, and they are the text but for single spaces between them.\<close>

lemma break_lines_effect:
  assumes "2 \<le> width"
  shows "(\<forall>l\<in>set (break_lines clz width s). int (screen_columns clz l) \<le> width)
    \<and> (\<exists>seps. length seps = length (break_lines clz width s) \<and> set seps \<subseteq> {[], '' ''}
        \<and> concat (map2 (@) (break_lines clz width s) seps) = s)"
  using assms
proof (induction clz width s rule: break_lines.induct)
  case (1 clz width s)
  obtain line rest where f: "first_line clz width s = (line, rest)" by (metis prod.collapse)
  show ?case
  proof (cases "s = []")
    case False
    note fit = first_line_fits [OF "1.prems" False f] and step = break_lines_step [OF "1.prems" False f]
    have IH: "(\<forall>l\<in>set (break_lines clz width (drop rest s)). int (screen_columns clz l) \<le> width)
      \<and> (\<exists>seps. length seps = length (break_lines clz width (drop rest s)) \<and> set seps \<subseteq> {[], '' ''}
          \<and> concat (map2 (@) (break_lines clz width (drop rest s)) seps) = drop rest s)"
      using "1.IH" [OF f [symmetric] refl False] fit(1) "1.prems" by simp
    then obtain seps where seps: "length seps = length (break_lines clz width (drop rest s))" "set seps \<subseteq> {[], '' ''}"
      "concat (map2 (@) (break_lines clz width (drop rest s)) seps) = drop rest s" by blast
    define sep where "sep = (if rest = line then [] else '' '')"
    have "take line s @ sep @ drop rest s = s"
      using fit(5) id_take_nth_drop [of line s] by (auto simp: sep_def)
    then have "\<exists>seps. length seps = length (break_lines clz width s) \<and> set seps \<subseteq> {[], '' ''}
        \<and> concat (map2 (@) (break_lines clz width s) seps) = s"
      using seps by (intro exI [of _ "sep # seps"]) (auto simp: step sep_def)
    then show ?thesis using IH fit(4) by (simp add: step)
  qed simp
qed

section \<open>The operations of the wrapper\<close>

lemma wrap_lines_step:
  assumes "2 \<le> wrap_width w" "len \<noteq> 0" "len \<le> length data"
    and f: "first_line clz (wrap_width w) (take len data) = (line, rest)"
    and out: "wrap_output data line w out = Some (w1, out1)"
  shows "wrap_lines clz w data len out = wrap_lines clz w1 (drop rest data) (len - rest) out1"
proof -
  let ?s = "take len data"
  let ?m = "bytes_that_fit clz (wrap_width w) ?s 0 0"
  have s: "length ?s = len" using assms(3) by simp
  show ?thesis
  proof (cases "int len \<le> wrap_width w \<or> ?m = len")
    case True
    then have "line = len" "rest = len" using f s by (auto simp: first_line_def)
    then show ?thesis
      using out True assms(2) by (subst wrap_lines.simps, subst wrap_lines.simps) (auto simp: Let_def)
  next
    case False
    have "?m < len"
      using False bytes_that_fit_bounds(1) [OF assms(1), where clz = clz and s = ?s] s by linarith
    then have "space_before data ?m = space_before ?s ?m" by (simp add: space_before_take)
    then have "(case space_before data ?m of Some i \<Rightarrow> (i, i + 1) | None \<Rightarrow> (?m, ?m)) = (line, rest)"
      using f False s by (simp add: first_line_def Let_def)
    then show ?thesis
      using out False assms(2) by (subst wrap_lines.simps) (simp add: Let_def)
  qed
qed

text \<open>
  Lines that wait and lines to come: those beyond the capacity are written at once, the others wait.
\<close>

definition beyond :: "string list \<Rightarrow> nat" where
  "beyond ls = length ls - bufmask"

lemma wrap_lines_queued:
  assumes "2 \<le> wrap_width w" "queued w q" "len \<le> length data"
    and "ls = q @ break_lines clz (wrap_width w) (take len data)"
  shows "\<exists>w'. wrap_lines clz w data len out =
        Some (w', out @ lines_text (wrap_x w) (wrote_something w) (take (beyond ls) ls))
    \<and> queued w' (drop (beyond ls) ls) \<and> (wrote_something w' \<longleftrightarrow> wrote_something w \<or> 0 < beyond ls) \<and> same_margins w w'"
  using assms
proof (induction len arbitrary: w q data out ls rule: less_induct)
  case (less len)
  let ?s = "take len data" and ?width = "wrap_width w"
  have short: "length q \<le> bufmask" using less.prems(2) by (simp add: queued_def)
  show ?case
  proof (cases "len = 0")
    case True
    then show ?thesis using less.prems(2,4) short
      by (intro exI [of _ w]) (simp add: wrap_lines.simps beyond_def)
  next
    case False
    obtain line rest where f: "first_line clz ?width ?s = (line, rest)" by (metis prod.collapse)
    have s: "?s \<noteq> []" "length ?s = len" using False less.prems(3) by auto
    note fit = first_line_fits [OF less.prems(1) s(1) f]
    have line: "take line data = take line ?s" using fit(2,3) s(2) by (simp add: min_absorb1)
    define k where "k = Suc (length q) - bufmask"
    have k: "length (take k q) = k" "0 < k \<longleftrightarrow> length q = bufmask" using short by (auto simp: k_def bufmask_def)
    obtain w1 where out: "wrap_output data line w out = Some (w1, out @ lines_text (wrap_x w) (wrote_something w) (take k q))"
      and q1: "queued w1 (drop k q @ [take line ?s])"
      and wrote: "wrote_something w1 \<longleftrightarrow> wrote_something w \<or> length q = bufmask" and same: "same_margins w w1"
      by (rule wrap_output_queued [OF less.prems(2), of data line out]) (auto simp: k_def line bufmask_def)
    have m: "wrap_width w1 = ?width" "wrap_x w1 = wrap_x w" using same_marginsD [OF same] by simp_all
    define ms where "ms = (drop k q @ [take line ?s]) @ break_lines clz ?width (drop rest ?s)"
    have all: "ls = take k q @ ms"
      using break_lines_step [OF less.prems(1) s(1) f] less.prems(4) by (simp add: ms_def)
    have n: "beyond ls = k + beyond ms"
      unfolding all using k(1) short by (simp add: beyond_def ms_def k_def)
    have parts: "take (beyond ls) ls = take k q @ take (beyond ms) ms" "drop (beyond ls) ls = drop (beyond ms) ms"
      unfolding n unfolding all using k(1) by simp_all
    have "take (len - rest) (drop rest data) = drop rest ?s" by (simp add: drop_take)
    then have ms: "ms = (drop k q @ [take line ?s]) @ break_lines clz (wrap_width w1) (take (len - rest) (drop rest data))"
      by (simp add: ms_def m)
    have pre: "len - rest < len" "2 \<le> wrap_width w1" "len - rest \<le> length (drop rest data)"
      using fit(1,3) s(2) less.prems(1,3) m by auto
    obtain w2 where
      w2: "wrap_lines clz w1 (drop rest data) (len - rest) (out @ lines_text (wrap_x w) (wrote_something w) (take k q)) =
        Some (w2, (out @ lines_text (wrap_x w) (wrote_something w) (take k q))
          @ lines_text (wrap_x w1) (wrote_something w1) (take (beyond ms) ms))"
      "queued w2 (drop (beyond ms) ms)" "wrote_something w2 \<longleftrightarrow> wrote_something w1 \<or> 0 < beyond ms" "same_margins w1 w2"
    proof -
      from less.IH [OF pre(1,2) q1 pre(3) ms, of "out @ lines_text (wrap_x w) (wrote_something w) (take k q)"]
      show thesis by (elim exE conjE) (rule that, assumption+)
    qed
    have "wrote_something w1 \<longleftrightarrow> wrote_something w \<or> take k q \<noteq> []"
      using wrote k by (metis length_greater_0_conv)
    then have "lines_text (wrap_x w) (wrote_something w) (take (beyond ls) ls) =
        lines_text (wrap_x w) (wrote_something w) (take k q) @ lines_text (wrap_x w1) (wrote_something w1) (take (beyond ms) ms)"
      by (simp only: parts lines_text_append m)
    moreover have "same_margins w w2" using same w2(4) by (simp add: same_margins_def)
    moreover have "wrote_something w2 \<longleftrightarrow> wrote_something w \<or> 0 < beyond ls" using w2(3) wrote k(2) n by auto
    ultimately show ?thesis
      using w2(1,2) wrap_lines_step [OF less.prems(1) False less.prems(3) f out] by (intro exI [of _ w2]) (simp add: parts(2))
  qed
qed

text \<open>One call of \<open>process\<close> writes at least one line if there is one, and as many as the buffer cannot hold.\<close>

lemma wrap_process_queued:
  assumes "2 \<le> wrap_width w" "queued w q" "len \<le> length data"
    and ls: "ls = q @ break_lines clz (wrap_width w) (take len data)"
  shows "\<exists>w'. wrap_process clz w data len out = Some (w', out @ lines_text (wrap_x w) False (take (max 1 (beyond ls)) ls))
    \<and> queued w' (drop (max 1 (beyond ls)) ls) \<and> same_margins w w'"
proof -
  let ?w = "w\<lparr>wrote_something := False\<rparr>"
  obtain w1 where w1: "wrap_lines clz ?w data len out = Some (w1, out @ lines_text (wrap_x w) False (take (beyond ls) ls))"
    "queued w1 (drop (beyond ls) ls)" "wrote_something w1 \<longleftrightarrow> 0 < beyond ls" "same_margins ?w w1"
    using wrap_lines_queued [of ?w q len data ls clz out] assms by auto
  show ?thesis
  proof (cases "0 < beyond ls")
    case True
    then have "max 1 (beyond ls) = beyond ls" by simp
    then show ?thesis using w1 True by (simp add: wrap_process_def)
  next
    case False
    then have q1: "queued w1 ls" using w1(2) by simp
    obtain w2 where "write_one_line w1 out = Some (w2, out @ (if ls = [] \<and> wrote_something w1 then newline @ margin (wrap_x w1)
        else lines_text (wrap_x w1) (wrote_something w1) (take 1 ls)))" "queued w2 (drop 1 ls)" "same_margins w1 w2"
      by (rule write_one_line_queued [OF q1])
    then show ?thesis using w1 False by (simp add: wrap_process_def same_margins_def)
  qed
qed

lemma flush_lines_queued:
  assumes "queued w q"
  shows "\<exists>w'. flush_lines w out = Some (w', out @ lines_text (wrap_x w) (wrote_something w) q) \<and> queued w' [] \<and> same_margins w w'"
  using assms
proof (induction q arbitrary: w out)
  case Nil
  then show ?case using queued_empty [OF Nil] by (simp add: flush_lines.simps)
next
  case (Cons l q)
  obtain w1 where w1: "write_one_line w out = Some (w1, out @ lines_text (wrap_x w) (wrote_something w) [l])"
    "queued w1 q" "wrote_something w1" "same_margins w w1"
    by (rule write_one_line_queued [OF Cons.prems, of out]) auto
  show ?case
    using Cons.IH [OF w1(2), of "out @ lines_text (wrap_x w) (wrote_something w) [l]"] w1 queued_empty [OF Cons.prems]
    by (subst flush_lines.simps) (auto simp: same_margins_def)
qed

lemma flush_queued:
  assumes "queued w q"
  shows "\<exists>w'. flush w out = Some (w', out @ (if q = [] then [] else margin (wrap_x w) @ lines_text (wrap_x w) False q @ newline))
    \<and> queued w' [] \<and> same_margins w w'"
  using flush_lines_queued [of "w\<lparr>wrote_something := False\<rparr>" q "out @ margin (wrap_x w)"] assms queued_empty [OF assms]
  by (auto simp: flush_def indent_margin)

end
