(* ===== verification/Usage_Layout.thy ===== *)
theory Usage_Layout
  imports Usage_Printing Usage_Wrapping
begin

text \<open>
  The loops of \<open>printUsage\<close>: the iterator never leaves a help text, every loop ends, and no access leaves
  the arrays of columns.
\<close>

section \<open>Parts of a row\<close>

text \<open>The iterator is inside of a row.\<close>

definition in_row :: "LinePartIterator \<Rightarrow> bool" where
  "in_row it \<longleftrightarrow> (\<exists>r p. rowstart it = Some r \<and> part_ptr it = Some p \<and> length p \<le> length r \<and> part_len it \<le> length p)
     \<and> - 1 \<le> part_col it \<and> (part_col it = - 1 \<longrightarrow> part_len it = 0)"

definition same_row :: "LinePartIterator \<Rightarrow> LinePartIterator \<Rightarrow> bool" where
  "same_row it it' \<longleftrightarrow> tablestart it' = tablestart it \<and> rowdesc it' = rowdesc it \<and> rowstart it' = rowstart it"

lemma same_row_refl [simp]: "same_row it it"
  by (simp add: same_row_def)

lemma same_row_trans: "same_row a b \<Longrightarrow> same_row b c \<Longrightarrow> same_row a c"
  by (simp add: same_row_def)

definition left_over :: "LinePartIterator \<Rightarrow> string" where
  "left_over it = (case part_ptr it of None \<Rightarrow> [] | Some p \<Rightarrow> drop (part_len it) p)"

definition scans :: "LinePartIterator \<Rightarrow> nat" where
  "scans it = lines_left (left_over it) it"

definition steps_left :: "LinePartIterator \<Rightarrow> nat" where
  "steps_left it = 2 * length (left_over it) + (if hit_target_line it then 0 else 1)"

lemma vertical_tabs_drop: "vertical_tabs (drop n s) \<le> vertical_tabs s"
proof (induction s arbitrary: n)
  case (Cons c s)
  then show ?case by (cases n) (auto intro: le_SucI)
qed simp

lemma lines_left_drop: "lines_left (drop n p) it \<le> lines_left p it"
proof -
  have "Suc (max a (max (b + vertical_tabs (drop n p)) c)) - t \<le> Suc (max a (max (b + vertical_tabs p) c)) - t" for a b c t
    using vertical_tabs_drop [of n p] by (intro diff_le_mono) (auto simp: max_def)
  then show ?thesis by (simp add: lines_left_def)
qed

lemma part_length_le: "fst (part_length clz s) \<le> length s"
proof (induction clz s rule: part_length.induct)
  case (2 clz c cs)
  then show ?case
    using decode_length [of clz c cs] by (cases "decode clz c cs") (force simp: split_beta)
qed simp

lemma update_length_members [simp]:
  "part_ptr (update_length clz p it) = Some p" "part_len (update_length clz p it) \<le> length p"
  "tablestart (update_length clz p it) = tablestart it" "rowdesc (update_length clz p it) = rowdesc it"
  "rowstart (update_length clz p it) = rowstart it" "part_col (update_length clz p it) = part_col it"
  "max_line_in_block (update_length clz p it) = max_line_in_block it" "line_in_block (update_length clz p it) = line_in_block it"
  "target_line_in_block (update_length clz p it) = target_line_in_block it"
  "hit_target_line (update_length clz p it) = hit_target_line it"
  using part_length_le [of clz p] by (simp_all add: update_length_def split_beta)

text \<open>A part that the loop returns, and the way to it.\<close>

definition reached :: "LinePartIterator \<Rightarrow> string \<Rightarrow> bool \<Rightarrow> LinePartIterator \<Rightarrow> bool" where
  "reached it p go it' \<longleftrightarrow> in_row it' \<and> 0 \<le> part_col it' \<and> same_row it it'
     \<and> (go \<longrightarrow> scans it' < lines_left p it \<or> scans it' \<le> lines_left p it
          \<and> steps_left it' < 2 * length p + (if hit_target_line it then 0 else 1))"

lemma reached_mono:
  assumes "reached it1 p1 go it'" "same_row it it1"
    and "lines_left p1 it1 < lines_left p it \<or> lines_left p1 it1 \<le> lines_left p it
      \<and> 2 * length p1 + (if hit_target_line it1 then 0 else 1) \<le> 2 * length p + (if hit_target_line it then 0 else (1 :: nat))"
  shows "reached it p go it'"
  using assms unfolding reached_def by (auto intro: same_row_trans)

lemma reached_here:
  assumes "rowstart it = Some r" "length q \<le> length r" "0 \<le> part_col it1" "same_row it it1"
    and "lines_left q it1 \<le> lines_left p it" "2 * length q < 2 * length p + (if hit_target_line it then 0 else 1)"
  shows "reached it p True ((update_length clz q it1)\<lparr>hit_target_line := True\<rparr>)"
proof -
  let ?it = "(update_length clz q it1)\<lparr>hit_target_line := True\<rparr>"
  have "scans ?it \<le> lines_left q it1"
    using lines_left_drop [of "part_len (update_length clz q it1)" q it1] by (simp add: scans_def left_over_def lines_left_def)
  moreover have "steps_left ?it \<le> 2 * length q" by (simp add: steps_left_def left_over_def)
  ultimately show ?thesis
    using assms by (simp add: reached_def in_row_def same_row_def)
qed

lemma reached_end:
  assumes "rowstart it = Some r" "length q \<le> length r" "0 \<le> part_col it"
  shows "reached it p False (update_length clz q (it\<lparr>target_line_in_block := t\<rparr>))"
  using assms by (simp add: reached_def in_row_def same_row_def)

lemma part_loop_wraps:
  assumes "rowstart it = Some r" "length q \<le> length r" "0 \<le> part_col it" and hit: "hit_target_line it"
    and again: "again = it\<lparr>target_line_in_block := Suc (target_line_in_block it), hit_target_line := False,
        line_in_block := 0, part_col := 0\<rparr>"
    and IH: "Suc (target_line_in_block it) \<le> max_line_in_block it \<Longrightarrow>
        \<exists>go it'. part_loop clz again r = Some (go, it') \<and> reached again r go it'"
    and result: "result = (if Suc (target_line_in_block it) > max_line_in_block it
        then Some (False, update_length clz q (it\<lparr>target_line_in_block := Suc (target_line_in_block it)\<rparr>))
        else part_loop clz again r)"
  shows "\<exists>go it'. result = Some (go, it') \<and> reached it q go it'"
proof (cases "Suc (target_line_in_block it) \<le> max_line_in_block it")
  case True
  then obtain go it' where r: "part_loop clz again r = Some (go, it')" "reached again r go it'" using IH by blast
  have "lines_left r again < lines_left q it" using True assms(1) by (auto simp: lines_left_def again)
  then have "reached it q go it'" by (intro reached_mono [OF r(2)]) (simp_all add: again same_row_def)
  then show ?thesis using r(1) True result by simp
next
  case False
  then show ?thesis using result reached_end [OF assms(1-3)] by (intro exI [of _ False]) auto
qed

lemma part_loop_reaches:
  assumes "rowstart it = Some r" "length p \<le> length r" "0 \<le> part_col it"
  shows "\<exists>go it'. part_loop clz it p = Some (go, it') \<and> reached it p go it'"
  using assms
proof (induction clz it p rule: part_loop.induct)
  case (1 clz it)
  show ?case
  proof (cases "hit_target_line it")
    case True
    show ?thesis
      by (rule part_loop_wraps [OF "1.prems" True refl, where clz = clz]) (use "1.IH" [OF _ refl] "1.prems" True in \<open>simp_all add: Let_def\<close>)
  next
    case False
    then show ?thesis using reached_here [OF "1.prems"(1,2) "1.prems"(3), of "[]" clz] by (intro exI [of _ True]) simp
  qed
next
  case (2 clz it c p)
  let ?down = "it\<lparr>line_in_block := Suc (line_in_block it),
      max_line_in_block := max (max_line_in_block it) (Suc (line_in_block it))\<rparr>"
  let ?right = "it\<lparr>hit_target_line := False, line_in_block := 0, part_col := part_col it + 1\<rparr>"
  have p: "length p \<le> length r" "length (c # p) \<le> length r" using "2.prems"(2) by simp_all
  consider (vt) "c = CHR 0x0B" | (insert) "c = CHR 0x09 \<or> c = CHR 0x0A" "\<not> hit_target_line it"
    | (tab) "c = CHR 0x09" "hit_target_line it" | (nl) "c = CHR 0x0A" "hit_target_line it"
    | (other) "c \<noteq> CHR 0x0B" "c \<noteq> CHR 0x09" "c \<noteq> CHR 0x0A" by blast
  then show ?case
  proof cases
    case vt
    have l: "lines_left p ?down \<le> lines_left (c # p) it" using vt by (auto simp: lines_left_def max_def)
    show ?thesis
    proof (cases "line_in_block ?down = target_line_in_block ?down")
      case True
      have "reached it (c # p) True ((update_length clz p ?down)\<lparr>hit_target_line := True\<rparr>)"
        by (rule reached_here [OF "2.prems"(1) p(1) _ _ l]) (use "2.prems"(3) in \<open>simp_all add: same_row_def\<close>)
      then show ?thesis using vt True by (intro exI [of _ True]) (simp add: Let_def)
    next
      case False
      then obtain go it' where r: "part_loop clz ?down p = Some (go, it')" "reached ?down p go it'"
        using "2.IH"(1) [OF vt refl] "2.prems"(1,3) p(1) by auto
      have "reached it (c # p) go it'" by (rule reached_mono [OF r(2)]) (use l in \<open>simp_all add: same_row_def\<close>)
      then show ?thesis using vt False r(1) by (simp add: Let_def)
    qed
  next
    case insert
    then show ?thesis
      using reached_here [OF "2.prems"(1) p(2) "2.prems"(3), of "c # p" clz] by auto
  next
    case tab
    have l: "lines_left p ?right \<le> lines_left (c # p) it" using tab "2.prems" by (auto simp: lines_left_def max_def)
    show ?thesis
    proof (cases "line_in_block ?right = target_line_in_block ?right")
      case True
      have "reached it (c # p) True ((update_length clz p ?right)\<lparr>hit_target_line := True\<rparr>)"
        by (rule reached_here [OF "2.prems"(1) p(1) _ _ l]) (use "2.prems"(3) in \<open>simp_all add: same_row_def\<close>)
      then show ?thesis using tab True by (intro exI [of _ True]) (simp add: Let_def)
    next
      case False
      then obtain go it' where r: "part_loop clz ?right p = Some (go, it')" "reached ?right p go it'"
        using "2.IH"(2) [OF _ tab(1) _ refl] "2.prems"(1,3) p(1) tab by auto
      have "reached it (c # p) go it'" by (rule reached_mono [OF r(2)]) (use l tab in \<open>simp_all add: same_row_def\<close>)
      then show ?thesis using tab False r(1) by (simp add: Let_def)
    qed
  next
    case nl
    show ?thesis
      by (rule part_loop_wraps [OF "2.prems" nl(2) refl, where clz = clz])
        (use "2.IH"(3) [OF _ _ nl(1) _ refl] "2.prems" nl in \<open>simp_all add: Let_def\<close>)
  next
    case other
    then obtain go it' where r: "part_loop clz it p = Some (go, it')" "reached it p go it'"
      using "2.IH"(4) "2.prems"(1,3) p(1) by auto
    have "lines_left p it = lines_left (c # p) it" using other by (simp add: lines_left_def)
    then have "reached it (c # p) go it'" by (intro reached_mono [OF r(2)]) simp_all
    then show ?thesis using other r(1) by simp
  qed
qed

lemma next_part_reaches:
  assumes "in_row it"
  shows "\<exists>go it'. next_part clz it = Some (go, it') \<and> in_row it' \<and> 0 \<le> part_col it' \<and> same_row it it'
    \<and> (go \<longrightarrow> (it', it) \<in> measures [scans, steps_left, \<lambda>it. if part_col it = - 1 then 1 else 0])"
proof -
  obtain r p where it: "rowstart it = Some r" "part_ptr it = Some p" "length p \<le> length r" "part_len it \<le> length p"
    "- 1 \<le> part_col it" "part_col it = - 1 \<longrightarrow> part_len it = 0"
    using assms by (auto simp: in_row_def)
  show ?thesis
  proof (cases "part_col it = - 1")
    case True
    let ?first = "update_length clz p (it\<lparr>part_col := 0\<rparr>)"
    have "left_over ?first = drop (part_len ?first) p" "left_over it = p" using it True by (simp_all add: left_over_def)
    then have "scans ?first \<le> scans it" "steps_left ?first \<le> steps_left it"
      using lines_left_drop [of "part_len ?first" p it] by (simp_all add: scans_def steps_left_def lines_left_def)
    then have "(?first, it) \<in> measures [scans, steps_left, \<lambda>it. if part_col it = - 1 then 1 else 0]"
      using True by (simp add: less_le)
    moreover have "in_row ?first" "same_row it ?first" using it by (simp_all add: in_row_def same_row_def)
    moreover have "next_part clz it = Some (True, ?first)" using it(2) True by (simp add: next_part_def)
    ultimately show ?thesis by (intro exI [of _ True] exI [of _ ?first]) simp
  next
    case False
    have "length (drop (part_len it) p) \<le> length r" using it(3) by simp
    then obtain go it' where r: "part_loop clz it (drop (part_len it) p) = Some (go, it')"
      "reached it (drop (part_len it) p) go it'"
      using part_loop_reaches [OF it(1), of "drop (part_len it) p" clz] it(5) False by auto
    moreover have "next_part clz it = Some (go, it')" using it(2) False r(1) by (simp add: next_part_def)
    moreover have "left_over it = drop (part_len it) p" using it(2) by (simp add: left_over_def)
    ultimately show ?thesis by (auto simp: reached_def scans_def steps_left_def)
  qed
qed

section \<open>Loops\<close>

text \<open>Every loop returns when its body does, with what the body keeps.\<close>

lemma while_next_returns:
  assumes body: "\<And>it s. in_row it \<Longrightarrow> 0 \<le> part_col it \<Longrightarrow> Q s \<Longrightarrow> \<exists>s'. body it s = Some s' \<and> Q s'"
    and start: "in_row it" "Q s"
  shows "\<exists>it' s'. while_next clz body it s = Some (it', s') \<and> in_row it' \<and> same_row it it' \<and> Q s'"
proof -
  have "wf (measures [scans, steps_left, \<lambda>it. if part_col it = - 1 then 1 else 0])" by simp
  then show ?thesis using start
  proof (induction it arbitrary: s rule: wf_induct_rule)
    case (less it)
    obtain go it1 where n: "next_part clz it = Some (go, it1)" "in_row it1" "0 \<le> part_col it1" "same_row it it1"
      "go \<longrightarrow> (it1, it) \<in> measures [scans, steps_left, \<lambda>it. if part_col it = - 1 then 1 else 0]"
      using next_part_reaches [OF less.prems(1), of clz] by blast
    show ?case
    proof (cases go)
      case True
      obtain s1 where s1: "body it1 s = Some s1" "Q s1" using body [OF n(2,3) less.prems(2)] by blast
      then obtain it2 s2 where "while_next clz body it1 s1 = Some (it2, s2)" "in_row it2" "same_row it1 it2" "Q s2"
        using less.IH [OF _ n(2) s1(2)] n(5) True by blast
      then show ?thesis
        using n(1,4) s1(1) True by (subst while_next.simps) (auto intro: same_row_trans)
    next
      case False
      then show ?thesis using n less.prems(2) by (subst while_next.simps) simp
    qed
  qed
qed

definition at_rows :: "LinePartIterator \<Rightarrow> bool" where
  "at_rows it \<longleftrightarrow> rowdesc it \<noteq> None \<and> (part_ptr it = None \<or> in_row it)"

lemma at_rows_restart [simp]: "at_rows (restartTable it)"
  by (simp add: at_rows_def restartTable_def)

lemma in_row_restart: "rowstart it = Some r \<Longrightarrow> in_row (restartRow it)"
  by (simp add: in_row_def restartRow_def)

definition rows_left :: "LinePartIterator \<Rightarrow> nat" where
  "rows_left it = (case rowdesc it of None \<Rightarrow> 0 | Some ds \<Rightarrow> length ds)"

definition row_text :: "LinePartIterator \<Rightarrow> nat" where
  "row_text it = (case rowstart it of None \<Rightarrow> 0 | Some r \<Rightarrow> length r)"

abbreviation rows_measure where
  "rows_measure \<equiv> measures [rows_left, \<lambda>it. if part_ptr it = None then 1 else 0, row_text]"

lemma nextRow_moves:
  assumes "at_rows it"
  shows "\<exists>go it'. nextRow it = (go, it') \<and> tablestart it' = tablestart it \<and> rowdesc it' \<noteq> None
    \<and> (go \<longrightarrow> in_row it' \<and> (it', it) \<in> rows_measure)"
proof (cases "part_ptr it")
  case None
  then show ?thesis
    using assms in_row_restart [of it]
    by (auto simp: nextRow_def at_rows_def rows_left_def row_text_def restartRow_def split: option.splits)
next
  case (Some p)
  then obtain r where r: "rowstart it = Some r" "length p \<le> length r" using assms by (auto simp: at_rows_def in_row_def)
  show ?thesis
  proof (cases "dropWhile (\<lambda>c. c \<noteq> CHR 0x0A) p")
    case Nil
    obtain ds where ds: "rowdesc it = Some ds" using assms by (auto simp: at_rows_def)
    show ?thesis
    proof (cases "\<exists>d ds'. ds = d # ds' \<and> help_at ds' \<noteq> None")
      case True
      then obtain d ds' h where t: "ds = d # ds'" "help_at ds' = Some h" by blast
      let ?next = "restartRow (it\<lparr>rowdesc := Some ds', rowstart := Some h\<rparr>)"
      have "nextRow it = (True, ?next)" using Some Nil ds t by (simp add: nextRow_def del: dropWhile_eq_Nil_conv)
      moreover have "in_row ?next" by (rule in_row_restart [of _ h]) simp
      moreover have "(?next, it) \<in> rows_measure" using ds t by (simp add: rows_left_def restartRow_def)
      moreover have "tablestart ?next = tablestart it" "rowdesc ?next \<noteq> None" by (simp_all add: restartRow_def)
      ultimately show ?thesis by blast
    next
      case False
      then have "nextRow it = (False, it\<lparr>part_ptr := Some []\<rparr>)"
        using Some Nil ds by (cases ds) (auto simp: nextRow_def simp del: dropWhile_eq_Nil_conv)
      then show ?thesis using ds by (intro exI [of _ False]) simp
    qed
  next
    case (Cons c row)
    have "length (c # row) \<le> length p" unfolding Cons [symmetric] by (rule length_dropWhile_le)
    then show ?thesis
      using Some Cons assms r
      by (auto simp: nextRow_def at_rows_def rows_left_def row_text_def restartRow_def in_row_def)
  qed
qed

lemma while_nextRow_returns:
  assumes body: "\<And>it s. in_row it \<Longrightarrow> rowdesc it \<noteq> None \<Longrightarrow> Q s \<Longrightarrow>
        \<exists>it' s'. body it s = Some (it', s') \<and> in_row it' \<and> same_row it it' \<and> Q s'"
    and start: "at_rows it" "Q s"
  shows "\<exists>it' s'. while_nextRow body it s = Some (it', s') \<and> tablestart it' = tablestart it \<and> rowdesc it' \<noteq> None \<and> Q s'"
proof -
  have "wf rows_measure" by simp
  then show ?thesis using start
  proof (induction it arbitrary: s rule: wf_induct_rule)
    case (less it)
    obtain go it1 where n: "nextRow it = (go, it1)" "tablestart it1 = tablestart it" "rowdesc it1 \<noteq> None"
      "go \<longrightarrow> in_row it1 \<and> (it1, it) \<in> rows_measure"
      using nextRow_moves [OF less.prems(1)] by blast
    show ?case
    proof (cases go)
      case True
      then obtain it2 s2 where b: "body it1 s = Some (it2, s2)" "in_row it2" "same_row it1 it2" "Q s2"
        using body [of it1 s] n(3,4) less.prems(2) by blast
      moreover have "(it2, it) \<in> rows_measure"
      proof -
        have "rows_left it2 = rows_left it1" "row_text it2 = row_text it1" "part_ptr it2 \<noteq> None" "part_ptr it1 \<noteq> None"
          using b(2,3) n(4) True by (auto simp: same_row_def rows_left_def row_text_def in_row_def)
        then show ?thesis using n(4) True by auto
      qed
      moreover have "at_rows it2" using b(2,3) n(3) by (simp add: at_rows_def same_row_def)
      ultimately obtain it3 s3 where "while_nextRow body it2 s2 = Some (it3, s3)" "tablestart it3 = tablestart it2"
        "rowdesc it3 \<noteq> None" "Q s3"
        using less.IH by blast
      then show ?thesis
        using n(1,2) b True by (subst while_nextRow.simps) (auto simp: same_row_def)
    next
      case False
      then show ?thesis using n less.prems(2) by (subst while_nextRow.simps) simp
    qed
  qed
qed

text \<open>The start of a table is found once; later it has a help text, which the next search skips.\<close>

definition at_tables :: "LinePartIterator \<Rightarrow> bool" where
  "at_tables it \<longleftrightarrow> (rowdesc it \<noteq> None \<longrightarrow> help_at (tablestart it) \<noteq> None)"

abbreviation tables_measure where
  "tables_measure \<equiv> measures [\<lambda>it. if rowdesc it = None then 1 else 0, \<lambda>it. length (tablestart it)]"

lemma nextTable_moves:
  assumes "at_tables it"
  shows "\<exists>go it'. nextTable it = (go, it') \<and> rowdesc it' \<noteq> None
    \<and> (go \<longrightarrow> at_tables it' \<and> (it', it) \<in> tables_measure)"
proof -
  let ?start = "if rowdesc it \<noteq> None then dropWhile (\<lambda>d. help_text d \<noteq> None) (tablestart it) else tablestart it"
  let ?ds = "dropWhile (\<lambda>d. help_text d = None) ?start"
  have "length ?ds < length (tablestart it)" if later: "rowdesc it \<noteq> None"
  proof -
    obtain d ds where "tablestart it = d # ds" "help_text d \<noteq> None"
      using assms later by (auto simp: at_tables_def help_at_def split: list.splits)
    moreover have "length (dropWhile (\<lambda>d. help_text d = None) (dropWhile (\<lambda>d. help_text d \<noteq> None) ds)) \<le> length ds"
      by (rule order_trans [OF length_dropWhile_le length_dropWhile_le])
    ultimately show ?thesis using later by simp
  qed
  then show ?thesis
    by (cases "rowdesc it") (auto simp: nextTable_def Let_def restartTable_def at_tables_def)
qed

lemma while_nextTable_returns:
  assumes body: "\<And>it s. \<exists>it' s'. body it s = Some (it', s') \<and> tablestart it' = tablestart it \<and> rowdesc it' \<noteq> None"
    and start: "at_tables it"
  shows "\<exists>it' s'. while_nextTable body it s = Some (it', s')"
proof -
  have "wf tables_measure" by simp
  then show ?thesis using start
  proof (induction it arbitrary: s rule: wf_induct_rule)
    case (less it)
    obtain go it1 where n: "nextTable it = (go, it1)" "rowdesc it1 \<noteq> None"
      "go \<longrightarrow> at_tables it1 \<and> (it1, it) \<in> tables_measure"
      using nextTable_moves [OF less.prems] by blast
    show ?case
    proof (cases go)
      case True
      obtain it2 s2 where b: "body it1 s = Some (it2, s2)" "tablestart it2 = tablestart it1" "rowdesc it2 \<noteq> None"
        using body [of it1 s] by blast
      then have "at_tables it2" "(it2, it) \<in> tables_measure" using n(2,3) True by (auto simp: at_tables_def split: if_splits)
      then obtain it3 s3 where "while_nextTable body it2 s2 = Some (it3, s3)" using less.IH by blast
      then show ?thesis using n(1) b(1) True by (subst while_nextTable.simps) simp
    next
      case False
      then show ?thesis using n(1) by (subst while_nextTable.simps) simp
    qed
  qed
qed

section \<open>Columns\<close>

text \<open>The widths that are measured are below the threshold.\<close>

definition columns_ok :: "int \<Rightarrow> int \<times> nat list \<Rightarrow> bool" where
  "columns_ok threshold s \<longleftrightarrow> length (snd s) = maxcolumns \<and> 0 \<le> fst s \<and> fst s < int maxcolumns
     \<and> (\<forall>w\<in>set (snd s). w = 0 \<or> int w < threshold)"

lemma tabular_returns: "in_row it \<Longrightarrow> \<exists>b. tabular it = Some b"
  by (auto simp: in_row_def tabular_def)

lemma array_get_returns: "0 \<le> i \<Longrightarrow> i < int (length xs) \<Longrightarrow> array_get xs i = Some (xs ! nat i)"
  by (simp add: array_get_def)

lemma measure_part_returns:
  assumes "in_row it" "0 \<le> part_col it" "columns_ok threshold s"
  shows "\<exists>s'. measure_part threshold it s = Some s' \<and> columns_ok threshold s'"
proof -
  obtain lastcolumn col_width where s: "s = (lastcolumn, col_width)" by (cases s)
  obtain b where b: "tabular it = Some b" using tabular_returns [OF assms(1)] by blast
  show ?thesis
  proof (cases "part_col it < int maxcolumns")
    case True
    then have w: "array_get col_width (part_col it) = Some (col_width ! nat (part_col it))"
      "col_width ! nat (part_col it) \<in> set col_width"
      using assms(2,3) by (auto simp: s columns_ok_def intro!: array_get_returns)
    have "v = 0 \<or> int v < threshold" if "int (screenlen it) < threshold"
      "v \<in> set (col_width[nat (part_col it) := max (col_width ! nat (part_col it)) (screenlen it)])" for v
      using that set_update_subset_insert [of col_width "nat (part_col it)" "max (col_width ! nat (part_col it)) (screenlen it)"]
        w(2) assms(3) by (auto simp: s columns_ok_def max_def split: if_splits)
    then show ?thesis
      using True assms(2,3) b w(1) by (auto simp: s measure_part_def columns_ok_def max_def Let_def)
  next
    case False
    then show ?thesis using assms(3) by (simp add: s measure_part_def)
  qed
qed

lemma fold_max_less: "(a :: nat) < b \<Longrightarrow> (\<And>x. x \<in> set xs \<Longrightarrow> x < b) \<Longrightarrow> fold max xs a < b"
  by (induction xs arbitrary: a) simp_all

text \<open>The threshold decreases until the columns fit.\<close>

lemma column_widths_returns:
  assumes "0 \<le> width"
  shows "\<exists>it' s'. column_widths clz width it threshold = Some (it', s') \<and> tablestart it' = tablestart it
    \<and> columns_ok threshold s' \<and> int (sum_list (take (nat (fst s')) (snd s'))) \<le> width"
proof (induction "nat threshold" arbitrary: it threshold rule: less_induct)
  case less
  obtain it1 lastcolumn col_width where
    m: "while_nextRow (while_next clz (measure_part threshold)) (restartTable it) (0, replicate maxcolumns 0) =
      Some (it1, lastcolumn, col_width)" "tablestart it1 = tablestart it" "columns_ok threshold (lastcolumn, col_width)"
  proof -
    have "columns_ok threshold (0, replicate maxcolumns 0)" by (simp add: columns_ok_def maxcolumns_def)
    then have "\<exists>it' s'. while_nextRow (while_next clz (measure_part threshold)) (restartTable it) (0, replicate maxcolumns 0) =
        Some (it', s') \<and> tablestart it' = tablestart (restartTable it) \<and> rowdesc it' \<noteq> None \<and> columns_ok threshold s'"
      by (intro while_nextRow_returns while_next_returns measure_part_returns at_rows_restart)
    then show thesis using that by (auto simp: restartTable_def)
  qed
  let ?left = "take (nat lastcolumn) col_width"
  show ?case
  proof (cases "int (sum_list ?left) > width")
    case True
    have "\<exists>w\<in>set ?left. w \<noteq> 0" proof -
      have "sum_list ?left \<noteq> 0" using True assms by linarith
      then show ?thesis by (simp only: sum_list_eq_0_iff) blast
    qed
    then have pos: "0 < threshold" using m(3) by (auto simp: columns_ok_def dest!: in_set_takeD)
    have "fold max ?left 0 < nat threshold"
      using pos m(3) by (intro fold_max_less) (auto simp: columns_ok_def dest!: in_set_takeD)
    then obtain it2 s2 where r: "column_widths clz width it1 (int (fold max ?left 0)) = Some (it2, s2)"
      "tablestart it2 = tablestart it1" "columns_ok (int (fold max ?left 0)) s2"
      "int (sum_list (take (nat (fst s2)) (snd s2))) \<le> width"
      using less [of "int (fold max ?left 0)" it1] by auto
    moreover have "columns_ok threshold s2"
      using r(3) \<open>fold max ?left 0 < nat threshold\<close> by (fastforce simp: columns_ok_def)
    ultimately show ?thesis
      using m(1,2) True by (subst column_widths.simps) (simp add: Let_def)
  next
    case False
    then show ?thesis using m by (subst column_widths.simps) (simp add: Let_def)
  qed
qed

section \<open>Rows and tables\<close>

definition wrapper_ok :: "LineWrapper \<Rightarrow> bool" where
  "wrapper_ok w \<longleftrightarrow> 2 \<le> wrap_width w \<and> (\<exists>q. queued w q)"

definition printing_ok :: "printing \<Rightarrow> bool" where
  "printing_ok s \<longleftrightarrow> wrapper_ok (lastColumnLineWrapper s) \<and> wrapper_ok (interjectionLineWrapper s)"

definition layout_ok :: "layout \<Rightarrow> bool" where
  "layout_ok L \<longleftrightarrow> last_column L < int (length (tab_stops L))"

lemma wrapper_ok_new: "wrapper_ok (new_LineWrapper x1 x2)"
  using queued_new [of x1 x2] by (auto simp: wrapper_ok_def new_LineWrapper_def)

lemma wrap_process_returns:
  assumes "wrapper_ok w" "len \<le> length data"
  shows "\<exists>w' out'. wrap_process clz w data len out = Some (w', out') \<and> wrapper_ok w'"
  using assms wrap_process_queued [of w _ len data _ clz out] by (fastforce simp: wrapper_ok_def same_margins_def)

lemma flush_returns:
  assumes "wrapper_ok w"
  shows "\<exists>w' out'. flush w out = Some (w', out') \<and> wrapper_ok w'"
  using assms flush_queued [of w _ out] by (fastforce simp: wrapper_ok_def same_margins_def)

lemma print_part_returns:
  assumes "layout_ok L" "in_row it" "0 \<le> part_col it" "printing_ok s"
  shows "\<exists>s'. print_part clz L it s = Some s' \<and> printing_ok s'"
proof -
  obtain b where b: "tabular it = Some b" using tabular_returns [OF assms(2)] by blast
  obtain p where p: "part_ptr it = Some p" "part_len it \<le> length p" using assms(2) by (auto simp: in_row_def)
  have stop: "part_col it \<le> last_column L \<Longrightarrow> array_get (tab_stops L) (part_col it) = Some (tab_stops L ! nat (part_col it))"
    using assms(1,3) by (intro array_get_returns) (simp_all add: layout_ok_def)
  define s0 where "s0 = (if part_col it = 0
      then s\<lparr>printed := (if row_x s \<ge> 0 then printed s @ newline else printed s), row_x := 0\<rparr> else s)"
  obtain x out where i: "indent (printed s0) (row_x s0) (tab_stops L ! nat (part_col it)) = (x, out)" by fastforce
  have ok: "printing_ok s0" using assms(4) by (simp add: printing_ok_def s0_def)
  obtain v out1 where v: "wrap_process clz (interjectionLineWrapper s0) p (part_len it) out = Some (v, out1)" "wrapper_ok v"
    using wrap_process_returns [OF _ p(2)] ok unfolding printing_ok_def by blast
  obtain w out2 where w: "wrap_process clz (lastColumnLineWrapper s0) p (part_len it) out = Some (w, out2)" "wrapper_ok w"
    using wrap_process_returns [OF _ p(2)] ok unfolding printing_ok_def by blast
  show ?thesis
  proof (cases "part_col it > last_column L")
    case True
    then show ?thesis using assms(4) by (simp add: print_part_def)
  next
    case False
    then have "array_get (tab_stops L) (part_col it) = Some (tab_stops L ! nat (part_col it))" using stop by simp
    then show ?thesis
      using False ok v w b p(1) i unfolding print_part_def Let_def s0_def [symmetric]
      by (auto simp: printing_ok_def)
  qed
qed

lemma print_own_line_returns:
  assumes "in_row it" "printing_ok s"
  shows "\<exists>s'. print_own_line clz L it s = Some s' \<and> printing_ok s'"
proof -
  obtain p where p: "part_ptr it = Some p" "part_len it \<le> length p" using assms(1) by (auto simp: in_row_def)
  obtain w out where "wrap_process clz (lastColumnLineWrapper s) p (part_len it)
      (snd (indent (printed s @ newline) 0 (right_margin L))) = Some (w, out)" "wrapper_ok w"
    using wrap_process_returns [OF _ p(2)] assms(2) unfolding printing_ok_def by blast
  then show ?thesis
    using assms(2) p(1) by (simp add: print_own_line_def printing_ok_def split_beta)
qed

lemma printing_ok_x [simp]: "printing_ok (s\<lparr>row_x := x\<rparr>) \<longleftrightarrow> printing_ok s"
  by (simp add: printing_ok_def)

lemma print_row_returns:
  assumes "layout_ok L" "in_row it" "printing_ok s"
  shows "\<exists>it' s'. print_row clz L it s = Some (it', s') \<and> in_row it' \<and> same_row it it' \<and> printing_ok s'"
proof -
  obtain it1 s1 where a: "while_next clz (print_part clz L) it (s\<lparr>row_x := - 1\<rparr>) = Some (it1, s1)"
    "in_row it1" "same_row it it1" "printing_ok s1"
    using while_next_returns [of printing_ok "print_part clz L" it "s\<lparr>row_x := - 1\<rparr>" clz]
      print_part_returns [OF assms(1)] assms(2,3) by auto
  obtain r where "rowstart it1 = Some r" using a(2) by (auto simp: in_row_def)
  then have restart: "in_row (restartRow it1)" "same_row it1 (restartRow it1)"
    by (simp_all add: in_row_restart same_row_def) (simp add: restartRow_def)
  obtain it2 s2 where b: "(if own_line L then while_next clz (print_own_line clz L) (restartRow it1) s1 else Some (it1, s1)) = Some (it2, s2)"
    "in_row it2" "same_row it1 it2" "printing_ok s2"
    using while_next_returns [of printing_ok "print_own_line clz L" "restartRow it1" s1 clz]
      print_own_line_returns a(2,4) restart by (cases "own_line L") (auto intro: same_row_trans)
  obtain w out where c: "flush (lastColumnLineWrapper s2) (printed s2 @ newline) = Some (w, out)" "wrapper_ok w"
    using flush_returns b(4) unfolding printing_ok_def by blast
  obtain v out' where d: "flush (interjectionLineWrapper s2) out = Some (v, out')" "wrapper_ok v"
    using flush_returns b(4) unfolding printing_ok_def by blast
  show ?thesis
    using a(1,3) b c d by (auto simp: print_row_def printing_ok_def intro: same_row_trans)
qed

lemma print_table_returns:
  assumes "0 \<le> width"
  shows "\<exists>it' s'. print_table clz width m l it out = Some (it', s') \<and> tablestart it' = tablestart it \<and> rowdesc it' \<noteq> None"
proof -
  obtain it1 lastcolumn col_width where a: "column_widths clz width it 10000 = Some (it1, lastcolumn, col_width)"
    "tablestart it1 = tablestart it" "columns_ok 10000 (lastcolumn, col_width)"
    using column_widths_returns [OF assms, of clz it 10000] by auto
  have c: "0 \<le> lastcolumn" "lastcolumn < int maxcolumns" "length col_width = maxcolumns"
    using a(3) by (simp_all add: columns_ok_def)
  then have "array_get (tabstops col_width) lastcolumn = Some (tabstops col_width ! nat lastcolumn)"
    "array_get col_width lastcolumn = Some (col_width ! nat lastcolumn)"
    by (intro array_get_returns; simp add: tabstops_def)+
  then obtain L rightwidth where L: "table_layout width m l lastcolumn col_width = Some (L, rightwidth)" "layout_ok L"
    using c by (auto simp: table_layout_def layout_ok_def tabstops_def Let_def)
  let ?s = "\<lparr>row_x = - 1, lastColumnLineWrapper = new_LineWrapper (width - rightwidth) width,
      interjectionLineWrapper = new_LineWrapper 0 width, printed = out\<rparr>"
  have "printing_ok ?s" by (simp add: printing_ok_def wrapper_ok_new)
  then obtain it2 s2 where "while_nextRow (print_row clz L) (restartTable it1) ?s = Some (it2, s2)"
    "tablestart it2 = tablestart (restartTable it1)" "rowdesc it2 \<noteq> None"
    using while_nextRow_returns [of printing_ok "print_row clz L" "restartTable it1" ?s] print_row_returns [OF L(2)] by auto
  then show ?thesis using a L(1) by (simp add: print_table_def) (simp add: restartTable_def)
qed

lemma printUsage_total: "\<exists>text. printUsage clz usage width m l out = Some text"
proof -
  let ?w = "if (if width < 1 then 80 else width) > 10000 then 10000 else if width < 1 then 80 else width"
  let ?l = "if percent_of ?w l = 0 then 1 else percent_of ?w l"
  have "at_tables (new_LinePartIterator usage)" by (simp add: at_tables_def new_LinePartIterator_def)
  moreover have "0 \<le> ?w" by simp
  ultimately have "\<exists>it' s'. while_nextTable (print_table clz ?w (percent_of ?w m) ?l) (new_LinePartIterator usage) out = Some (it', s')"
    using print_table_returns by (intro while_nextTable_returns) blast+
  then show ?thesis unfolding printUsage_def Let_def by auto
qed

end
