(* ===== verification/Usage_Parts.thy ===== *)
theory Usage_Parts
  imports Usage_Layout
begin

text \<open>
  The iterator over the parts of a row against its description: the cells of a row line by line, with an
  empty part for a cell that has fewer lines.
\<close>

section \<open>The grid of a row\<close>

fun split_on :: "char \<Rightarrow> string \<Rightarrow> string list" where
  "split_on s [] = [[]]"
| "split_on s (c # cs) = (if c = s then [] # split_on s cs else (c # hd (split_on s cs)) # tl (split_on s cs))"

lemma split_on_nonempty [simp]: "split_on s cs \<noteq> []"
  by (cases cs) simp_all

definition row_of :: "string \<Rightarrow> string" where
  "row_of r = takeWhile (\<lambda>c. c \<noteq> CHR 0x0A) r"

definition cells :: "string \<Rightarrow> string list list" where
  "cells r = map (split_on (CHR 0x0B)) (split_on (CHR 0x09) (row_of r))"

definition line_at :: "nat \<Rightarrow> string list \<Rightarrow> string" where
  "line_at t ls = (if t < length ls then ls ! t else [])"

text \<open>Column, line and text of the parts of a row.\<close>

definition line_parts :: "nat \<Rightarrow> nat \<Rightarrow> string list list \<Rightarrow> (int \<times> nat \<times> string) list" where
  "line_parts c t css = map (\<lambda>(k, ls). (int k, t, line_at t ls)) (enumerate c css)"

definition block_lines :: "string list list \<Rightarrow> nat" where
  "block_lines css = fold max (map (\<lambda>ls. length ls - 1) css) 0"

definition row_parts :: "string \<Rightarrow> (int \<times> nat \<times> string) list" where
  "row_parts r = concat (map (\<lambda>t. line_parts 0 t (cells r)) [0..<Suc (block_lines (cells r))])"

lemma cells_simps [simp]:
  "cells [] = [[[]]]"
  "cells (CHR 0x0A # p) = [[[]]]"
  "cells (CHR 0x09 # p) = [[]] # cells p"
  "cells (CHR 0x0B # p) = ([] # hd (cells p)) # tl (cells p)"
  "\<not> separator c \<Longrightarrow> cells (c # p) = ((c # hd (hd (cells p))) # tl (hd (cells p))) # tl (cells p)"
  by (simp_all add: cells_def row_of_def separator_def hd_map map_tl)

lemma cells_nonempty [simp]: "cells r \<noteq> []" "hd (cells r) \<noteq> []"
  by (simp_all add: cells_def hd_map)

section \<open>The text of a part\<close>

lemma separator_no_continuation: "separator c \<Longrightarrow> \<not> continues c"
  by (auto simp: separator_def continues_def unsigned_char_def)

lemma continuation_continues: "list_all continues (take (snd (continuation cs ch)) cs)"
  by (induction cs ch rule: continuation.induct) (auto simp: split_beta continues_def)

lemma decode_continues: "decode clz c cs = (wide, n) \<Longrightarrow> list_all continues (take n cs)"
  using continuation_continues [of cs] by (auto simp: decode_def Let_def split_beta split: if_splits)

lemma part_length_text: "fst (part_length clz p) = length (takeWhile (\<lambda>c. \<not> separator c) p)"
proof (induction clz p rule: part_length.induct)
  case (2 clz c cs)
  obtain wide n where d: "decode clz c cs = (wide, n)" by (metis prod.collapse)
  show ?case
  proof (cases "separator c")
    case False
    have "\<forall>x\<in>set (take n cs). \<not> separator x"
      using decode_continues [OF d] separator_no_continuation by (auto simp: list_all_iff)
    then have "takeWhile (\<lambda>c. \<not> separator c) cs = take n cs @ takeWhile (\<lambda>c. \<not> separator c) (drop n cs)"
      by (metis append_take_drop_id takeWhile_append2)
    then show ?thesis
      using "2.IH" [OF False d [symmetric] refl] decode_length [OF d] False d by (simp add: split_beta)
  qed simp
qed simp

lemma first_part: "takeWhile (\<lambda>c. \<not> separator c) p = hd (hd (cells p))"
proof (induction p)
  case (Cons c p)
  then show ?case by (cases "separator c") (auto simp: separator_def)
qed simp

section \<open>One pass over a row\<close>

text \<open>The parts that a scan for a line still finds: in the rest of a cell, and in the cells after it.\<close>

definition scan :: "nat \<Rightarrow> string \<Rightarrow> nat \<Rightarrow> nat \<Rightarrow> (int \<times> nat \<times> string) list" where
  "scan t p c line =
     (if t \<le> line then [] else [(int c, t, line_at (t - line) (hd (cells p)))]) @ line_parts (Suc c) t (tl (cells p))"

text \<open>The greatest line index it meets.\<close>

definition deepest :: "string \<Rightarrow> nat \<Rightarrow> nat \<Rightarrow> nat" where
  "deepest p line m = max m (max (if length (hd (cells p)) = 1 then 0 else line + length (hd (cells p)) - 1)
     (block_lines (tl (cells p))))"

lemma line_parts_simps [simp]:
  "line_parts c t [] = []" "line_parts c t (ls # css) = (int c, t, line_at t ls) # line_parts (Suc c) t css"
  by (simp_all add: line_parts_def)

lemma block_lines_max: "fold max xs (max a b) = max a (fold max xs (b :: nat))"
  by (induction xs arbitrary: b) (simp, metis fold_simps(2) max.left_commute)

lemma block_lines_simps [simp]:
  "block_lines [] = 0" "block_lines (ls # css) = max (length ls - 1) (block_lines css)"
  using block_lines_max [of "map (\<lambda>ls. length ls - 1) css" "length ls - 1" 0] by (simp_all add: block_lines_def)

lemma cells_cases: obtains l ls css where "cells p = (l # ls) # css"
  by (metis cells_nonempty list.exhaust_sel)

lemma scan_simps:
  "scan t [] c line = (if t \<le> line then [] else [(int c, t, [])])"
  "scan t (CHR 0x0A # p) c line = (if t \<le> line then [] else [(int c, t, [])])"
  "scan t (CHR 0x09 # p) c line = (if t \<le> line then [] else [(int c, t, [])])
     @ (if t = 0 then [(int (Suc c), t, hd (hd (cells p)))] else []) @ scan t p (Suc c) 0"
  "scan t (CHR 0x0B # p) c line =
     (if Suc line = t then [(int c, t, hd (hd (cells p)))] else []) @ scan t p c (Suc line)"
  "\<not> separator x \<Longrightarrow> scan t (x # p) c line = scan t p c line"
proof -
  obtain l ls css where g: "cells p = (l # ls) # css" by (rule cells_cases)
  show "scan t [] c line = (if t \<le> line then [] else [(int c, t, [])])"
    "scan t (CHR 0x0A # p) c line = (if t \<le> line then [] else [(int c, t, [])])"
    by (simp_all add: scan_def line_at_def)
  show "scan t (CHR 0x09 # p) c line = (if t \<le> line then [] else [(int c, t, [])])
     @ (if t = 0 then [(int (Suc c), t, hd (hd (cells p)))] else []) @ scan t p (Suc c) 0"
    by (simp add: scan_def line_at_def g)
  show "scan t (CHR 0x0B # p) c line =
     (if Suc line = t then [(int c, t, hd (hd (cells p)))] else []) @ scan t p c (Suc line)"
    by (auto simp: scan_def line_at_def g nth_Cons' Suc_diff_le)
  show "\<not> separator x \<Longrightarrow> scan t (x # p) c line = scan t p c line"
    by (auto simp: scan_def line_at_def g nth_Cons')
qed

lemma deepest_simps:
  "deepest [] line m = m" "deepest (CHR 0x0A # p) line m = m"
  "deepest (CHR 0x09 # p) line m = deepest p 0 m"
  "deepest (CHR 0x0B # p) line m = deepest p (Suc line) (max m (Suc line))"
  "\<not> separator x \<Longrightarrow> deepest (x # p) line m = deepest p line m"
proof -
  obtain l ls css where g: "cells p = (l # ls) # css" by (rule cells_cases)
  show "deepest [] line m = m" "deepest (CHR 0x0A # p) line m = m" by (simp_all add: deepest_def)
  show "deepest (CHR 0x09 # p) line m = deepest p 0 m" by (simp add: deepest_def g)
  show "deepest (CHR 0x0B # p) line m = deepest p (Suc line) (max m (Suc line))" by (auto simp: deepest_def g max_def)
  show "\<not> separator x \<Longrightarrow> deepest (x # p) line m = deepest p line m" by (simp add: deepest_def g)
qed

lemma deepest_row: "deepest r 0 m = max m (block_lines (cells r))"
proof -
  obtain l ls css where "cells r = (l # ls) # css" by (rule cells_cases)
  then show ?thesis by (auto simp: deepest_def)
qed

lemma skip_part: "scan t (drop (length (takeWhile (\<lambda>c. \<not> separator c) p)) p) c line = scan t p c line"
  "deepest (drop (length (takeWhile (\<lambda>c. \<not> separator c) p)) p) line m = deepest p line m"
  by (induction p) (simp_all add: scan_simps(5) deepest_simps(5))

section \<open>The loop over the parts\<close>

definition collect ::
  "LinePartIterator \<Rightarrow> (int \<times> nat \<times> string) list \<Rightarrow> (int \<times> nat \<times> string) list option" where
  "collect it s = do { p \<leftarrow> part_ptr it; Some (s @ [(part_col it, target_line_in_block it, take (part_len it) p)]) }"

text \<open>The loop once the first part was visited, from a string.\<close>

definition resume ::
  "leading_zeros \<Rightarrow> LinePartIterator \<Rightarrow> string \<Rightarrow> (int \<times> nat \<times> string) list
    \<Rightarrow> (LinePartIterator \<times> (int \<times> nat \<times> string) list) option" where
  "resume clz it p s =
     do {
       (go, it) \<leftarrow> part_loop clz it p;
       if go then do { s \<leftarrow> collect it s; while_next clz collect it s } else Some (it, s)
     }"

text \<open>What the loop depends on: row, column, the line looked for, the line, the greatest line, and whether it was hit.\<close>

definition pos :: "LinePartIterator \<Rightarrow> string \<Rightarrow> nat \<Rightarrow> nat \<Rightarrow> nat \<Rightarrow> nat \<Rightarrow> bool \<Rightarrow> bool" where
  "pos it r c t line m hit \<longleftrightarrow> rowstart it = Some r \<and> part_col it = int c \<and> target_line_in_block it = t
     \<and> line_in_block it = line \<and> max_line_in_block it = m \<and> hit_target_line it = hit"

lemma resume_found:
  assumes loop: "part_loop clz it p = Some (True, (update_length clz q it1)\<lparr>hit_target_line := True\<rparr>)"
    and pos: "pos it1 r c t line m hit"
  shows "\<exists>it2. pos it2 r c t line m True \<and> resume clz it p s =
    resume clz it2 (drop (length (takeWhile (\<lambda>c. \<not> separator c) q)) q) (s @ [(int c, t, hd (hd (cells q)))])"
proof -
  let ?it = "(update_length clz q it1)\<lparr>hit_target_line := True\<rparr>"
  have len: "part_len ?it = length (takeWhile (\<lambda>c. \<not> separator c) q)"
    by (simp add: update_length_def split_beta part_length_text)
  then have "take (part_len ?it) q = hd (hd (cells q))"
    by (metis first_part takeWhile_eq_take)
  then have "collect ?it s = Some (s @ [(int c, t, hd (hd (cells q)))])" for s
    using pos by (simp add: collect_def pos_def)
  moreover have "next_part clz ?it = part_loop clz ?it (drop (length (takeWhile (\<lambda>c. \<not> separator c) q)) q)"
    using pos len by (simp add: next_part_def pos_def)
  ultimately have "resume clz it p s =
      resume clz ?it (drop (length (takeWhile (\<lambda>c. \<not> separator c) q)) q) (s @ [(int c, t, hd (hd (cells q)))])"
    using loop by (simp add: resume_def while_next.simps [of clz collect ?it])
  moreover have "pos ?it r c t line m True" using pos by (simp add: pos_def)
  ultimately show ?thesis by blast
qed

text \<open>The ways on through a row.\<close>

lemma resume_steps:
  assumes "pos it r c t line m hit"
  shows "\<not> separator x \<Longrightarrow> resume clz it (x # p) s = resume clz it p s"
    and "Suc line \<noteq> t \<Longrightarrow> \<exists>it2. pos it2 r c t (Suc line) (max m (Suc line)) hit
      \<and> resume clz it (CHR 0x0B # p) s = resume clz it2 p s"
    and "hit \<Longrightarrow> 0 < t \<Longrightarrow> \<exists>it2. pos it2 r (Suc c) t 0 m False \<and> resume clz it (CHR 0x09 # p) s = resume clz it2 p s"
    and "hit \<Longrightarrow> q = [] \<or> hd q = CHR 0x0A \<Longrightarrow> Suc t \<le> m \<Longrightarrow>
      \<exists>it2. pos it2 r 0 (Suc t) 0 m False \<and> resume clz it q s = resume clz it2 r s"
    and "hit \<Longrightarrow> q = [] \<or> hd q = CHR 0x0A \<Longrightarrow> m < Suc t \<Longrightarrow> map_option snd (resume clz it q s) = Some s"
proof -
  have it: "rowstart it = Some r" "part_col it = int c" "target_line_in_block it = t" "line_in_block it = line"
    "max_line_in_block it = m" "hit_target_line it = hit" using assms by (simp_all add: pos_def)
  show "\<not> separator x \<Longrightarrow> resume clz it (x # p) s = resume clz it p s"
    by (simp add: resume_def separator_def)
  show "\<exists>it2. pos it2 r c t (Suc line) (max m (Suc line)) hit \<and> resume clz it (CHR 0x0B # p) s = resume clz it2 p s"
    if "Suc line \<noteq> t"
    by (rule exI [of _ "it\<lparr>line_in_block := Suc line, max_line_in_block := max m (Suc line)\<rparr>"])
      (use that it in \<open>simp add: resume_def pos_def Let_def\<close>)
  show "\<exists>it2. pos it2 r (Suc c) t 0 m False \<and> resume clz it (CHR 0x09 # p) s = resume clz it2 p s" if "hit" "0 < t"
    by (rule exI [of _ "it\<lparr>hit_target_line := False, line_in_block := 0, part_col := part_col it + 1\<rparr>"])
      (use that it in \<open>simp add: resume_def pos_def Let_def\<close>)
  show "\<exists>it2. pos it2 r 0 (Suc t) 0 m False \<and> resume clz it q s = resume clz it2 r s"
    if "hit" "q = [] \<or> hd q = CHR 0x0A" "Suc t \<le> m"
    by (rule exI [of _ "it\<lparr>target_line_in_block := Suc t, hit_target_line := False, line_in_block := 0, part_col := 0\<rparr>"])
      (use that it in \<open>cases q; simp add: resume_def pos_def Let_def\<close>)
  show "map_option snd (resume clz it q s) = Some s" if "hit" "q = [] \<or> hd q = CHR 0x0A" "m < Suc t"
    using that it by (cases q) (simp_all add: resume_def Let_def)
qed

lemma resume_finds:
  assumes "pos it r c t line m hit"
  shows "Suc line = t \<Longrightarrow> \<exists>it2. pos it2 r c t t (max m t) True \<and> resume clz it (CHR 0x0B # p) s =
      resume clz it2 (drop (length (takeWhile (\<lambda>c. \<not> separator c) p)) p) (s @ [(int c, t, hd (hd (cells p)))])"
    and "hit \<Longrightarrow> t = 0 \<Longrightarrow> \<exists>it2. pos it2 r (Suc c) t 0 m True \<and> resume clz it (CHR 0x09 # p) s =
      resume clz it2 (drop (length (takeWhile (\<lambda>c. \<not> separator c) p)) p) (s @ [(int (Suc c), t, hd (hd (cells p)))])"
    and "\<not> hit \<Longrightarrow> q = [] \<or> hd q = CHR 0x0A \<or> hd q = CHR 0x09 \<Longrightarrow>
      \<exists>it2. pos it2 r c t line m True \<and> resume clz it q s = resume clz it2 q (s @ [(int c, t, [])])"
proof -
  have it: "rowstart it = Some r" "part_col it = int c" "target_line_in_block it = t" "line_in_block it = line"
    "max_line_in_block it = m" "hit_target_line it = hit" using assms by (simp_all add: pos_def)
  show "\<exists>it2. pos it2 r c t t (max m t) True \<and> resume clz it (CHR 0x0B # p) s =
      resume clz it2 (drop (length (takeWhile (\<lambda>c. \<not> separator c) p)) p) (s @ [(int c, t, hd (hd (cells p)))])"
    if "Suc line = t"
    by (rule resume_found [where ?it1.0 = "it\<lparr>line_in_block := t, max_line_in_block := max m t\<rparr>" and hit = hit])
      (use that it in \<open>simp_all add: pos_def Let_def\<close>)
  show "\<exists>it2. pos it2 r (Suc c) t 0 m True \<and> resume clz it (CHR 0x09 # p) s =
      resume clz it2 (drop (length (takeWhile (\<lambda>c. \<not> separator c) p)) p) (s @ [(int (Suc c), t, hd (hd (cells p)))])"
    if "hit" "t = 0"
    by (rule resume_found [where ?it1.0 = "it\<lparr>hit_target_line := False, line_in_block := 0, part_col := part_col it + 1\<rparr>" and hit = False])
      (use that it in \<open>simp_all add: pos_def Let_def\<close>)
  show "\<exists>it2. pos it2 r c t line m True \<and> resume clz it q s = resume clz it2 q (s @ [(int c, t, [])])"
    if "\<not> hit" and q: "q = [] \<or> hd q = CHR 0x0A \<or> hd q = CHR 0x09"
  proof -
    have "part_loop clz it q = Some (True, (update_length clz q it)\<lparr>hit_target_line := True\<rparr>)"
      using that it(6) by (cases q) auto
    from resume_found [OF this assms, of s] q show ?thesis by (cases q) (auto simp: separator_def)
  qed
qed

text \<open>A pass from any position; \<open>rest\<close> is what the passes after it find.\<close>

lemma resume_pass:
  assumes later: "\<And>it s. Suc t \<le> M \<Longrightarrow> pos it r 0 (Suc t) 0 M False \<Longrightarrow> map_option snd (resume clz it r s) = Some (s @ rest)"
    and last: "M < Suc t \<Longrightarrow> rest = []"
    and "pos it r c t line m hit" "hit \<longleftrightarrow> t \<le> line" "deepest p line m = M"
  shows "map_option snd (resume clz it p s) = Some (s @ scan t p c line @ rest)"
  using assms(3-5)
proof (induction "length p" arbitrary: it c line m hit p s rule: less_induct)
  case less
  have at_end: "map_option snd (resume clz it q s) = Some (s @ rest)"
    if stop: "pos it r c t line M True" "q = [] \<or> hd q = CHR 0x0A" for it q s
  proof (cases "Suc t \<le> M")
    case True
    obtain it2 where "pos it2 r 0 (Suc t) 0 M False" "resume clz it q s = resume clz it2 r s"
      using resume_steps(4) [OF stop(1) TrueI stop(2) True] by blast
    then show ?thesis using later [OF True] by simp
  next
    case False
    then show ?thesis using resume_steps(5) [OF stop(1) TrueI stop(2)] last by simp
  qed
  have at_tab: "map_option snd (resume clz it (CHR 0x09 # p') s) =
      Some (s @ (if t = 0 then [(int (Suc c), t, hd (hd (cells p')))] else []) @ scan t p' (Suc c) 0 @ rest)"
    if tab: "pos it r c t line m True" "p = CHR 0x09 # p'" for it p' s
  proof -
    have M: "deepest p' 0 m = M" using less.prems(3) tab(2) by (simp add: deepest_simps)
    show ?thesis
    proof (cases "t = 0")
      case True
      obtain it2 where "pos it2 r (Suc c) t 0 m True" "resume clz it (CHR 0x09 # p') s =
          resume clz it2 (drop (length (takeWhile (\<lambda>c. \<not> separator c) p')) p') (s @ [(int (Suc c), t, hd (hd (cells p')))])"
        using resume_finds(2) [OF tab(1) TrueI True] by blast
      moreover have "length (drop (length (takeWhile (\<lambda>c. \<not> separator c) p')) p') < length p" using tab(2) by simp
      ultimately show ?thesis
        using less.hyps [of "drop (length (takeWhile (\<lambda>c. \<not> separator c) p')) p'" it2 "Suc c" 0 m True
            "s @ [(int (Suc c), t, hd (hd (cells p')))]"] True M
        by (simp only: skip_part) simp
    next
      case False
      obtain it2 where "pos it2 r (Suc c) t 0 m False" "resume clz it (CHR 0x09 # p') s = resume clz it2 p' s"
        using resume_steps(3) [OF tab(1) TrueI] False by blast
      then show ?thesis using less.hyps [of p' it2 "Suc c" 0 m False] False M tab(2) by simp
    qed
  qed
  consider (stop) "p = [] \<or> hd p = CHR 0x0A" | (vt) p' where "p = CHR 0x0B # p'" | (tab) p' where "p = CHR 0x09 # p'"
    | (other) x p' where "p = x # p'" "\<not> separator x"
    by (cases p) (auto simp: separator_def)
  then show ?case
  proof cases
    case stop
    then have p: "scan t p c line = (if hit then [] else [(int c, t, [])])" "m = M"
      using less.prems(2,3) by (cases p; force simp: scan_simps deepest_simps)+
    show ?thesis
    proof (cases hit)
      case True
      then show ?thesis using at_end [OF _ stop] less.prems(1) p by simp
    next
      case False
      then obtain it2 where "pos it2 r c t line m True" "resume clz it p s = resume clz it2 p (s @ [(int c, t, [])])"
        using resume_finds(3) [OF less.prems(1), of p] stop by blast
      then show ?thesis using at_end [OF _ stop, of it2 "s @ [(int c, t, [])]"] p False by simp
    qed
  next
    case vt
    have M: "deepest p' (Suc line) (max m (Suc line)) = M" using less.prems(3) vt by (simp add: deepest_simps)
    show ?thesis
    proof (cases "Suc line = t")
      case True
      obtain it2 where "pos it2 r c t t (max m t) True" "resume clz it (CHR 0x0B # p') s =
          resume clz it2 (drop (length (takeWhile (\<lambda>c. \<not> separator c) p')) p') (s @ [(int c, t, hd (hd (cells p')))])"
        using resume_finds(1) [OF less.prems(1) True] by blast
      then show ?thesis
        using less.hyps [of "drop (length (takeWhile (\<lambda>c. \<not> separator c) p')) p'" it2 c t "max m t" True
            "s @ [(int c, t, hd (hd (cells p')))]"] True M vt
        by (auto simp: skip_part scan_simps)
    next
      case False
      obtain it2 where "pos it2 r c t (Suc line) (max m (Suc line)) hit" "resume clz it (CHR 0x0B # p') s = resume clz it2 p' s"
        using resume_steps(2) [OF less.prems(1) False] by blast
      then show ?thesis
        using less.hyps [of p' it2 c "Suc line" "max m (Suc line)" hit] False M vt less.prems(2) by (auto simp: scan_simps)
    qed
  next
    case tab
    show ?thesis
    proof (cases hit)
      case True
      then show ?thesis using at_tab less.prems(1,2) tab by (simp add: scan_simps)
    next
      case False
      then obtain it2 where "pos it2 r c t line m True" "resume clz it p s = resume clz it2 p (s @ [(int c, t, [])])"
        using resume_finds(3) [OF less.prems(1), of p] tab by auto
      then show ?thesis using at_tab [of it2 p' "s @ [(int c, t, [])]"] False less.prems(2) tab by (simp add: scan_simps)
    qed
  next
    case other
    then show ?thesis
      using resume_steps(1) [OF less.prems(1) other(2)] less.hyps [of p' it c line m hit] less.prems
      by (simp add: scan_simps(5) deepest_simps(5))
  qed
qed

lemma scan_row: "0 < t \<Longrightarrow> scan t r 0 0 = line_parts 0 t (cells r)"
proof -
  obtain l ls css where "cells r = (l # ls) # css" by (rule cells_cases)
  then show "0 < t \<Longrightarrow> scan t r 0 0 = line_parts 0 t (cells r)" by (simp add: scan_def)
qed

lemma resume_passes:
  assumes "pos it r 0 t 0 (block_lines (cells r)) False" "0 < t" "t \<le> block_lines (cells r)"
  shows "map_option snd (resume clz it r s) =
    Some (s @ concat (map (\<lambda>t. line_parts 0 t (cells r)) [t..<Suc (block_lines (cells r))]))"
  using assms
proof (induction "block_lines (cells r) - t" arbitrary: it t s)
  case 0
  then have "t = block_lines (cells r)" by simp
  then show ?case
    using resume_pass [of t "block_lines (cells r)" r clz "[]" it 0 0 "block_lines (cells r)" False r s] 0
    by (simp add: deepest_row scan_row)
next
  case (Suc k)
  let ?rest = "concat (map (\<lambda>t. line_parts 0 t (cells r)) [Suc t..<Suc (block_lines (cells r))])"
  have "map_option snd (resume clz it r s) = Some (s @ scan t r 0 0 @ ?rest)"
    by (rule resume_pass [where M = "block_lines (cells r)" and m = "block_lines (cells r)" and hit = False])
      (use Suc in \<open>auto simp: deepest_row\<close>)
  then show ?case using Suc.prems(2,3) by (simp add: scan_row upt_conv_Cons del: upt_Suc)
qed

text \<open>The loop visits the parts of the row.\<close>

lemma while_next_parts:
  assumes "rowstart it = Some r"
  shows "map_option snd (while_next clz collect (restartRow it) []) = Some (row_parts r)"
proof -
  let ?M = "block_lines (cells r)"
  let ?it = "update_length clz r ((restartRow it)\<lparr>part_col := 0\<rparr>)"
  obtain l ls css where g: "cells r = (l # ls) # css" by (rule cells_cases)
  have len: "part_len ?it = length (takeWhile (\<lambda>c. \<not> separator c) r)"
    by (simp add: update_length_def split_beta part_length_text)
  then have first: "take (part_len ?it) r = l" using first_part [of r] g by (metis list.sel(1) takeWhile_eq_take)
  have fields: "part_col ?it = 0" "target_line_in_block ?it = 0" "line_in_block ?it = 0" "max_line_in_block ?it = 0"
    "hit_target_line ?it" "rowstart ?it = Some r" "part_ptr ?it = Some r"
    using assms by (simp_all add: restartRow_def)
  then have pos: "pos ?it r 0 0 0 0 True" by (simp add: pos_def)
  have "next_part clz (restartRow it) = Some (True, ?it)" using assms by (simp add: next_part_def restartRow_def)
  moreover have "collect ?it [] = Some [(0, 0, l)]" using fields first by (simp add: collect_def)
  moreover have "next_part clz ?it = part_loop clz ?it (drop (length (takeWhile (\<lambda>c. \<not> separator c) r)) r)"
    using fields len by (simp add: next_part_def)
  ultimately have "while_next clz collect (restartRow it) [] =
      resume clz ?it (drop (length (takeWhile (\<lambda>c. \<not> separator c) r)) r) [(0, 0, l)]"
    by (simp add: resume_def while_next.simps [of clz collect "restartRow it"] while_next.simps [of clz collect ?it])
  moreover have "map_option snd (resume clz ?it (drop (length (takeWhile (\<lambda>c. \<not> separator c) r)) r) [(0, 0, l)]) =
      Some ([(0, 0, l)] @ scan 0 (drop (length (takeWhile (\<lambda>c. \<not> separator c) r)) r) 0 0
        @ concat (map (\<lambda>t. line_parts 0 t (cells r)) [1..<Suc ?M]))"
  proof (rule resume_pass [where M = ?M, OF _ _ pos])
    show "map_option snd (resume clz it r s) = Some (s @ concat (map (\<lambda>t. line_parts 0 t (cells r)) [1..<Suc ?M]))"
      if "Suc 0 \<le> ?M" "pos it r 0 (Suc 0) 0 ?M False" for it s
      using resume_passes [OF that(2) _ that(1)] by (simp del: upt_Suc)
    show "deepest (drop (length (takeWhile (\<lambda>c. \<not> separator c) r)) r) 0 0 = ?M"
      unfolding skip_part(2) by (simp add: deepest_row)
  qed simp_all
  moreover have "[(0, 0, l)] @ scan 0 r 0 0 = line_parts 0 0 (cells r)"
    by (simp add: scan_def g line_at_def)
  moreover have "[0..<Suc ?M] = 0 # [1..<Suc ?M]" by (simp add: upt_conv_Cons del: upt_Suc)
  ultimately show ?thesis unfolding row_parts_def skip_part(1) by (simp only: list.map concat.simps append_assoc [symmetric])
qed

end
