(* ===== verification/Command_Line.thy ===== *)
theory Command_Line
  imports Program Option_Parser
begin

text \<open>
  The command line of the program: the table of options (\<open>arguments.h\<close>) and what \<open>main\<close> reads from the
  arrays that the parser fills.
\<close>

section \<open>The options of the program\<close>

definition UNKNOWN :: nat where "UNKNOWN = 0"
definition HELP :: nat where "HELP = 1"
definition CONFIG_FILE :: nat where "CONFIG_FILE = 2"
definition OUTPUT_FILE :: nat where "OUTPUT_FILE = 3"
definition SHM :: nat where "SHM = 4"

lemmas option_indices = UNKNOWN_def HELP_def CONFIG_FILE_def OUTPUT_FILE_def SHM_def

text \<open>The argument is required.\<close>

definition check_inp :: "option_text \<Rightarrow> bool \<Rightarrow> ArgStatus" where
  "check_inp opt msg = (if opt_arg opt \<noteq> None then ARG_OK else ARG_ILLEGAL)"

definition program_usage :: "Descriptor list" where
  "program_usage =
     [\<lparr>desc_index = UNKNOWN, desc_type = 0, shortopt = [], longopt = [], check_arg = Arg_None,
       help_text = Some (CHR 0x0A # ''eProsima Discovery Server configuration execution tool'' @
         CHR 0x0A # CHR 0x0A # ''Usage: tool -c donfig_file.xml [-s]'' @ [CHR 0x0A])\<rparr>,
      \<lparr>desc_index = HELP, desc_type = 0, shortopt = ''h'', longopt = ''help'', check_arg = Arg_None,
       help_text = Some (''  -h  '' @ CHR 0x09 # ''--help       Produce help message.'' @ [CHR 0x0A])\<rparr>,
      \<lparr>desc_index = CONFIG_FILE, desc_type = 0, shortopt = ''c'', longopt = ''config-file'', check_arg = check_inp,
       help_text = Some (''  -c '' @ CHR 0x09 # ''--config-file  Mandatory configuration file path'' @ [CHR 0x0A])\<rparr>,
      \<lparr>desc_index = OUTPUT_FILE, desc_type = 0, shortopt = ''o'', longopt = ''output-file'', check_arg = check_inp,
       help_text = Some (''  -o '' @ CHR 0x09 # ''--output-file  File to write result snapshots. If not specified'' @
         '' snapshots will be written in the file specified in the snapshot'' @ [CHR 0x0A])\<rparr>,
      \<lparr>desc_index = SHM, desc_type = 0, shortopt = ''s'', longopt = ''disabled-shared-memory'', check_arg = Arg_None,
       help_text = Some (''  -s '' @ CHR 0x09 # ''--shared-memory     Disable Shared Memory.'' @ [CHR 0x0A])\<rparr>]"

text \<open>
  \<open>main\<close> skips the name of the program, lets the parser compute the sizes, makes the arrays and parses
  without permuting arguments, abbreviations or long options with a single minus. \<open>std::string\<close> is built
  from the argument of \<open>-c\<close> and of \<open>-o\<close>.
\<close>

definition command_line :: "string list \<Rightarrow> options run" where
  "command_line argv =
     (let argv = drop 1 argv; argc = int (length argv)
      in bind_run (count_arguments False program_usage argc argv 0 False (1, 1)) (\<lambda>((buffer_max, options_max), argv).
         bind_run (parse_arguments False program_usage argc argv 0 False (- 1)
                     (new_parser, new_arrays options_max buffer_max)) (\<lambda>(argv, parse, mem).
         bind_run (load_node mem (Options HELP)) (\<lambda>help.
         bind_run (load_node mem (Options CONFIG_FILE)) (\<lambda>pOp.
         bind_run (if used pOp
                   then bind_run (option_count mem (Options CONFIG_FILE)) (\<lambda>count.
                        bind_run (std_string (opt_arg pOp)) (\<lambda>path. Inr (Some (count, path))))
                   else Inr None) (\<lambda>path_to_config.
         bind_run (load_node mem (Options SHM)) (\<lambda>shm.
         bind_run (load_node mem (Options OUTPUT_FILE)) (\<lambda>pOp_of.
         bind_run (if used pOp_of then bind_run (std_string (opt_arg pOp_of)) (\<lambda>file_name. Inr (Some file_name))
                   else Inr None) (\<lambda>output_file.
         Inr \<lparr>parse_error = err parse, non_options = nat (nonop_count parse), show_help = used help,
              no_arguments = (argc = 0), config_option = path_to_config, output_option = output_file,
              shm_option = used shm\<rparr>)))))))))"

text \<open>The program from its argument vector.\<close>

definition main_program ::
  "'x tinyxml2 \<Rightarrow> ('x, 'g, 'p, 'q, 't, 'l, 'w) config \<Rightarrow> ('g::linorder, 'd, 'q, 'w) dds \<Rightarrow> 'w platform
    \<Rightarrow> 'g guid_text \<Rightarrow> clocks
    \<Rightarrow> ((address \<Rightarrow> address \<Rightarrow> bool) \<Rightarrow> address list \<Rightarrow> address list)
    \<Rightarrow> (pause \<Rightarrow> ('g, 'd, 'q, 'l) Manager \<times> 'w \<Rightarrow> ('g, 'd, 'q, 'l) Manager \<times> 'w)
    \<Rightarrow> (string \<Rightarrow> 'x option) \<Rightarrow> bool \<Rightarrow> 'g Snapshot \<Rightarrow> string list \<Rightarrow> 'w
    \<Rightarrow> (int \<times> string option \<times> (string \<times> 'x) option) run" where
  "main_program X C D P G clk std_sort waiting load_file dbg img argv w =
     bind_run (command_line argv) (\<lambda>opt. program X C D P G clk std_sort waiting load_file dbg img opt w)"

end
