(* ===== verification/Program_Messages.thy ===== *)
theory Program_Messages
  imports Command_Line Usage_Printing
begin

text \<open>
  What \<open>main\<close> writes to its standard output when it ends before it constructs the manager: the arguments
  it does not know, the usage message, or what is wrong with the configuration file.
\<close>

text \<open>\<open>noopts\<close> counts down, so that the last argument comes first.\<close>

fun unknown_arguments :: "string list \<Rightarrow> string \<Rightarrow> nat \<Rightarrow> string run" where
  "unknown_arguments args sep 0 = Inr []"
| "unknown_arguments args sep (Suc noopts) =
     bind_run (if noopts < length args then Inr (args ! noopts) else Inl Invalid_Access) (\<lambda>arg.
     bind_run (unknown_arguments args '', '' noopts) (\<lambda>text. Inr (sep @ arg @ text)))"

text \<open>The return code and the text, or \<open>None\<close> when \<open>main\<close> goes on.\<close>

definition early_message :: "leading_zeros \<Rightarrow> int \<Rightarrow> parser \<Rightarrow> memory \<Rightarrow> (int \<times> string) option run" where
  "early_message clz argc parse mem =
     (if err parse then Inr (Some (1, []))
      else
        let noopts = nonop_count parse
        in if noopts \<noteq> 0
           then bind_run (unknown_arguments (nonop_args parse)
                    (if noopts = 1 then ''argument: '' else ''arguments: '') (nat noopts)) (\<lambda>text.
                Inr (Some (1, ''Unknown '' @ text @ newline)))
           else
             bind_run (load_node mem (Options HELP)) (\<lambda>help.
             if used help \<or> argc = 0
             then bind_run (valid_run (printUsage clz program_usage 80 50 75 [])) (\<lambda>text. Inr (Some (0, text)))
             else
               bind_run (load_node mem (Options CONFIG_FILE)) (\<lambda>pOp.
               if \<not> used pOp
               then Inr (Some (1, ''Specify configuration file is mandatory: use -c or --config-file option.'' @ newline))
               else
                 bind_run (option_count mem (Options CONFIG_FILE)) (\<lambda>count.
                 if count \<noteq> 1
                 then Inr (Some (1, ''Only one configuration file can be specified.'' @ newline))
                 else Inr None))))"

definition main_message :: "leading_zeros \<Rightarrow> string list \<Rightarrow> (int \<times> string) option run" where
  "main_message clz argv =
     (let argv = drop 1 argv; argc = int (length argv)
      in bind_run (count_arguments False program_usage argc argv 0 False (1, 1)) (\<lambda>((buffer_max, options_max), argv).
         bind_run (parse_arguments False program_usage argc argv 0 False (- 1)
                     (new_parser, new_arrays options_max buffer_max)) (\<lambda>(argv, parse, mem).
         early_message clz argc parse mem)))"

end
