(* ===== verification/Linked_Options.thy ===== *)
theory Linked_Options
  imports Option_Parser
begin

text \<open>
  The linked options as lists: what \<open>first\<close>, \<open>count\<close> and \<open>append\<close> do on well formed links.
\<close>

section \<open>Chains of options\<close>

text \<open>The slots of a list in order; the ends have a tagged link to the other end.\<close>

definition chain :: "memory \<Rightarrow> slot list \<Rightarrow> bool" where
  "chain mem xs \<longleftrightarrow> xs \<noteq> [] \<and> distinct xs \<and> (\<forall>k<length xs. \<exists>n. mem (xs ! k) = Some n
     \<and> next_link n = (if Suc k < length xs then (xs ! Suc k, False) else (hd xs, True))
     \<and> prev_link n = (if k = 0 then (last xs, True) else (xs ! (k - 1), False)))"

lemma chainD:
  assumes "chain mem xs" "k < length xs"
  obtains n where "mem (xs ! k) = Some n"
    "next_link n = (if Suc k < length xs then (xs ! Suc k, False) else (hd xs, True))"
    "prev_link n = (if k = 0 then (last xs, True) else (xs ! (k - 1), False))"
  using assms unfolding chain_def by blast

lemma chain_nonempty: "chain mem xs \<Longrightarrow> xs \<noteq> []"
  by (simp add: chain_def)

lemma chain_frame:
  assumes "chain mem xs" "\<And>s. s \<in> set xs \<Longrightarrow> mem' s = mem s"
  shows "chain mem' xs"
  using assms unfolding chain_def by (metis nth_mem)

lemma first_slot_chain:
  assumes chain: "chain mem xs"
  shows "k < length xs \<Longrightarrow> first_slot mem (xs ! k) = Some (hd xs)"
proof (induction k)
  case 0
  obtain n where "mem (xs ! 0) = Some n" "isFirst n" by (rule chainD [OF chain 0]) (simp add: isFirst_def)
  then show ?case by (subst first_slot.simps) (simp add: hd_conv_nth chain_nonempty [OF chain])
next
  case (Suc k)
  obtain n where "mem (xs ! Suc k) = Some n" "prev_link n = (xs ! k, False)" by (rule chainD [OF chain Suc.prems]) simp
  with Suc show ?case by (subst first_slot.simps) (simp add: isFirst_def)
qed

lemma later_options_chain:
  assumes chain: "chain mem xs"
  shows "k < length xs \<Longrightarrow> later_options mem (xs ! k) c = Some (c + (length xs - Suc k))"
proof (induction "length xs - Suc k" arbitrary: k c)
  case 0
  then have k: "\<not> Suc k < length xs" by simp
  obtain n where "mem (xs ! k) = Some n" "isLast n" by (rule chainD [OF chain 0(2)]) (simp add: isLast_def k)
  with 0 show ?case by (subst later_options.simps) simp
next
  case (Suc j)
  then have k: "Suc k < length xs" "j = length xs - Suc (Suc k)" by simp_all
  obtain n where "mem (xs ! k) = Some n" "next_link n = (xs ! Suc k, False)"
    by (rule chainD [OF chain Suc.prems]) (simp add: k)
  then show ?case
    using Suc.hyps(1) [OF k(2,1)] k by (subst later_options.simps) (simp add: isLast_def)
qed

text \<open>\<open>count\<close> is the length of the list.\<close>

lemma option_count_chain:
  assumes chain: "chain mem xs" and used: "mem (hd xs) = Some n" "used n"
  shows "option_count mem (hd xs) = Inr (length xs)"
proof -
  have hd: "hd xs = xs ! 0" "0 < length xs" using chain_nonempty [OF chain] by (simp_all add: hd_conv_nth)
  show ?thesis
    using first_slot_chain [OF chain hd(2)] later_options_chain [OF chain hd(2), of 1] used hd
    by (simp add: option_count_def load_node_def valid_run_def)
qed

lemma chain_links:
  assumes chain: "chain mem xs" and k: "k < length xs"
  shows "next_option mem (xs ! k) = Inr (if Suc k < length xs then Some (xs ! Suc k) else None)"
    "prev_option mem (xs ! k) = Inr (if k = 0 then None else Some (xs ! (k - 1)))"
    "nextwrap mem (xs ! k) = Inr (xs ! (Suc k mod length xs))"
    "prevwrap mem (xs ! k) = Inr (if k = 0 then last xs else xs ! (k - 1))"
proof -
  obtain n where n: "mem (xs ! k) = Some n"
    "next_link n = (if Suc k < length xs then (xs ! Suc k, False) else (hd xs, True))"
    "prev_link n = (if k = 0 then (last xs, True) else (xs ! (k - 1), False))"
    by (rule chainD [OF chain k])
  have "Suc k mod length xs = (if Suc k < length xs then Suc k else 0)" using k by (simp add: mod_Suc)
  then show "next_option mem (xs ! k) = Inr (if Suc k < length xs then Some (xs ! Suc k) else None)"
    "prev_option mem (xs ! k) = Inr (if k = 0 then None else Some (xs ! (k - 1)))"
    "nextwrap mem (xs ! k) = Inr (xs ! (Suc k mod length xs))"
    "prevwrap mem (xs ! k) = Inr (if k = 0 then last xs else xs ! (k - 1))"
    using n chain_nonempty [OF chain]
    by (simp_all add: next_option_def prev_option_def nextwrap_def prevwrap_def load_node_def isLast_def isFirst_def hd_conv_nth)
qed

lemma last_slot_chain:
  assumes chain: "chain mem xs"
  shows "last_slot mem (hd xs) = Inr (last xs)"
proof -
  have hd: "hd xs = xs ! 0" "0 < length xs" using chain_nonempty [OF chain] by (simp_all add: hd_conv_nth)
  obtain n where "mem (xs ! 0) = Some n" "fst (prev_link n) = last xs" by (rule chainD [OF chain hd(2)]) simp
  then show ?thesis
    using first_slot_chain [OF chain hd(2)] hd(1) by (simp add: last_slot_def load_node_def valid_run_def)
qed

text \<open>\<open>append\<close> adds a slot at the end and touches the links of both ends only.\<close>

definition same_option :: "node option \<Rightarrow> node option \<Rightarrow> bool" where
  "same_option a b \<longleftrightarrow> map_option (\<lambda>n. (opt_name n, opt_arg n, opt_desc n)) a = map_option (\<lambda>n. (opt_name n, opt_arg n, opt_desc n)) b"

lemma append_option_chain:
  assumes chain: "chain mem xs" and new: "new \<notin> set xs" "mem new = Some n"
  shows "\<exists>mem'. append_option (hd xs) new mem = Inr mem' \<and> chain mem' (xs @ [new])
    \<and> (\<forall>s. same_option (mem' s) (mem s)) \<and> (\<forall>s. s \<noteq> hd xs \<longrightarrow> s \<noteq> last xs \<longrightarrow> s \<noteq> new \<longrightarrow> mem' s = mem s)"
proof -
  have ne: "xs \<noteq> []" by (rule chain_nonempty [OF chain])
  then have ends: "hd xs = xs ! 0" "0 < length xs" "last xs = xs ! (length xs - 1)" "length xs - 1 < length xs"
    by (simp_all add: hd_conv_nth last_conv_nth)
  obtain f where f: "mem (hd xs) = Some f" using chainD [OF chain ends(2)] ends(1) by metis
  obtain p where p: "mem (last xs) = Some p" using chainD [OF chain ends(4)] ends(3) by metis
  define mem1 where "mem1 = mem(last xs \<mapsto> p\<lparr>next_link := (new, False)\<rparr>)"
  define mem2 where "mem2 = mem1(new \<mapsto> n\<lparr>prev_link := (last xs, False)\<rparr>)"
  define mem3 where "mem3 = mem2(new \<mapsto> n\<lparr>prev_link := (last xs, False), next_link := (hd xs, True)\<rparr>)"
  have other: "new \<noteq> hd xs" "new \<noteq> last xs" using new(1) ne by auto
  obtain f' where f': "mem3 (hd xs) = Some f'"
    using f p other by (cases "hd xs = last xs") (simp_all add: mem1_def mem2_def mem3_def)
  define mem4 where "mem4 = mem3(hd xs \<mapsto> f'\<lparr>prev_link := (new, True)\<rparr>)"
  have run: "append_option (hd xs) new mem = Inr mem4"
    using first_slot_chain [OF chain ends(2)] f' new(2) other p
    by (simp add: append_option_def last_slot_chain [OF chain] ends(1) [symmetric] valid_run_def store_node_def
        load_node_def mem1_def mem2_def mem3_def mem4_def)
  have at: "mem4 s = (if s = hd xs then Some (if hd xs = last xs then p\<lparr>next_link := (new, False), prev_link := (new, True)\<rparr>
      else f\<lparr>prev_link := (new, True)\<rparr>) else if s = last xs then Some (p\<lparr>next_link := (new, False)\<rparr>)
      else if s = new then Some (n\<lparr>prev_link := (last xs, False), next_link := (hd xs, True)\<rparr>) else mem s)" for s
    using other f f' by (auto simp: mem1_def mem2_def mem3_def mem4_def)
  have "chain mem4 (xs @ [new])"
    unfolding chain_def
  proof (intro conjI allI impI)
    show "distinct (xs @ [new])" using chain new(1) by (simp add: chain_def)
    fix k
    assume k: "k < length (xs @ [new])"
    show "\<exists>n. mem4 ((xs @ [new]) ! k) = Some n
       \<and> next_link n = (if Suc k < length (xs @ [new]) then ((xs @ [new]) ! Suc k, False) else (hd (xs @ [new]), True))
       \<and> prev_link n = (if k = 0 then (last (xs @ [new]), True) else ((xs @ [new]) ! (k - 1), False))"
    proof (cases "k = length xs")
      case True
      then show ?thesis using ne other by (simp add: at nth_append ends(3))
    next
      case False
      then have k: "k < length xs" using k by simp
      have d: "distinct xs" using chain by (simp add: chain_def)
      have eq: "xs ! k = hd xs \<longleftrightarrow> k = 0" "xs ! k = last xs \<longleftrightarrow> k = length xs - 1"
        using nth_eq_iff_index_eq [OF d k ends(2)] nth_eq_iff_index_eq [OF d k ends(4)] ends(1,3) by simp_all
      have "xs ! k \<noteq> new" using new(1) k by auto
      moreover obtain m where "mem (xs ! k) = Some m"
        "next_link m = (if Suc k < length xs then (xs ! Suc k, False) else (hd xs, True))"
        "prev_link m = (if k = 0 then (last xs, True) else (xs ! (k - 1), False))"
        by (rule chainD [OF chain k])
      ultimately show ?thesis
        using k f p eq ne ends
        by (cases "k = 0"; cases "k = length xs - 1")
          (auto simp: at nth_append less_Suc_eq, metis Suc_le_eq Suc_lessI ends(2) le_antisym not_less_eq_eq)
    qed
  qed simp
  moreover have "same_option (mem4 s) (mem s)" for s
    using f p new(2) by (auto simp: at same_option_def)
  moreover have "mem4 s = mem s" if "s \<noteq> hd xs" "s \<noteq> last xs" "s \<noteq> new" for s
    using that by (simp add: at)
  ultimately show ?thesis using run by blast
qed

end
