(* ===== verification/Option_Reading.thy ===== *)
theory Option_Reading
  imports Linked_Options
begin

text \<open>
  The command line parser against a plain reading of the arguments: which options it finds, which
  arguments it leaves, and that the arrays sized by the first pass hold what the second stores.
\<close>

section \<open>A reading of the arguments\<close>

text \<open>
  The options of a word, as a list: whether no check refused an argument, the options, and whether the
  next argument belongs to the last of them. \<open>chosen\<close> is the option with its potential argument.
\<close>

fun read_group :: "Descriptor list \<Rightarrow> bool \<Rightarrow> string option \<Rightarrow> string \<Rightarrow> bool \<times> Option list \<times> bool" where
  "read_group usage msg nxt [] = (True, [], False)"
| "read_group usage msg nxt (c # cs) =
     (case chosen_descriptor usage (find_descriptor (\<lambda>d. instr c (shortopt d)) usage) of
        None \<Rightarrow> read_group usage msg nxt cs
      | Some d \<Rightarrow>
          let opt = init_option (Some d) (Some (c # cs)) (if cs = [] then nxt else Some cs)
          in case check_arg d (option_text.truncate opt) msg of
               ARG_ILLEGAL \<Rightarrow> (False, [], False)
             | ARG_OK \<Rightarrow> (True, [opt], cs = [] \<and> nxt \<noteq> None)
             | _ \<Rightarrow> let (ok, opts, taken) = read_group usage msg nxt cs in (ok, opt\<lparr>opt_arg := None\<rparr> # opts, taken))"

text \<open>The value attached to a long option, if there is one.\<close>

definition attached_value :: "string \<Rightarrow> string option" where
  "attached_value nm = (case dropWhile (\<lambda>c. c \<noteq> CHR ''='') nm of [] \<Rightarrow> None | _ # v \<Rightarrow> Some v)"

definition read_long :: "Descriptor list \<Rightarrow> bool \<Rightarrow> string option \<Rightarrow> string \<Rightarrow> bool \<times> Option list \<times> bool" where
  "read_long usage msg nxt nm =
     (case chosen_descriptor usage (find_descriptor (\<lambda>d. streq (longopt d) nm) usage) of
        None \<Rightarrow> (True, [], False)
      | Some d \<Rightarrow>
          let separate = (attached_value nm = None \<and> nxt \<noteq> None);
              opt = init_option (Some d) (Some (''--'' @ nm)) (case attached_value nm of None \<Rightarrow> nxt | Some v \<Rightarrow> Some v)
          in case check_arg d (option_text.truncate opt) msg of
               ARG_ILLEGAL \<Rightarrow> (False, [], False)
             | ARG_OK \<Rightarrow> (True, [opt], separate)
             | _ \<Rightarrow> (True, [opt\<lparr>opt_arg := None\<rparr>], False))"

definition read_word :: "Descriptor list \<Rightarrow> bool \<Rightarrow> string option \<Rightarrow> string \<Rightarrow> bool \<times> Option list \<times> bool" where
  "read_word usage msg nxt param =
     (if hd (tl param) = CHR ''-'' then read_long usage msg nxt (tl (tl param))
      else read_group usage msg nxt (tl param))"

definition next_word :: "string list \<Rightarrow> string option" where
  "next_word rest = (case rest of [] \<Rightarrow> None | w # _ \<Rightarrow> Some w)"

text \<open>All words up to \<open>--\<close> or the first that is no option, and the arguments that are left.\<close>

function read_arguments :: "Descriptor list \<Rightarrow> bool \<Rightarrow> string list \<Rightarrow> bool \<times> Option list \<times> string list" where
  "read_arguments usage msg [] = (True, [], [])"
| "read_arguments usage msg (param # rest) =
     (if non_option param then (True, [], param # rest)
      else if param = ''--'' then (True, [], rest)
      else
        let (ok, opts, taken) = read_word usage msg (next_word rest) param
        in if \<not> ok then (False, opts, [])
           else let (ok, opts', left) = read_arguments usage msg (if taken then tl rest else rest)
                in (ok, opts @ opts', left))"
  by pat_completeness auto
termination by (relation "measure (\<lambda>(_, _, args). length args)") auto

text \<open>The action performed on each option in turn, until it refuses one.\<close>

fun perform_all :: "'s action \<Rightarrow> Option list \<Rightarrow> 's \<Rightarrow> (bool \<times> 's) run" where
  "perform_all act [] s = Inr (True, s)"
| "perform_all act (opt # opts) s =
     bind_run (perform act opt s) (\<lambda>(go_on, s). if go_on then perform_all act opts s else Inr (False, s))"

lemma perform_all_append:
  "perform_all act (opts @ opts') s =
     bind_run (perform_all act opts s) (\<lambda>(go_on, s). if go_on then perform_all act opts' s else Inr (False, s))"
proof (induction opts arbitrary: s)
  case (Cons opt opts)
  then show ?case by (cases "perform act opt s") (auto split: prod.split)
qed simp

section \<open>The loop over the arguments performs the actions of the reading\<close>

lemma skip_argument_0: "cur_args (skip_argument 0 cur) = cur_args cur"
  by (simp add: skip_argument_def)

definition is_separate :: "optarg \<Rightarrow> bool" where
  "is_separate oa \<longleftrightarrow> (case oa of None \<Rightarrow> False | Some (v, separate) \<Rightarrow> separate)"

lemma is_separate_simps [simp]:
  "\<not> is_separate None" "is_separate (Some (v, separate)) \<longleftrightarrow> separate"
  by (simp_all add: is_separate_def)

lemma is_separate_argument [simp]: "is_separate (separate_argument hm cur) \<longleftrightarrow> separate_argument hm cur \<noteq> None"
  by (cases "separate_argument hm cur") (auto simp: separate_argument_def split: if_splits)

lemma take_option_run:
  assumes d: "chosen_descriptor usage idx = Some d" and sep: "is_separate oa \<longrightarrow> hm"
  shows "take_option usage act msg 0 hm param idx oa cur s =
    (let opt = init_option (Some d) (Some param) (map_option fst oa)
     in case check_arg d (option_text.truncate opt) msg of
       ARG_ILLEGAL \<Rightarrow> Inr (False, False, cur, s)
     | ARG_OK \<Rightarrow> bind_run (perform act opt s) (\<lambda>(go_on, s).
         Inr (go_on, False, if is_separate oa then skip_argument 0 cur else cur, s))
     | _ \<Rightarrow> bind_run (perform act (opt\<lparr>opt_arg := None\<rparr>) s) (\<lambda>(go_on, s). Inr (go_on, True, cur, s)))"
proof -
  have "(case oa of Some (_, True) \<Rightarrow> if hm then skip_argument 0 cur else cur | _ \<Rightarrow> cur)
      = (if is_separate oa then skip_argument 0 cur else cur)"
    using sep by (auto simp: is_separate_def split: option.splits bool.splits)
  then show ?thesis by (simp only: take_option_def d option.case Let_def)
qed

lemma option_group_reads:
  assumes "perform_all act opts s = Inr (b, s')"
    and "read_group usage msg (map_option fst (separate_argument hm cur)) cs = (ok, opts, taken)"
  shows "\<exists>cur'. cur_args cur' = cur_args cur \<and> (b \<and> ok \<longrightarrow> cur' = (if taken then skip_argument 0 cur else cur))
    \<and> option_group usage act msg ab 0 ln hm (c0 # cs) True False cur s = Inr (b \<and> ok, cur', s')"
  using assms
proof (induction cs arbitrary: opts s c0 ok)
  case Nil
  then show ?case by (auto simp: option_group.simps [of _ _ _ _ _ _ _ "[c0]"] select_option_def)
next
  case (Cons c cs)
  let ?idx = "find_descriptor (\<lambda>d. instr c (shortopt d)) usage"
  let ?sep = "separate_argument hm cur"
  define oa where "oa = (if cs = [] then ?sep else Some (cs, False))"
  have "select_option usage ab ln hm cur (c0 # c # cs) True False = Some (c # cs, True, ?idx, oa)"
    by (simp add: select_option_def oa_def)
  then have step: "option_group usage act msg ab 0 ln hm (c0 # c # cs) True False cur s =
      (case take_option usage act msg 0 hm (c # cs) ?idx oa cur s of
         Inl e \<Rightarrow> Inl e
       | Inr (go_on, again, cur, s) \<Rightarrow>
           if \<not> go_on then Inr (False, cur, s)
           else if again then option_group usage act msg ab 0 ln hm (c # cs) True False cur s
           else Inr (True, cur, s))"
    by (simp only: option_group.simps [of usage act msg ab 0 ln hm "c0 # c # cs" True False cur s] option.case prod.case
        simp_thms cong: sum.case_cong prod.case_cong)
  show ?case
  proof (cases "chosen_descriptor usage ?idx")
    case None
    then have "read_group usage msg (map_option fst ?sep) cs = (ok, opts, taken)"
      using Cons.prems(2) by simp
    from Cons.IH [OF Cons.prems(1) this, of c] show ?thesis
      by (simp add: step take_option_def None)
  next
    case (Some d)
    define opt where "opt = init_option (Some d) (Some (c # cs)) (if cs = [] then map_option fst ?sep else Some cs)"
    have opt: "init_option (Some d) (Some (c # cs)) (map_option fst oa) = opt" by (simp add: oa_def opt_def)
    have hm: "is_separate oa \<longrightarrow> hm" by (auto simp: oa_def separate_argument_def split: if_splits)
    have taken: "is_separate oa \<longleftrightarrow> cs = [] \<and> map_option fst ?sep \<noteq> None" by (simp add: oa_def)
    note reads = Cons.prems(2) [unfolded read_group.simps Some option.case Let_def, folded opt_def]
    note run = take_option_run [where oa = oa and act = act and msg = msg and param = "c # cs" and cur = cur and s = s,
        OF Some hm, unfolded opt Let_def taken]
    have more: ?thesis
      if check: "check_arg d (option_text.truncate opt) msg \<in> {ARG_NONE, ARG_IGNORE}"
    proof -
      obtain opts1 taken1 where rest: "read_group usage msg (map_option fst ?sep) cs = (ok, opts1, taken)"
        and opts: "opts = opt\<lparr>opt_arg := None\<rparr> # opts1"
        using reads check by (auto split: prod.splits)
      obtain b1 s1 where 1: "perform act (opt\<lparr>opt_arg := None\<rparr>) s = Inr (b1, s1)"
        and 2: "(if b1 then perform_all act opts1 s1 else Inr (False, s1)) = Inr (b, s')"
        using Cons.prems(1) by (auto simp: opts bind_run_Inr_iff)
      have go: "take_option usage act msg 0 hm (c # cs) ?idx oa cur s = Inr (b1, True, cur, s1)"
        using check 1 by (auto simp: run)
      show ?thesis
      proof (cases b1)
        case True
        with 2 have "perform_all act opts1 s1 = Inr (b, s')" by simp
        from Cons.IH [OF this rest, of c] show ?thesis by (simp add: step go True)
      next
        case False
        with 2 show ?thesis by (auto simp: step go)
      qed
    qed
    show ?thesis
    proof (cases "check_arg d (option_text.truncate opt) msg")
      case ARG_ILLEGAL
      then have "take_option usage act msg 0 hm (c # cs) ?idx oa cur s = Inr (False, False, cur, s)"
        by (simp add: run)
      moreover have "opts = []" "\<not> ok" using reads ARG_ILLEGAL by simp_all
      ultimately show ?thesis using Cons.prems(1) by (simp only: step) auto
    next
      case ARG_OK
      then have opts: "opts = [opt]" "ok" "taken \<longleftrightarrow> cs = [] \<and> map_option fst ?sep \<noteq> None"
        using reads by simp_all
      then have "perform act opt s = Inr (b, s')"
        using Cons.prems(1) by (auto simp: bind_run_Inr_iff split: if_splits)
      then have "take_option usage act msg 0 hm (c # cs) ?idx oa cur s =
          Inr (b, False, if taken then skip_argument 0 cur else cur, s')"
        by (simp add: run ARG_OK opts(3))
      then show ?thesis by (simp add: step opts(2) skip_argument_0)
    qed (use more in simp_all)
  qed
qed

lemma option_long_reads:
  assumes param: "param = ''--'' @ nm" and perform: "perform_all act opts s = Inr (b, s')"
    and reads: "read_long usage msg (map_option fst (separate_argument hm cur)) nm = (ok, opts, taken)"
  shows "\<exists>cur'. cur_args cur' = cur_args cur \<and> (b \<and> ok \<longrightarrow> cur' = (if taken then skip_argument 0 cur else cur))
    \<and> option_group usage act msg 0 0 nm hm param False False cur s = Inr (b \<and> ok, cur', s')"
proof -
  let ?sep = "separate_argument hm cur"
  define idx where "idx = find_descriptor (\<lambda>d. streq (longopt d) nm) usage"
  define oa where "oa = (case dropWhile (\<lambda>c. c \<noteq> CHR ''='') nm of [] \<Rightarrow> ?sep | _ # v \<Rightarrow> Some (v, False))"
  have "select_option usage 0 nm hm cur param False False = Some (param, False, idx, oa)"
    by (simp add: select_option_def find_long_option_def idx_def oa_def)
  then have step: "option_group usage act msg 0 0 nm hm param False False cur s =
      (case take_option usage act msg 0 hm param idx oa cur s of
         Inl e \<Rightarrow> Inl e | Inr (go_on, again, cur, s) \<Rightarrow> Inr (go_on, cur, s))"
    by (simp add: option_group.simps [of usage act msg 0 0 nm hm param False False cur s]
        split: sum.split prod.split bool.split)
  have oa_text: "map_option fst oa = (case attached_value nm of None \<Rightarrow> map_option fst ?sep | Some v \<Rightarrow> Some v)"
    and taken: "is_separate oa \<longleftrightarrow> attached_value nm = None \<and> map_option fst ?sep \<noteq> None"
    unfolding oa_def attached_value_def by (cases "dropWhile (\<lambda>c. c \<noteq> CHR ''='') nm"; simp only: list.case; simp)+
  have hm: "is_separate oa \<longrightarrow> hm" unfolding taken by (simp add: separate_argument_def)
  show ?thesis
  proof (cases "chosen_descriptor usage idx")
    case None
    then have "ok" "opts = []" "\<not> taken" using reads by (simp_all add: read_long_def idx_def)
    moreover from this have "b" "s' = s" using perform by simp_all
    ultimately show ?thesis using None by (simp add: step take_option_def)
  next
    case (Some d)
    define opt where "opt = init_option (Some d) (Some param) (map_option fst oa)"
    note run = take_option_run [where oa = oa and act = act and msg = msg and param = param and cur = cur and s = s,
        OF Some hm, folded opt_def, unfolded Let_def taken]
    note reads = reads [unfolded read_long_def param [symmetric] idx_def [symmetric] Some option.case Let_def, folded oa_text opt_def]
    show ?thesis
    proof (cases "check_arg d (option_text.truncate opt) msg")
      case ARG_ILLEGAL
      then have "opts = []" "\<not> ok" using reads by simp_all
      moreover from this have "s' = s" using perform by simp
      ultimately show ?thesis using ARG_ILLEGAL by (simp add: step run)
    next
      case ARG_OK
      then have opts: "opts = [opt]" "ok" "taken \<longleftrightarrow> attached_value nm = None \<and> map_option fst ?sep \<noteq> None"
        using reads by simp_all
      then have "perform act opt s = Inr (b, s')" using perform by (auto simp: bind_run_Inr_iff split: if_splits)
      then show ?thesis by (simp add: step run ARG_OK opts(2,3) skip_argument_0)
    next
      case ARG_NONE
      then have opts: "opts = [opt\<lparr>opt_arg := None\<rparr>]" "ok" "\<not> taken" using reads by simp_all
      then have "perform act (opt\<lparr>opt_arg := None\<rparr>) s = Inr (b, s')"
        using perform by (auto simp: bind_run_Inr_iff split: if_splits)
      then show ?thesis by (simp add: step run ARG_NONE opts(2,3))
    next
      case ARG_IGNORE
      then have opts: "opts = [opt\<lparr>opt_arg := None\<rparr>]" "ok" "\<not> taken" using reads by simp_all
      then have "perform act (opt\<lparr>opt_arg := None\<rparr>) s = Inr (b, s')"
        using perform by (auto simp: bind_run_Inr_iff split: if_splits)
      then show ?thesis by (simp add: step run ARG_IGNORE opts(2,3))
    qed
  qed
qed

lemma option_word_reads:
  assumes word: "\<not> non_option param" and perform: "perform_all act opts s = Inr (b, s')"
    and reads: "read_word usage msg (map_option fst (separate_argument hm cur)) param = (ok, opts, taken)"
  shows "\<exists>cur'. cur_args cur' = cur_args cur \<and> (b \<and> ok \<longrightarrow> cur' = (if taken then skip_argument 0 cur else cur))
    \<and> option_group usage act msg 0 0 (if hd (tl param) \<noteq> CHR ''-'' then tl param else tl (tl param)) hm param
         (hd (tl param) \<noteq> CHR ''-'') False cur s = Inr (b \<and> ok, cur', s')"
proof -
  obtain c cs where param: "param = CHR ''-'' # c # cs"
    using word by (cases param; cases "tl param") (auto simp: non_option_def)
  show ?thesis
  proof (cases "c = CHR ''-''")
    case True
    then show ?thesis
      using option_long_reads [OF _ perform, of param cs usage msg hm cur ok taken] reads by (simp add: param read_word_def)
  next
    case False
    then show ?thesis
      using option_group_reads [OF perform, of usage msg hm cur "c # cs" ok taken 0 "c # cs" "CHR ''-''"] reads
      by (simp add: param read_word_def)
  qed
qed

lemma read_word_taken:
  "read_word usage msg nxt param = (ok, opts, taken) \<Longrightarrow> taken \<Longrightarrow> nxt \<noteq> None"
proof -
  have "taken \<Longrightarrow> nxt \<noteq> None" if "read_group usage msg nxt cs = (ok, opts, taken)" for cs ok opts
    using that by (induction cs arbitrary: ok opts) (auto simp: Let_def split: option.splits ArgStatus.splits prod.splits)
  then show "read_word usage msg nxt param = (ok, opts, taken) \<Longrightarrow> taken \<Longrightarrow> nxt \<noteq> None"
    by (auto simp: read_word_def read_long_def Let_def split: if_splits option.splits ArgStatus.splits)
qed

text \<open>The cursor at the rest of the arguments.\<close>

definition at_rest :: "string list \<Rightarrow> cursor \<Rightarrow> bool" where
  "at_rest rest cur \<longleftrightarrow> cur_pos cur \<le> length (cur_args cur) \<and> drop (cur_pos cur) (cur_args cur) = rest
     \<and> numargs cur = int (length rest)"

lemma at_rest_Cons:
  assumes "at_rest (param # rest) cur"
  shows "cur_pos cur < length (cur_args cur)" "cur_args cur ! cur_pos cur = param" "numargs cur = 1 + int (length rest)"
    "at_rest rest (skip_argument 0 cur)"
    "map_option fst (separate_argument (numargs cur > 1 \<or> numargs cur < 0) cur) = next_word rest"
proof -
  have d: "drop (cur_pos cur) (cur_args cur) = param # rest" and n: "numargs cur = 1 + int (length rest)"
    using assms by (simp_all add: at_rest_def)
  show lt: "cur_pos cur < length (cur_args cur)" using d by (metis drop_all list.distinct(1) not_le)
  show "cur_args cur ! cur_pos cur = param" using d by (metis lt hd_drop_conv_nth list.sel(1))
  show "numargs cur = 1 + int (length rest)" by (rule n)
  have r: "drop (Suc (cur_pos cur)) (cur_args cur) = rest" using d by (metis drop_Suc list.sel(3) tl_drop)
  then show "at_rest rest (skip_argument 0 cur)" using lt n by (simp add: at_rest_def skip_argument_def)
  show "map_option fst (separate_argument (numargs cur > 1 \<or> numargs cur < 0) cur) = next_word rest"
  proof (cases rest)
    case Nil
    then show ?thesis using n by (simp add: separate_argument_def next_word_def)
  next
    case (Cons w ws)
    then have "Suc (cur_pos cur) < length (cur_args cur)" "cur_args cur ! Suc (cur_pos cur) = w"
      using r by (metis drop_all list.distinct(1) not_le, metis drop_all hd_drop_conv_nth list.distinct(1) list.sel(1) not_le)
    then show ?thesis using n Cons by (simp add: separate_argument_def next_word_def)
  qed
qed

lemma scan_arguments_reads:
  assumes "read_arguments usage msg args = (ok, opts, rest)" "perform_all act opts s = Inr (b, s')" "at_rest args cur"
  shows "\<exists>cur'. cur_args cur' = cur_args cur \<and> (b \<and> ok \<longrightarrow> at_rest rest cur')
    \<and> scan_arguments False usage act False msg 0 0 cur s = Inr (b \<and> ok, 0, cur', s')"
  using assms
proof (induction usage msg args arbitrary: ok opts rest s cur rule: read_arguments.induct)
  case (1 usage msg)
  then have "scan_arguments False usage act False msg 0 0 cur s = Inr (True, 0, cur, s)"
    by (subst scan_arguments.simps) (simp add: at_rest_def)
  then show ?case using 1 by auto
next
  case (2 usage msg param left)
  note at = at_rest_Cons [OF "2.prems"(3)]
  let ?ln = "if hd (tl param) \<noteq> CHR ''-'' then tl param else tl (tl param)"
  let ?hm = "numargs cur > 1 \<or> numargs cur < 0"
  have step: "scan_arguments False usage act False msg 0 0 cur s =
      (if non_option param then Inr (True, 0, cur, s)
       else if param = ''--'' then Inr (True, 0, skip_argument 0 cur, s)
       else case option_group usage act msg 0 0 ?ln ?hm param (hd (tl param) \<noteq> CHR ''-'') False cur s of
              Inl e \<Rightarrow> Inl e
            | Inr (go_on, cur, s) \<Rightarrow>
                if \<not> go_on then Inr (False, 0, cur, s)
                else scan_arguments False usage act False msg 0 0 (skip_argument 0 cur) s)"
    using at(1-3) by (subst scan_arguments.simps) (simp add: Let_def)
  consider "non_option param" | "\<not> non_option param" "param = ''--''" | "\<not> non_option param" "param \<noteq> ''--''" by blast
  then show ?case
  proof cases
    case 1
    then have "ok" "rest = param # left" "b" "s' = s" using "2.prems"(1,2) by auto
    then show ?thesis using 1 "2.prems"(3) by (simp add: step)
  next
    case 2
    then have "ok" "rest = left" "b" "s' = s" using "2.prems"(1,2) by auto
    then show ?thesis using 2 at(4) by (simp add: step skip_argument_0)
  next
    case 3
    obtain ok1 opts1 taken where word: "read_word usage msg (next_word left) param = (ok1, opts1, taken)"
      by (metis prod_cases3)
    obtain ok2 opts2 rest2 where more: "read_arguments usage msg (if taken then tl left else left) = (ok2, opts2, rest2)"
      by (metis prod_cases3)
    have res: "(ok, opts, rest) = (if \<not> ok1 then (False, opts1, []) else (ok2, opts1 @ opts2, rest2))"
      using "2.prems"(1) 3 more by (auto simp: word split: if_splits)
    obtain b1 s1 where p1: "perform_all act opts1 s = Inr (b1, s1)"
      and p2: "ok1 \<Longrightarrow> (if b1 then perform_all act opts2 s1 else Inr (False, s1)) = Inr (b, s')"
      and p3: "\<not> ok1 \<Longrightarrow> b1 = b \<and> s1 = s'"
      using "2.prems"(2) res by (cases ok1) (auto simp: perform_all_append bind_run_Inr_iff)
    obtain cur1 where cur1: "cur_args cur1 = cur_args cur"
        "b1 \<and> ok1 \<Longrightarrow> cur1 = (if taken then skip_argument 0 cur else cur)"
      and run: "option_group usage act msg 0 0 ?ln ?hm param (hd (tl param) \<noteq> CHR ''-'') False cur s = Inr (b1 \<and> ok1, cur1, s1)"
      using option_word_reads [OF 3(1) p1, of usage msg ?hm cur ok1 taken] word at(5) by auto
    show ?thesis
    proof (cases "b1 \<and> ok1")
      case True
      have "at_rest (if taken then tl left else left) (skip_argument 0 cur1)"
      proof (cases taken)
        case True
        then obtain w ws where left: "left = w # ws"
          using read_word_taken [OF word] by (cases left) (auto simp: next_word_def)
        show ?thesis using at_rest_Cons(4) [of w ws] at(4) True cur1(2) \<open>b1 \<and> ok1\<close> by (simp add: left)
      qed (use at(4) cur1(2) \<open>b1 \<and> ok1\<close> in simp)
      from "2.IH" [OF 3(1,2) word [symmetric] refl refl _ more _ this] obtain cur' where
        "cur_args cur' = cur_args (skip_argument 0 cur1)" "b \<and> ok2 \<longrightarrow> at_rest rest2 cur'"
        "scan_arguments False usage act False msg 0 0 (skip_argument 0 cur1) s1 = Inr (b \<and> ok2, 0, cur', s')"
        using True p2 by auto
      then show ?thesis using True res by (auto simp: step 3 run skip_argument_0 cur1(1))
    next
      case False
      then have "\<not> (b \<and> ok)" "s1 = s'" using p2 p3 res by (auto split: if_splits)
      then show ?thesis using False by (auto simp: step 3 run cur1(1))
    qed
  qed
qed

lemma workhorse_reads:
  assumes reads: "read_arguments usage msg args = (ok, opts, rest)" and perform: "perform_all act opts s = Inr (b, s')"
  shows "workhorse False usage (int (length args)) args act False msg 0 s =
    (if b \<and> ok then (let (fin, s) = finished act (int (length rest)) rest s' in Inr (fin, args, s)) else Inr (False, args, s'))"
proof -
  have "at_rest args \<lparr>cur_args = args, cur_pos = 0, numargs = int (length args)\<rparr>" by (simp add: at_rest_def)
  from scan_arguments_reads [OF reads perform this] obtain cur' where
    cur': "cur_args cur' = args" "b \<and> ok \<longrightarrow> at_rest rest cur'"
      "scan_arguments False usage act False msg 0 0 \<lparr>cur_args = args, cur_pos = 0, numargs = int (length args)\<rparr> s
        = Inr (b \<and> ok, 0, cur', s')"
    by auto
  show ?thesis
  proof (cases "b \<and> ok")
    case True
    then have at: "at_rest rest cur'" using cur'(2) by simp
    then have "(if numargs cur' > 0 \<and> cur_pos cur' = length (cur_args cur') then 0 else numargs cur') = int (length rest)"
      by (auto simp: at_rest_def)
    moreover have "drop (cur_pos cur') args = rest" using at cur'(1) by (simp add: at_rest_def)
    ultimately show ?thesis using True cur' by (simp add: workhorse_def Let_def)
  next
    case False
    then show ?thesis using cur' by (auto simp: workhorse_def)
  qed
qed

end
