(* ===== verification/Option_Storage.thy ===== *)
theory Option_Storage
  imports Option_Reading
begin

text \<open>
  What the two passes of the parser do: the first counts the options of the reading, the second stores
  them, in order and linked by index, in arrays of the sizes the first has computed.
\<close>

section \<open>Counting\<close>

definition option_limit :: nat where
  "option_limit = nat 0x7fffffff"

lemma int_option_limit [simp]: "int option_limit = 0x7fffffff"
  by (simp add: option_limit_def)

lemma count_all:
  "n \<le> option_limit \<Longrightarrow> perform_all CountOptionsAction opts n =
     Inr (n + length opts \<le> option_limit, min (n + length opts) option_limit)"
proof (induction opts arbitrary: n)
  case (Cons opt opts)
  have eq: "int n = 0x7fffffff \<longleftrightarrow> n = option_limit" by (metis int_option_limit of_nat_eq_iff)
  show ?case
  proof (cases "n = option_limit")
    case True
    then have "perform CountOptionsAction opt n = Inr (False, n)" using True by (simp add: CountOptionsAction_def option_limit_def)
    then show ?thesis using True by simp
  next
    case False
    then have "perform CountOptionsAction opt n = Inr (True, Suc n)" "Suc n \<le> option_limit"
      using eq Cons.prems by (simp_all add: CountOptionsAction_def)
    then show ?thesis using Cons.IH [of "Suc n"] by simp
  qed
qed simp

section \<open>Storing\<close>

text \<open>The positions in the buffer of the options with an index, and the slots of their list.\<close>

definition has_index :: "nat \<Rightarrow> Option \<Rightarrow> bool" where
  "has_index i opt \<longleftrightarrow> (case opt_desc opt of None \<Rightarrow> False | Some d \<Rightarrow> desc_index d = i)"

definition picks :: "nat \<Rightarrow> Option list \<Rightarrow> nat list" where
  "picks i opts = filter (\<lambda>j. has_index i (opts ! j)) [0..<length opts]"

definition slots_of :: "nat \<Rightarrow> Option list \<Rightarrow> slot list" where
  "slots_of i opts = Options i # map Buffer (tl (picks i opts))"

lemma picks_less: "j \<in> set (picks i opts) \<Longrightarrow> j < length opts"
  by (simp add: picks_def)

lemma picks_snoc:
  "picks i (opts @ [opt]) = picks i opts @ (if has_index i opt then [length opts] else [])"
proof -
  have "filter (\<lambda>j. has_index i ((opts @ [opt]) ! j)) [0..<length opts] = picks i opts"
    unfolding picks_def by (rule filter_cong) (simp_all add: nth_append)
  then show ?thesis by (simp add: picks_def)
qed

lemma picks_filter: "map ((!) opts) (picks i opts) = filter (has_index i) opts"
proof (induction opts rule: rev_induct)
  case (snoc opt opts)
  have "map ((!) (opts @ [opt])) (picks i opts) = map ((!) opts) (picks i opts)"
    by (rule map_cong) (auto simp: nth_append dest: picks_less)
  with snoc show ?case by (simp add: picks_snoc)
qed (simp add: picks_def)

text \<open>A node holds an option.\<close>

definition holds :: "node option \<Rightarrow> Option \<Rightarrow> bool" where
  "holds n opt \<longleftrightarrow> map_option (\<lambda>n. (opt_name n, opt_arg n, opt_desc n)) n = Some (opt_name opt, opt_arg opt, opt_desc opt)"

lemma holds_same: "same_option n n' \<Longrightarrow> holds n opt \<longleftrightarrow> holds n' opt"
  by (simp add: holds_def same_option_def)

definition stores :: "nat \<Rightarrow> nat \<Rightarrow> Option list \<Rightarrow> memory \<Rightarrow> bool" where
  "stores options_max buffer_max opts mem \<longleftrightarrow>
     (\<forall>i. mem (Options i) \<noteq> None \<longleftrightarrow> i < options_max) \<and> (\<forall>j. mem (Buffer j) \<noteq> None \<longleftrightarrow> j < buffer_max)
     \<and> (\<forall>j<length opts. holds (mem (Buffer j)) (opts ! j))
     \<and> (\<forall>i<options_max. if picks i opts = [] then mem (Options i) = Some (unused_node (Options i))
          else chain mem (slots_of i opts) \<and> holds (mem (Options i)) (opts ! hd (picks i opts)))"

lemma stores_new: "stores options_max buffer_max [] (new_arrays options_max buffer_max)"
  by (simp add: stores_def new_arrays_def picks_def)

lemma holds_node:
  assumes "holds m opt"
  obtains n where "m = Some n" "opt_name n = opt_name opt" "opt_arg n = opt_arg opt" "opt_desc n = opt_desc opt"
  using assms by (auto simp: holds_def)

lemma holds_init [simp]: "holds (Some (init_node s (opt_desc opt) (opt_name opt) (opt_arg opt))) opt'
    \<longleftrightarrow> opt_name opt = opt_name opt' \<and> opt_arg opt = opt_arg opt' \<and> opt_desc opt = opt_desc opt'"
  by (simp add: holds_def init_node_def)

lemma chain_single: "chain (mem(s \<mapsto> init_node s d nm a)) [s]"
  by (simp add: chain_def init_node_def)

lemma tl_picks: "set (tl (picks i opts)) \<subseteq> set (picks i opts)"
  by (cases "picks i opts") auto

lemma slots_of_disjoint:
  assumes "i \<noteq> i'" "s \<in> set (slots_of i opts)"
  shows "s \<notin> set (slots_of i' opts)"
proof
  assume "s \<in> set (slots_of i' opts)"
  with assms obtain j where "j \<in> set (picks i opts)" "j \<in> set (picks i' opts)"
    using tl_picks unfolding slots_of_def by (auto dest!: set_mp)
  then show False using assms(1) by (auto simp: picks_def has_index_def split: option.splits)
qed

lemma buffer_not_slot: "length opts \<le> k \<Longrightarrow> Buffer k \<notin> set (slots_of i opts)"
  using tl_picks [of i opts] picks_less [of k i opts] by (auto simp: slots_of_def)

lemma slots_of_snoc:
  "slots_of i (opts @ [opt]) =
     slots_of i opts @ (if has_index i opt \<and> picks i opts \<noteq> [] then [Buffer (length opts)] else [])"
  by (cases "picks i opts") (simp_all add: slots_of_def picks_snoc)

text \<open>One option more: the copy in the buffer, and the head or the end of its list.\<close>

lemma store_option_stores:
  assumes stores: "stores options_max buffer_max opts mem" and room: "length opts < buffer_max" "length opts < option_limit"
    and count: "op_count p = length opts" and d: "opt_desc opt = Some d" "desc_index d < options_max"
  shows "\<exists>mem'. store_option (- 1) opt (p, mem) = Inr (True, p\<lparr>op_count := Suc (length opts)\<rparr>, mem')
    \<and> stores options_max buffer_max (opts @ [opt]) mem'"
proof -
  let ?k = "length opts" and ?i = "desc_index d"
  let ?b = "init_node (Buffer ?k) (opt_desc opt) (opt_name opt) (opt_arg opt)"
  define mem1 where "mem1 = mem(Buffer ?k \<mapsto> ?b)"
  have dom: "\<And>i. mem (Options i) \<noteq> None \<longleftrightarrow> i < options_max" "\<And>j. mem (Buffer j) \<noteq> None \<longleftrightarrow> j < buffer_max"
    and buffers: "\<And>j. j < ?k \<Longrightarrow> holds (mem (Buffer j)) (opts ! j)"
    and lists: "\<And>i. i < options_max \<Longrightarrow> if picks i opts = [] then mem (Options i) = Some (unused_node (Options i))
          else chain mem (slots_of i opts) \<and> holds (mem (Options i)) (opts ! hd (picks i opts))"
    using stores unfolding stores_def by blast+
  obtain h where h: "mem (Options ?i) = Some h" using dom(1) [of ?i] d(2) by auto
  obtain b0 where b0: "mem (Buffer ?k) = Some b0" using dom(2) [of ?k] room(1) by auto
  have used: "used h \<longleftrightarrow> picks ?i opts \<noteq> []"
  proof (cases "picks ?i opts")
    case Nil
    then show ?thesis using lists [OF d(2)] h by (simp add: used_def unused_node_def)
  next
    case (Cons j js)
    then have "has_index ?i (opts ! j)" by (auto simp: picks_def dest: filter_eq_ConsD)
    then show ?thesis using lists [OF d(2)] h Cons by (auto simp: used_def holds_def has_index_def split: option.splits)
  qed
  have ix: "has_index i opt \<longleftrightarrow> i = ?i" for i by (auto simp: has_index_def d(1))
  have limit: "int ?k \<noteq> 0x7fffffff" using room(2) by (metis int_option_limit of_nat_eq_iff less_irrefl)
  define act where "act = (if used h then append_option (Options ?i) (Buffer ?k) mem1 else assign_node (Options ?i) ?b mem1)"
  have run: "store_option (- 1) opt (p, mem) = bind_run act (\<lambda>mem. Inr (True, p\<lparr>op_count := Suc ?k\<rparr>, mem))"
    using b0 h d(1) limit
    by (simp add: store_option_def count assign_node_def store_node_def load_node_def mem1_def act_def init_node_def)
  have frame: "chain mem1 (slots_of i opts)" if "i < options_max" "picks i opts \<noteq> []" for i
  proof (rule chain_frame)
    show "chain mem (slots_of i opts)" using lists [OF that(1)] that(2) by simp
    show "mem1 s = mem s" if "s \<in> set (slots_of i opts)" for s
      using that buffer_not_slot [of opts ?k i] by (auto simp: mem1_def)
  qed
  obtain mem' where mem': "act = Inr mem'" "\<And>s. s \<notin> set (slots_of ?i (opts @ [opt])) \<Longrightarrow> mem' s = mem1 s"
    "chain mem' (slots_of ?i (opts @ [opt]))" "holds (mem' (Options ?i)) ((opts @ [opt]) ! hd (picks ?i (opts @ [opt])))"
    "\<And>j. same_option (mem' (Buffer j)) (mem1 (Buffer j))"
  proof (cases "picks ?i opts = []")
    case True
    then have picks: "picks ?i (opts @ [opt]) = [?k]" "slots_of ?i (opts @ [opt]) = [Options ?i]"
      by (simp_all add: picks_snoc ix slots_of_def)
    let ?mem = "mem1(Options ?i \<mapsto> init_node (Options ?i) (opt_desc opt) (opt_name opt) (opt_arg opt))"
    have "act = Inr ?mem"
      using True used h by (simp add: act_def assign_node_def store_node_def load_node_def mem1_def init_node_def)
    then show thesis by (rule that) (simp_all add: picks chain_single same_option_def)
  next
    case False
    have hd: "hd (slots_of ?i opts) = Options ?i" by (simp add: slots_of_def)
    from append_option_chain [OF frame [OF d(2) False] buffer_not_slot [of opts ?k] , of ?b] obtain mem' where
      m: "append_option (Options ?i) (Buffer ?k) mem1 = Inr mem'" "chain mem' (slots_of ?i opts @ [Buffer ?k])"
        "\<And>s. same_option (mem' s) (mem1 s)"
        "\<And>s. s \<noteq> Options ?i \<Longrightarrow> s \<noteq> last (slots_of ?i opts) \<Longrightarrow> s \<noteq> Buffer ?k \<Longrightarrow> mem' s = mem1 s"
      by (auto simp: mem1_def hd)
    have slots: "slots_of ?i (opts @ [opt]) = slots_of ?i opts @ [Buffer ?k]" using False by (simp add: slots_of_snoc ix)
    have first: "hd (picks ?i (opts @ [opt])) = hd (picks ?i opts)" "hd (picks ?i opts) < ?k"
      using False picks_less [of "hd (picks ?i opts)" ?i opts] by (simp_all add: picks_snoc)
    show thesis
    proof (rule that)
      show "act = Inr mem'" using m(1) used False by (simp add: act_def)
      show "mem' s = mem1 s" if "s \<notin> set (slots_of ?i (opts @ [opt]))" for s
      proof (rule m(4))
        have "last (slots_of ?i opts) \<in> set (slots_of ?i opts)" by (rule last_in_set) (simp add: slots_of_def)
        moreover have "Options ?i \<in> set (slots_of ?i opts)" by (simp add: slots_of_def)
        moreover have "s \<notin> set (slots_of ?i opts)" "s \<noteq> Buffer ?k" using that by (simp_all add: slots)
        ultimately show "s \<noteq> Options ?i" "s \<noteq> last (slots_of ?i opts)" "s \<noteq> Buffer ?k" by metis+
      qed
      show "chain mem' (slots_of ?i (opts @ [opt]))" using m(2) by (simp add: slots)
      have "holds (mem1 (Options ?i)) (opts ! hd (picks ?i opts))" using lists [OF d(2)] False by (simp add: mem1_def)
      then show "holds (mem' (Options ?i)) ((opts @ [opt]) ! hd (picks ?i (opts @ [opt])))"
        using holds_same [OF m(3)] first by (simp add: nth_append)
      show "same_option (mem' (Buffer j)) (mem1 (Buffer j))" for j by (rule m(3))
    qed
  qed
  have other: "mem' (Options i) = mem (Options i)" if "i \<noteq> ?i" for i
    using mem'(2) [of "Options i"] that by (auto simp: slots_of_def mem1_def)
  have "stores options_max buffer_max (opts @ [opt]) mem'"
    unfolding stores_def
  proof (intro conjI allI impI)
    fix i
    show "mem' (Options i) \<noteq> None \<longleftrightarrow> i < options_max"
      using dom(1) [of i] other [of i] mem'(4) d(2) by (cases "i = ?i") (auto simp: holds_def)
    show "mem' (Buffer i) \<noteq> None \<longleftrightarrow> i < buffer_max"
      using dom(2) [of i] mem'(5) [of i] room(1) by (cases "i = ?k") (auto simp: mem1_def same_option_def)
    show "holds (mem' (Buffer i)) ((opts @ [opt]) ! i)" if "i < length (opts @ [opt])"
    proof (cases "i = ?k")
      case True
      then show ?thesis using holds_same [OF mem'(5) [of i]] by (simp add: mem1_def)
    next
      case False
      then show ?thesis using holds_same [OF mem'(5) [of i]] buffers [of i] that by (simp add: mem1_def nth_append)
    qed
    assume i: "i < options_max"
    show "if picks i (opts @ [opt]) = [] then mem' (Options i) = Some (unused_node (Options i))
          else chain mem' (slots_of i (opts @ [opt])) \<and> holds (mem' (Options i)) ((opts @ [opt]) ! hd (picks i (opts @ [opt])))"
    proof (cases "i = ?i")
      case True
      then show ?thesis using mem'(3,4) by (simp add: picks_snoc ix)
    next
      case False
      have same: "picks i (opts @ [opt]) = picks i opts" "slots_of i (opts @ [opt]) = slots_of i opts"
        using False by (simp_all add: picks_snoc slots_of_snoc ix)
      have "mem' s = mem1 s" if "s \<in> set (slots_of i opts)" for s
        using mem'(2) slots_of_disjoint [OF False, of s "opts @ [opt]"] that by (simp add: same)
      then have "chain mem' (slots_of i opts)" if "picks i opts \<noteq> []"
        using frame [OF i that] by (rule chain_frame [rotated])
      moreover have "(opts @ [opt]) ! hd (picks i opts) = opts ! hd (picks i opts)" if "picks i opts \<noteq> []"
        using picks_less [of "hd (picks i opts)" i opts] that by (simp add: nth_append)
      ultimately show ?thesis using lists [OF i] other [OF False] by (simp add: same)
    qed
  qed
  with run mem'(1) show ?thesis by simp
qed

text \<open>All of them, up to the limit of the counter.\<close>

lemma store_all:
  assumes "stores options_max buffer_max opts mem" "op_count p = length opts" "length opts \<le> option_limit"
    and "min (length opts + length opts') option_limit \<le> buffer_max"
    and "\<And>opt. opt \<in> set opts' \<Longrightarrow> \<exists>d. opt_desc opt = Some d \<and> desc_index d < options_max"
  shows "\<exists>mem'. perform_all (StoreOptionAction (- 1)) opts' (p, mem) =
      Inr (length opts + length opts' \<le> option_limit, p\<lparr>op_count := min (length opts + length opts') option_limit\<rparr>, mem')
    \<and> stores options_max buffer_max (take option_limit (opts @ opts')) mem'"
  using assms
proof (induction opts' arbitrary: opts p mem)
  case Nil
  then show ?case by (auto simp: min_def intro!: parser.equality)
next
  case (Cons opt opts')
  obtain d where d: "opt_desc opt = Some d" "desc_index d < options_max" using Cons.prems(5) by auto
  show ?case
  proof (cases "length opts = option_limit")
    case True
    then have "int (op_count p) = 0x7fffffff" using Cons.prems(2) by simp
    then have "perform_all (StoreOptionAction (- 1)) (opt # opts') (p, mem) = Inr (False, p, mem)"
      by (simp add: StoreOptionAction_def store_option_def)
    then show ?thesis using True Cons.prems(1,2) by simp
  next
    case False
    then have room: "length opts < buffer_max" "length opts < option_limit" using Cons.prems(3,4) by auto
    obtain mem' where mem': "store_option (- 1) opt (p, mem) = Inr (True, p\<lparr>op_count := Suc (length opts)\<rparr>, mem')"
      "stores options_max buffer_max (opts @ [opt]) mem'"
      using store_option_stores [OF Cons.prems(1) room Cons.prems(2) d] by blast
    have "perform_all (StoreOptionAction (- 1)) (opt # opts') (p, mem) =
        perform_all (StoreOptionAction (- 1)) opts' (p\<lparr>op_count := Suc (length opts)\<rparr>, mem')"
      using mem'(1) by (simp add: StoreOptionAction_def)
    moreover have "\<exists>mem''. perform_all (StoreOptionAction (- 1)) opts' (p\<lparr>op_count := Suc (length opts)\<rparr>, mem') =
        Inr (length (opts @ [opt]) + length opts' \<le> option_limit,
          p\<lparr>op_count := Suc (length opts), op_count := min (length (opts @ [opt]) + length opts') option_limit\<rparr>, mem'')
      \<and> stores options_max buffer_max (take option_limit ((opts @ [opt]) @ opts')) mem''"
      by (rule Cons.IH [OF mem'(2)]) (use room Cons.prems(4,5) in auto)
    ultimately show ?thesis by simp
  qed
qed

section \<open>The parser\<close>

text \<open>Every option of the reading has a descriptor of the table.\<close>

lemma chosen_descriptor_in: "chosen_descriptor usage idx = Some d \<Longrightarrow> d \<in> set usage"
  by (auto simp: chosen_descriptor_def Let_def split: if_splits)

definition described :: "Descriptor list \<Rightarrow> Option \<Rightarrow> bool" where
  "described usage opt \<longleftrightarrow> (\<exists>d\<in>set usage. opt_desc opt = Some d)"

lemma described_init [simp]:
  "d \<in> set usage \<Longrightarrow> described usage (init_option (Some d) nm a)"
  "described usage (opt\<lparr>opt_arg := a\<rparr>) \<longleftrightarrow> described usage opt"
  by (simp_all add: described_def init_option_def)

lemma read_group_described:
  "read_group usage msg nxt cs = (ok, opts, taken) \<Longrightarrow> opt \<in> set opts \<Longrightarrow> described usage opt"
  by (induction cs arbitrary: ok opts)
    (auto simp: Let_def chosen_descriptor_in split: option.splits ArgStatus.splits prod.splits)

lemma read_word_described:
  "read_word usage msg nxt param = (ok, opts, taken) \<Longrightarrow> opt \<in> set opts \<Longrightarrow> described usage opt"
  using read_group_described
  by (auto simp: read_word_def read_long_def Let_def chosen_descriptor_in split: if_splits option.splits ArgStatus.splits)

lemma read_arguments_described:
  "read_arguments usage msg args = (ok, opts, rest) \<Longrightarrow> opt \<in> set opts \<Longrightarrow> described usage opt"
proof (induction usage msg args arbitrary: ok opts rest rule: read_arguments.induct)
  case (2 usage msg param left)
  obtain ok1 opts1 taken where word: "read_word usage msg (next_word left) param = (ok1, opts1, taken)"
    by (metis prod_cases3)
  obtain ok2 opts2 rest2 where more: "read_arguments usage msg (if taken then tl left else left) = (ok2, opts2, rest2)"
    by (metis prod_cases3)
  show ?case
  proof (cases "non_option param \<or> param = ''--'' \<or> \<not> ok1")
    case True
    then show ?thesis using "2.prems" read_word_described [OF word] by (auto simp: word split: if_splits)
  next
    case False
    then have "opts = opts1 @ opts2" using "2.prems"(1) more by (auto simp: word split: if_splits)
    moreover have "described usage opt" if "opt \<in> set opts2"
      by (rule "2.IH" [OF _ _ word [symmetric] refl refl _ more that]) (use False in auto)
    ultimately show ?thesis using "2.prems"(2) read_word_described [OF word] by auto
  qed
qed simp

text \<open>The checks do not depend on whether messages are printed.\<close>

definition quiet :: "Descriptor list \<Rightarrow> bool" where
  "quiet usage \<longleftrightarrow> (\<forall>d\<in>set usage. \<forall>opt. check_arg d opt True = check_arg d opt False)"

lemma read_word_quiet:
  assumes "quiet usage"
  shows "read_word usage True nxt param = read_word usage False nxt param"
proof -
  have check: "check_arg d opt True = check_arg d opt False" if "chosen_descriptor usage idx = Some d" for d idx opt
    using assms chosen_descriptor_in [OF that] by (simp add: quiet_def)
  have "read_group usage True nxt cs = read_group usage False nxt cs" for cs
    by (induction cs) (simp_all add: check Let_def split: option.split ArgStatus.split)
  then show ?thesis by (simp add: read_word_def read_long_def check Let_def split: option.split ArgStatus.split)
qed

lemma read_arguments_quiet:
  assumes "quiet usage"
  shows "read_arguments usage True args = read_arguments usage False args"
proof (induction "length args" arbitrary: args rule: less_induct)
  case less
  then show ?case
    by (cases args) (auto simp: read_word_quiet [OF assms] split: prod.split)
qed

text \<open>The array of options has an element for every index.\<close>

definition options_needed :: "Descriptor list \<Rightarrow> nat \<Rightarrow> nat" where
  "options_needed usage m = fold (\<lambda>d m. if desc_index d + 1 \<ge> m then desc_index d + 1 + 1 else m) usage m"

lemma options_needed: "m \<le> options_needed usage m" "d \<in> set usage \<Longrightarrow> desc_index d < options_needed usage m"
proof -
  have le: "m \<le> options_needed usage m" for usage m
  proof (induction usage arbitrary: m)
    case (Cons d usage)
    have "m \<le> (if desc_index d + 1 \<ge> m then desc_index d + 1 + 1 else m)" by simp
    also have "\<dots> \<le> options_needed (d # usage) m" using Cons by (simp add: options_needed_def)
    finally show ?case .
  qed (simp add: options_needed_def)
  then show "m \<le> options_needed usage m" .
  show "desc_index d < options_needed usage m" if "d \<in> set usage"
    using that
  proof (induction usage arbitrary: m)
    case (Cons e usage)
    let ?m = "if desc_index e + 1 \<ge> m then desc_index e + 1 + 1 else m"
    have eq: "options_needed (e # usage) m = options_needed usage ?m" by (simp add: options_needed_def)
    show ?case
    proof (cases "d = e")
      case True
      have "desc_index e < ?m" by simp
      also have "?m \<le> options_needed usage ?m" by (rule le)
      finally show ?thesis using True by (simp only: eq)
    next
      case False
      then show ?thesis using Cons by (simp add: eq)
    qed
  qed simp
qed

text \<open>
  The options met from a slot on, along \<open>next\<close>: each one is held by its slot, and the last slot has no
  next one.
\<close>

primrec linked_options :: "memory \<Rightarrow> slot option \<Rightarrow> Option list \<Rightarrow> bool" where
  "linked_options mem s [] \<longleftrightarrow> s = None"
| "linked_options mem s (opt # opts) \<longleftrightarrow>
     (\<exists>a s'. s = Some a \<and> holds (mem a) opt \<and> next_option mem a = Inr s' \<and> linked_options mem s' opts)"

lemma linked_chain:
  assumes chain: "chain mem xs" and len: "length opts = length xs"
    and holds: "\<And>k. k < length xs \<Longrightarrow> holds (mem (xs ! k)) (opts ! k)"
  shows "k < length xs \<Longrightarrow> linked_options mem (Some (xs ! k)) (drop k opts)"
proof (induction "length xs - k" arbitrary: k)
  case (Suc j)
  have drop: "drop k opts = opts ! k # drop (Suc k) opts" using Suc.prems len by (simp add: Cons_nth_drop_Suc)
  show ?case
  proof (cases "Suc k < length xs")
    case True
    then have "linked_options mem (Some (xs ! Suc k)) (drop (Suc k) opts)" using Suc.hyps by simp
    then show ?thesis using True holds [OF Suc.prems] chain_links(1) [OF chain Suc.prems] by (simp add: drop)
  next
    case False
    then show ?thesis using len holds [OF Suc.prems] chain_links(1) [OF chain Suc.prems] by (simp add: drop)
  qed
qed simp

text \<open>
  What the element of an index shows of its list: it is unused, or it is the first slot of a list with
  exactly the options, in their order, and \<open>count\<close> is their number.
\<close>

definition lists_options :: "memory \<Rightarrow> nat \<Rightarrow> Option list \<Rightarrow> bool" where
  "lists_options mem i opts \<longleftrightarrow>
     (if opts = [] then mem (Options i) = Some (unused_node (Options i))
      else linked_options mem (Some (Options i)) opts \<and> option_count mem (Options i) = Inr (length opts))"

lemma lists_options_Nil: "lists_options mem i [] \<Longrightarrow> mem (Options i) = Some (unused_node (Options i))"
  by (simp add: lists_options_def)

lemma lists_options_Cons:
  "lists_options mem i (opt # opts) \<Longrightarrow>
   holds (mem (Options i)) opt \<and> option_count mem (Options i) = Inr (Suc (length opts))"
  by (auto simp: lists_options_def)

lemma stores_lists:
  assumes stores: "stores options_max buffer_max opts mem" and i: "i < options_max"
  shows "lists_options mem i (filter (has_index i) opts)"
proof (cases "picks i opts")
  case Nil
  then show ?thesis using stores i picks_filter [of opts i] by (simp add: stores_def lists_options_def)
next
  case (Cons j js)
  let ?xs = "slots_of i opts" and ?opts = "map ((!) opts) (picks i opts)"
  have chain: "chain mem ?xs" and first: "holds (mem (Options i)) (opts ! j)"
    and buffers: "\<And>j. j < length opts \<Longrightarrow> holds (mem (Buffer j)) (opts ! j)"
    using stores i Cons by (auto simp: stores_def)
  have xs: "?xs = Options i # map Buffer js" by (simp add: slots_of_def Cons)
  have "holds (mem (?xs ! k)) (?opts ! k)" if k: "k < length ?xs" for k
  proof (cases k)
    case 0
    then show ?thesis using first by (simp add: xs Cons)
  next
    case (Suc l)
    then have "js ! l \<in> set (picks i opts)" using k by (simp add: xs Cons)
    then show ?thesis using Suc k buffers [OF picks_less, of "js ! l" i] by (simp add: xs Cons)
  qed
  then have "linked_options mem (Some (?xs ! 0)) (drop 0 ?opts)"
    by (intro linked_chain [OF chain]) (simp_all add: xs Cons)
  then have linked: "linked_options mem (Some (Options i)) ?opts" by (simp add: xs)
  have "opts ! j \<in> set (filter (has_index i) opts)" unfolding picks_filter [symmetric] by (simp add: Cons)
  then have "used n" if "mem (Options i) = Some n" for n
    using first that by (auto simp: holds_def used_def has_index_def split: option.splits)
  moreover obtain n where "mem (Options i) = Some n" using first by (auto simp: holds_def)
  ultimately have "option_count mem (Options i) = Inr (length ?opts)"
    using option_count_chain [OF chain] by (simp add: xs Cons)
  with linked show ?thesis unfolding lists_options_def picks_filter [symmetric] by (simp add: Cons)
qed

lemma parser_reads_effect:
  assumes quiet: "quiet usage" and reads: "read_arguments usage True args = (ok, opts, rest)"
  shows "\<exists>buffer_max options_max p mem.
    count_arguments False usage (int (length args)) args 0 False (1, 1) = Inr ((buffer_max, options_max), args)
    \<and> parse_arguments False usage (int (length args)) args 0 False (- 1)
        (new_parser, new_arrays options_max buffer_max) = Inr (args, p, mem)
    \<and> op_count p = min (length opts) option_limit \<and> (err p \<longleftrightarrow> \<not> ok \<or> option_limit < length opts)
    \<and> nonop_count p = (if err p then 0 else int (length rest)) \<and> nonop_args p = (if err p then [] else rest)
    \<and> (\<forall>d\<in>set usage. desc_index d < options_max)
    \<and> (\<forall>j<op_count p. holds (mem (Buffer j)) (opts ! j))
    \<and> (\<forall>i<options_max. lists_options mem i (filter (has_index i) (take option_limit opts)))"
proof -
  define stored where "stored = take option_limit opts"
  define buffer_max where "buffer_max = min (1 + length opts) option_limit"
  define options_max where "options_max = options_needed usage 1"
  have one: "1 \<le> option_limit" by (simp add: option_limit_def)
  have reads': "read_arguments usage False args = (ok, opts, rest)" using reads read_arguments_quiet [OF quiet] by simp
  have fin: "finished CountOptionsAction n left s = (True, s)" for n left s by (simp add: CountOptionsAction_def)
  obtain ok1 where "workhorse False usage (int (length args)) args CountOptionsAction False False 0 1 = Inr (ok1, args, buffer_max)"
    using workhorse_reads [OF reads' count_all [OF one]] unfolding buffer_max_def fin Let_def prod.case by metis
  then have count: "count_arguments False usage (int (length args)) args 0 False (1, 1) = Inr ((buffer_max, options_max), args)"
    by (simp add: count_arguments_def options_max_def options_needed_def)
  have desc: "\<exists>d. opt_desc opt = Some d \<and> desc_index d < options_max" if "opt \<in> set opts" for opt
    using read_arguments_described [OF reads that] options_needed(2) by (auto simp: described_def options_max_def)
  obtain mem where
    run: "perform_all (StoreOptionAction (- 1)) opts (new_parser, new_arrays options_max buffer_max) =
      Inr (length opts \<le> option_limit, new_parser\<lparr>op_count := min (length opts) option_limit\<rparr>, mem)"
    and stores: "stores options_max buffer_max stored mem"
  proof -
    have "min (length opts) option_limit \<le> buffer_max" by (auto simp: buffer_max_def min_def)
    then show thesis
      using store_all [OF stores_new [of options_max buffer_max], of new_parser opts] desc that
      by (auto simp: new_parser_def stored_def)
  qed
  define p where "p = new_parser\<lparr>op_count := min (length opts) option_limit\<rparr>"
  define good where "good \<longleftrightarrow> length opts \<le> option_limit \<and> ok"
  have work: "workhorse False usage (int (length args)) args (StoreOptionAction (- 1)) False True 0
      (new_parser\<lparr>op_count := 0\<rparr>, new_arrays options_max buffer_max) =
      Inr (good, args, if good \<and> rest \<noteq> [] then p\<lparr>nonop_count := int (length rest), nonop_args := rest\<rparr> else p, mem)"
    using workhorse_reads [OF reads run]
    by (auto simp: StoreOptionAction_def new_parser_def p_def good_def)
  have "first_unused (- 1) (new_arrays options_max buffer_max) 0 = Some 0"
    using one by (subst first_unused.simps) (simp add: new_arrays_def buffer_max_def used_def unused_node_def)
  moreover define q where
    "q = (if good \<and> rest \<noteq> [] then p\<lparr>nonop_count := int (length rest), nonop_args := rest\<rparr> else p)\<lparr>err := \<not> good\<rparr>"
  ultimately have parse: "parse_arguments False usage (int (length args)) args 0 False (- 1)
      (new_parser, new_arrays options_max buffer_max) = Inr (args, q, mem)"
    by (simp add: parse_arguments_def valid_run_def work)
  have count_q: "op_count q = min (length opts) option_limit" by (simp add: q_def p_def new_parser_def)
  from count_q have "op_count q = min (length opts) option_limit" .
  moreover have "err q \<longleftrightarrow> \<not> ok \<or> option_limit < length opts" by (auto simp: q_def good_def)
  moreover have "nonop_count q = (if err q then 0 else int (length rest))" "nonop_args q = (if err q then [] else rest)"
    by (auto simp: q_def p_def new_parser_def)
  moreover have "\<forall>d\<in>set usage. desc_index d < options_max" using options_needed(2) by (simp add: options_max_def)
  moreover have "\<forall>j<op_count q. holds (mem (Buffer j)) (opts ! j)"
    using stores count_q by (auto simp: stores_def stored_def)
  moreover have "\<forall>i<options_max. lists_options mem i (filter (has_index i) stored)" using stores_lists [OF stores] by blast
  ultimately show ?thesis using count parse unfolding stored_def by blast
qed

end
