(* ===== verification/Command_Line_Contract.thy ===== *)
theory Command_Line_Contract
  imports Option_Storage Command_Line
begin

text \<open>
  The parser implements a plain reading of the arguments; what the program takes from its command line:
  the forms of an option, and the words it ignores.
\<close>

section \<open>The parser\<close>

text \<open>
  C19: The two passes of the option parser implement a plain reading of the arguments: the sizes
  of the first pass suffice for the second, no access leaves the arrays, the buffer holds the
  options in their order, the element of every index is unused or the first of a list that next
  follows through exactly the options of that index, in their order, to its end, with count as its
  length, and the rest of the arguments are the non-options. The argument checks of the table must
  not depend on whether messages are printed, as those of the program do not.
\<close>

theorem parser_reads:
  assumes quiet: "quiet usage" and reads: "read_arguments usage True args = (ok, opts, rest)"
  shows "\<exists>buffer_max options_max p mem.
    count_arguments False usage (int (length args)) args 0 False (1, 1) = Inr ((buffer_max, options_max), args)
    \<and> parse_arguments False usage (int (length args)) args 0 False (- 1)
        (new_parser, new_arrays options_max buffer_max) = Inr (args, p, mem)
    \<and> op_count p = min (length opts) option_limit \<and> (err p \<longleftrightarrow> \<not> ok \<or> option_limit < length opts)
    \<and> nonop_count p = (if err p then 0 else int (length rest)) \<and> nonop_args p = (if err p then [] else rest)
    \<and> (\<forall>d\<in>set usage. desc_index d < options_max)
    \<and> (\<forall>j<op_count p. holds (mem (Buffer j)) (opts ! j))
    \<and> (\<forall>i<options_max. lists_options mem i (filter (has_index i) (take option_limit opts)))"
  by (rule parser_reads_effect [OF assms])

section \<open>The command line of the program\<close>

lemma program_usage_quiet: "quiet program_usage"
  by (simp add: quiet_def program_usage_def Arg_None_def check_inp_def)

text \<open>An option that was accepted: with its argument, or without one when it takes none.\<close>

definition accepted :: "bool \<Rightarrow> Option \<Rightarrow> bool" where
  "accepted msg opt \<longleftrightarrow> (\<exists>d a. opt_desc opt = Some d \<and>
     (check_arg d (option_text.truncate opt) msg = ARG_OK
      \<or> opt_arg opt = None \<and> check_arg d (option_text.truncate (opt\<lparr>opt_arg := a\<rparr>)) msg \<in> {ARG_NONE, ARG_IGNORE}))"

lemma accepted_init:
  "check_arg d (option_text.truncate (init_option (Some d) nm a)) msg = ARG_OK \<Longrightarrow> accepted msg (init_option (Some d) nm a)"
  "check_arg d (option_text.truncate (init_option (Some d) nm a)) msg \<in> {ARG_NONE, ARG_IGNORE} \<Longrightarrow>
     accepted msg ((init_option (Some d) nm a)\<lparr>opt_arg := None\<rparr>)"
  unfolding accepted_def by (force simp: init_option_def option_text.defs)+

lemma read_word_accepted:
  assumes "read_word usage msg nxt param = (ok, opts, taken)" "opt \<in> set opts"
  shows "accepted msg opt"
proof -
  have "accepted msg opt" if "read_group usage msg nxt cs = (ok, opts, taken)" "opt \<in> set opts" for cs ok opts
    using that
  proof (induction cs arbitrary: ok opts)
    case (Cons c cs)
    then show ?case
      using accepted_init [of _ "Some (c # cs)" _ msg]
      by (auto simp: Let_def split: option.splits ArgStatus.splits prod.splits)
  qed simp
  moreover have "accepted msg opt" if "read_long usage msg nxt nm = (ok, opts, taken)" "opt \<in> set opts" for nm
    using that accepted_init [of _ "Some (''--'' @ nm)" _ msg]
    by (auto simp: read_long_def Let_def split: option.splits ArgStatus.splits)
  ultimately show ?thesis using assms by (auto simp: read_word_def split: if_splits)
qed

lemma read_arguments_steps:
  assumes "read_arguments usage msg args = (ok, opts, rest)" "opt \<in> set opts"
  shows "\<exists>nxt param ok' opts' taken. read_word usage msg nxt param = (ok', opts', taken) \<and> opt \<in> set opts'"
  using assms
proof (induction usage msg args arbitrary: ok opts rest rule: read_arguments.induct)
  case (2 usage msg param left)
  obtain ok1 opts1 taken where word: "read_word usage msg (next_word left) param = (ok1, opts1, taken)"
    by (metis prod_cases3)
  obtain ok2 opts2 rest2 where more: "read_arguments usage msg (if taken then tl left else left) = (ok2, opts2, rest2)"
    by (metis prod_cases3)
  show ?case
  proof (cases "non_option param \<or> param = ''--'' \<or> \<not> ok1")
    case True
    then have "opts = opts1" using "2.prems" by (auto simp: word split: if_splits)
    then show ?thesis using "2.prems"(2) word by blast
  next
    case False
    then have "opts = opts1 @ opts2" using "2.prems"(1) more by (auto simp: word split: if_splits)
    moreover have "\<exists>nxt param ok' opts' taken. read_word usage msg nxt param = (ok', opts', taken) \<and> opt \<in> set opts'"
      if "opt \<in> set opts2"
      by (rule "2.IH" [OF _ _ word [symmetric] refl refl _ more that]) (use False in auto)
    moreover have "opt \<in> set opts1 \<or> opt \<in> set opts2" using calculation(1) "2.prems"(2) by auto
    ultimately show ?thesis using word by blast
  qed
qed simp

text \<open>The options that the program reads from a list of options.\<close>

definition options_read :: "string list \<Rightarrow> bool \<times> Option list \<times> string list \<Rightarrow> options" where
  "options_read args r =
     (let (ok, opts, rest) = r
      in \<lparr>parse_error = (\<not> ok), non_options = (if ok then length rest else 0),
          show_help = list_ex (has_index HELP) opts, no_arguments = (args = []),
          config_option =
            (case filter (has_index CONFIG_FILE) opts of
               [] \<Rightarrow> None | opt # later \<Rightarrow> Some (Suc (length later), the (opt_arg opt))),
          output_option =
            (case filter (has_index OUTPUT_FILE) opts of [] \<Rightarrow> None | opt # _ \<Rightarrow> Some (the (opt_arg opt))),
          shm_option = list_ex (has_index SHM) opts\<rparr>)"

lemma lists_options_used:
  assumes "lists_options mem i (filter (has_index i) opts)"
  obtains n where "mem (Options i) = Some n" "used n \<longleftrightarrow> list_ex (has_index i) opts"
    "filter (has_index i) opts = [] \<or> (\<exists>opt later. filter (has_index i) opts = opt # later \<and> opt_arg n = opt_arg opt
       \<and> option_count mem (Options i) = Inr (Suc (length later)))"
proof (cases "filter (has_index i) opts")
  case Nil
  then show thesis using assms that by (simp add: lists_options_def used_def unused_node_def list_ex_iff filter_empty_conv)
next
  case (Cons opt later)
  then have "opt \<in> set (filter (has_index i) opts)" by simp
  then have "opt \<in> set opts" "has_index i opt" by simp_all
  moreover obtain n where "mem (Options i) = Some n" "opt_desc n = opt_desc opt" "opt_arg n = opt_arg opt"
    using assms Cons by (auto simp: lists_options_def holds_def)
  ultimately have "used n" "list_ex (has_index i) opts"
    by (auto simp: used_def has_index_def list_ex_iff split: option.splits)
  moreover have "option_count mem (Options i) = Inr (Suc (length later))"
    using assms Cons by (simp add: lists_options_def)
  ultimately show thesis
    using that [of n] Cons \<open>mem (Options i) = Some n\<close> \<open>opt_arg n = opt_arg opt\<close> by simp
qed

lemma required_argument:
  assumes "described program_usage opt" "has_index i opt" "i \<in> {CONFIG_FILE, OUTPUT_FILE}" "accepted msg opt"
  shows "opt_arg opt \<noteq> None"
proof -
  have "\<exists>d. opt_desc opt = Some d \<and> check_arg d = check_inp"
    using assms(1-3) by (auto simp: described_def program_usage_def has_index_def option_indices)
  then show ?thesis using assms(4) by (auto simp: accepted_def check_inp_def option_text.defs split: if_splits)
qed

lemma command_line_reads:
  assumes args: "args = drop 1 argv" and reads: "read_arguments program_usage True args = (ok, opts, rest)" and few: "length opts \<le> option_limit"
  shows "command_line argv = Inr (options_read args (ok, opts, rest))"
proof -
  have all: "take option_limit opts = opts" using few by simp
  obtain buffer_max options_max p mem where
    count: "count_arguments False program_usage (int (length args)) args 0 False (1, 1) =
      Inr ((buffer_max, options_max), args)"
    and parse: "parse_arguments False program_usage (int (length args)) args 0 False (- 1)
        (new_parser, new_arrays options_max buffer_max) = Inr (args, p, mem)"
    and p': "err p \<longleftrightarrow> \<not> ok \<or> option_limit < length opts" "nonop_count p = (if err p then 0 else int (length rest))"
    and bound: "\<forall>d\<in>set program_usage. desc_index d < options_max"
    and lists': "\<forall>i<options_max. lists_options mem i (filter (has_index i) opts)"
    using parser_reads_effect [OF program_usage_quiet reads] unfolding all by blast
  have p: "err p \<longleftrightarrow> \<not> ok" "nonop_count p = (if err p then 0 else int (length rest))" using p' few by simp_all
  have lists: "lists_options mem (desc_index d) (filter (has_index (desc_index d)) opts)" if "d \<in> set program_usage" for d
    using bound lists' that by blast
  have needed: "lists_options mem i (filter (has_index i) opts)" if "i \<in> {HELP, CONFIG_FILE, OUTPUT_FILE, SHM}" for i
  proof -
    have "i \<in> desc_index ` set program_usage" using that by (auto simp: program_usage_def)
    then show ?thesis using lists by blast
  qed
  have given: "opt_arg opt \<noteq> None" if "filter (has_index i) opts = opt # later" "i \<in> {CONFIG_FILE, OUTPUT_FILE}" for opt later i
  proof -
    have "opt \<in> set (filter (has_index i) opts)" using that(1) by simp
    then have "opt \<in> set opts" "has_index i opt" by simp_all
    moreover from \<open>opt \<in> set opts\<close> have "accepted True opt"
      using read_arguments_steps [OF reads] read_word_accepted by blast
    moreover from \<open>opt \<in> set opts\<close> have "described program_usage opt" by (rule read_arguments_described [OF reads])
    ultimately show ?thesis using required_argument that(2) by blast
  qed
  have "\<exists>n. mem (Options i) = Some n \<and> used n = list_ex (has_index i) opts" if "i \<in> {HELP, SHM}" for i
    using lists_options_used [OF needed, of i] that by blast
  then obtain h s where h: "mem (Options HELP) = Some h" "used h = list_ex (has_index HELP) opts"
    and s: "mem (Options SHM) = Some s" "used s = list_ex (has_index SHM) opts" by blast
  define first_of where "first_of i = (case filter (has_index i) opts of
      [] \<Rightarrow> None | opt # later \<Rightarrow> Some (Suc (length later), the (opt_arg opt)))" for i
  have "\<exists>n. mem (Options i) = Some n \<and> (if used n then \<exists>c a. option_count mem (Options i) = Inr c
      \<and> opt_arg n = Some a \<and> first_of i = Some (c, a) else first_of i = None)" if i: "i \<in> {CONFIG_FILE, OUTPUT_FILE}" for i
  proof -
    obtain n where n: "mem (Options i) = Some n" "used n \<longleftrightarrow> list_ex (has_index i) opts"
      "filter (has_index i) opts = [] \<or> (\<exists>opt later. filter (has_index i) opts = opt # later \<and> opt_arg n = opt_arg opt
         \<and> option_count mem (Options i) = Inr (Suc (length later)))"
      using lists_options_used [OF needed, of i] i by blast
    have "used n \<longleftrightarrow> filter (has_index i) opts \<noteq> []" using n(2) by (auto simp: list_ex_iff filter_empty_conv)
    then show ?thesis using n(1,3) given [OF _ i] by (fastforce simp: first_of_def)
  qed
  then obtain c f where c: "mem (Options CONFIG_FILE) = Some c" "if used c then \<exists>k a. option_count mem (Options CONFIG_FILE) = Inr k
      \<and> opt_arg c = Some a \<and> first_of CONFIG_FILE = Some (k, a) else first_of CONFIG_FILE = None"
    and f: "mem (Options OUTPUT_FILE) = Some f" "if used f then \<exists>k a. option_count mem (Options OUTPUT_FILE) = Inr k
      \<and> opt_arg f = Some a \<and> first_of OUTPUT_FILE = Some (k, a) else first_of OUTPUT_FILE = None"
    by blast
  have "map_option snd (first_of OUTPUT_FILE) =
      (case filter (has_index OUTPUT_FILE) opts of [] \<Rightarrow> None | opt # _ \<Rightarrow> Some (the (opt_arg opt)))"
    by (simp add: first_of_def split: list.split)
  then have read: "options_read args (ok, opts, rest) =
      \<lparr>parse_error = (\<not> ok), non_options = (if ok then length rest else 0), show_help = used h, no_arguments = (args = []),
       config_option = first_of CONFIG_FILE, output_option = map_option snd (first_of OUTPUT_FILE), shm_option = used s\<rparr>"
    by (simp add: options_read_def first_of_def h s)
  show ?thesis
    unfolding command_line_def Let_def args [symmetric] count parse bind_run_simps prod.case
    using c f by (auto simp: load_node_def h(1) s(1) read p split: if_splits)
qed

text \<open>There are no more options than characters.\<close>

lemma read_word_length:
  assumes "read_word usage msg nxt param = (ok, opts, taken)" "\<not> non_option param"
  shows "length opts \<le> length param"
proof -
  have "length opts \<le> length cs" if "read_group usage msg nxt cs = (ok, opts, taken)" for cs ok opts
    using that by (induction cs arbitrary: ok opts)
      (auto simp: Let_def intro: le_SucI split: option.splits ArgStatus.splits prod.splits)
  moreover have "length opts \<le> 1" if "read_long usage msg nxt nm = (ok, opts, taken)" for nm
    using that by (auto simp: read_long_def Let_def split: option.splits ArgStatus.splits)
  moreover have "1 \<le> length param" using assms(2) by (cases param) (auto simp: non_option_def)
  ultimately show ?thesis
    using assms(1) by (fastforce simp: read_word_def split: if_splits)
qed

lemma read_arguments_length:
  "read_arguments usage msg args = (ok, opts, rest) \<Longrightarrow> length opts \<le> sum_list (map length args)"
proof (induction usage msg args arbitrary: ok opts rest rule: read_arguments.induct)
  case (2 usage msg param left)
  obtain ok1 opts1 taken where word: "read_word usage msg (next_word left) param = (ok1, opts1, taken)"
    by (metis prod_cases3)
  obtain ok2 opts2 rest2 where more: "read_arguments usage msg (if taken then tl left else left) = (ok2, opts2, rest2)"
    by (metis prod_cases3)
  show ?case
  proof (cases "non_option param \<or> param = ''--''")
    case True
    then show ?thesis using "2.prems" by (auto split: if_splits)
  next
    case False
    note l = read_word_length [OF word] False
    show ?thesis
    proof (cases ok1)
      case True
      have "length opts2 \<le> sum_list (map length (if taken then tl left else left))"
        by (rule "2.IH" [OF _ _ word [symmetric] refl refl _ more]) (use False True in auto)
      also have "\<dots> \<le> sum_list (map length left)" by (cases left) auto
      finally show ?thesis using "2.prems" l True more by (auto simp: word split: if_splits)
    next
      case False
      then show ?thesis using "2.prems" l by (auto simp: word split: if_splits)
    qed
  qed
qed simp

lemma find_descriptor_none: "(\<And>d. d \<in> set usage \<Longrightarrow> \<not> P d) \<Longrightarrow> find_descriptor P usage = length usage"
  by (induction usage) auto

text \<open>
  C21: A long option that the table does not hold, such as the --shared-memory that the help text
  names, put before other arguments changes nothing: what the program reads is what it reads
  without it, and no error is reported.
\<close>

theorem unknown_option_ignored:
  assumes unknown: "nm \<noteq> []" "\<And>d. d \<in> set program_usage \<Longrightarrow> \<not> streq (longopt d) nm"
    and args: "args \<noteq> []" "1 + sum_list (map length args) < 0x7fffffff"
  shows "command_line (prog # (''--'' @ nm) # args) = command_line (prog # args)"
proof -
  obtain ok opts rest where reads: "read_arguments program_usage True args = (ok, opts, rest)" by (metis prod_cases3)
  have limit: "option_limit = 0x7fffffff" by (simp add: option_limit_def)
  have few: "length opts < option_limit" using read_arguments_length [OF reads] args(2) unfolding limit by simp
  let ?d = "hd program_usage"
  define opt where "opt = (init_option (Some ?d) (Some (''--'' @ nm))
      (case attached_value nm of None \<Rightarrow> next_word args | Some v \<Rightarrow> Some v))\<lparr>opt_arg := None\<rparr>"
  have none: "find_descriptor (\<lambda>d. streq (longopt d) nm) program_usage = length program_usage"
    by (rule find_descriptor_none) (rule unknown(2))
  have "chosen_descriptor program_usage (find_descriptor (\<lambda>d. streq (longopt d) nm) program_usage) = Some ?d"
    unfolding none by (simp add: chosen_descriptor_def program_usage_def)
  moreover have "check_arg ?d = Arg_None" by (simp add: program_usage_def)
  ultimately have word: "read_word program_usage True (next_word args) (''--'' @ nm) = (True, [opt], False)"
    by (simp add: read_word_def read_long_def Arg_None_def opt_def)
  have "read_arguments program_usage True ((''--'' @ nm) # args) = (ok, opt # opts, rest)"
    using unknown(1) word by (simp add: non_option_def reads)
  from command_line_reads [OF _ this, of "prog # (''--'' @ nm) # args"] few
  have "command_line (prog # (''--'' @ nm) # args) = Inr (options_read ((''--'' @ nm) # args) (ok, opt # opts, rest))"
    by simp
  moreover have "\<not> has_index i opt" if "i \<noteq> UNKNOWN" for i
    using that by (simp add: has_index_def opt_def init_option_def program_usage_def)
  then have "options_read ((''--'' @ nm) # args) (ok, opt # opts, rest) = options_read args (ok, opts, rest)"
    using args(1) by (simp add: options_read_def option_indices)
  moreover have "command_line (prog # args) = Inr (options_read args (ok, opts, rest))"
    by (rule command_line_reads [OF _ reads]) (use few in simp_all)
  ultimately show ?thesis by simp
qed

section \<open>The forms of an option\<close>

text \<open>A run with one word of the configuration file and one word, or none, of its argument.\<close>

lemma config_word:
  assumes word: "read_word program_usage True (next_word left) param = (True, [opt], taken)"
    and param: "\<not> non_option param" "param \<noteq> ''--''" and left: "(if taken then tl left else left) = []"
    and opt: "has_index CONFIG_FILE opt" "opt_arg opt = Some f"
  shows "command_line (prog # param # left) =
    Inr \<lparr>parse_error = False, non_options = 0, show_help = False, no_arguments = False, config_option = Some (1, f),
         output_option = None, shm_option = False\<rparr>"
proof -
  have "read_arguments program_usage True (param # left) = (True, [opt], [])" using param left by (simp add: word)
  moreover have "1 \<le> option_limit" by (simp add: option_limit_def)
  ultimately have "command_line (prog # param # left) = Inr (options_read (param # left) (True, [opt], []))"
    by (intro command_line_reads) simp_all
  moreover have "\<not> has_index i opt" if "i \<noteq> CONFIG_FILE" for i
    using that opt(1) by (simp add: has_index_def split: option.splits)
  ultimately show ?thesis using opt by (simp add: options_read_def option_indices)
qed

text \<open>
  C20: The four ways to give the configuration file, -c path, -cpath, --config-file path and
  --config-file=path, are read alike: exactly one configuration file with that path, and no other
  option or argument.
\<close>

theorem config_file_forms:
  assumes "f \<noteq> []"
  shows "map (\<lambda>words. command_line (prog # words)) [[''-c'', f], [''-c'' @ f], [''--config-file'', f], [''--config-file='' @ f]] =
    replicate 4 (Inr \<lparr>parse_error = False, non_options = 0, show_help = False, no_arguments = False,
      config_option = Some (1, f), output_option = None, shm_option = False\<rparr>)"
proof -
  let ?r = "Inr \<lparr>parse_error = False, non_options = 0, show_help = False, no_arguments = False,
      config_option = Some (1, f), output_option = None, shm_option = False\<rparr> :: options run"
  let ?d = "program_usage ! 2"
  have d: "desc_index ?d = CONFIG_FILE" "check_arg ?d = check_inp" by (simp_all add: program_usage_def)
  have opt: "has_index CONFIG_FILE (init_option (Some ?d) nm a)" "opt_arg (init_option (Some ?d) nm a) = a"
    "check_arg ?d (option_text.truncate (init_option (Some ?d) nm (Some a'))) True = ARG_OK" for nm a a'
    by (simp_all add: has_index_def init_option_def d check_inp_def option_text.defs)
  have chosen: "chosen_descriptor program_usage 2 = Some ?d" by (simp add: chosen_descriptor_def program_usage_def)
  have short: "find_descriptor (\<lambda>d. instr (CHR ''c'') (shortopt d)) program_usage = 2"
    by (simp add: program_usage_def)
  have long: "find_descriptor (\<lambda>d. streq (longopt d) ''config-file'') program_usage = 2"
      "find_descriptor (\<lambda>d. streq (longopt d) (''config-file='' @ f)) program_usage = 2"
    by (simp_all add: program_usage_def)
  have given: "attached_value ''config-file'' = None" "attached_value (''config-file='' @ f) = Some f"
    by (simp_all add: attached_value_def)
  have 1: "command_line (prog # ''-c'' # [f]) = ?r"
    by (rule config_word [where opt = "init_option (Some ?d) (Some ''c'') (Some f)" and taken = True])
      (simp_all add: read_word_def short chosen opt non_option_def next_word_def Let_def)
  have 2: "command_line (prog # (''-c'' @ f) # []) = ?r"
    by (rule config_word [where opt = "init_option (Some ?d) (Some (''c'' @ f)) (Some f)" and taken = False])
      (use assms in \<open>simp_all add: read_word_def short chosen opt non_option_def next_word_def Let_def\<close>)
  have 3: "command_line (prog # ''--config-file'' # [f]) = ?r"
    by (rule config_word [where opt = "init_option (Some ?d) (Some ''--config-file'') (Some f)" and taken = True])
      (simp_all add: read_word_def read_long_def long given chosen opt non_option_def next_word_def Let_def)
  have 4: "command_line (prog # (''--config-file='' @ f) # []) = ?r"
    by (rule config_word [where opt = "init_option (Some ?d) (Some (''--config-file='' @ f)) (Some f)" and taken = False])
      (simp_all add: read_word_def read_long_def long [simplified] given [simplified] chosen opt non_option_def next_word_def Let_def)
  show ?thesis using 1 2 3 4 by (simp add: numeral_eq_Suc)
qed

section \<open>Instances\<close>

theorem parser_reads_witness:
  "\<exists>buffer_max options_max p mem.
    count_arguments False program_usage 4 [''-sc'', ''f'', ''--nothing'', ''x''] 0 False (1, 1) =
      Inr ((buffer_max, options_max), [''-sc'', ''f'', ''--nothing'', ''x''])
    \<and> parse_arguments False program_usage 4 [''-sc'', ''f'', ''--nothing'', ''x''] 0 False (- 1)
        (new_parser, new_arrays options_max buffer_max) = Inr ([''-sc'', ''f'', ''--nothing'', ''x''], p, mem)
    \<and> op_count p = 3 \<and> \<not> err p \<and> nonop_args p = [''x'']"
proof -
  have "case read_arguments program_usage True [''-sc'', ''f'', ''--nothing'', ''x''] of
      (ok, opts, rest) \<Rightarrow> ok \<and> length opts = 3 \<and> rest = [''x'']" by code_simp
  then obtain opts where
    reads: "read_arguments program_usage True [''-sc'', ''f'', ''--nothing'', ''x''] = (True, opts, [''x''])" "length opts = 3"
    by (auto split: prod.splits)
  have four: "int (length [''-sc'', ''f'', ''--nothing'', ''x'']) = 4" by simp
  obtain buffer_max options_max p mem where
    1: "count_arguments False program_usage 4 [''-sc'', ''f'', ''--nothing'', ''x''] 0 False (1, 1) =
      Inr ((buffer_max, options_max), [''-sc'', ''f'', ''--nothing'', ''x''])"
    and 2: "parse_arguments False program_usage 4 [''-sc'', ''f'', ''--nothing'', ''x''] 0 False (- 1)
        (new_parser, new_arrays options_max buffer_max) = Inr ([''-sc'', ''f'', ''--nothing'', ''x''], p, mem)"
    and 3: "op_count p = min (length opts) option_limit" "err p \<longleftrightarrow> \<not> True \<or> option_limit < length opts"
      "nonop_args p = (if err p then [] else [''x''])"
    using parser_reads [OF program_usage_quiet reads(1)] unfolding four by blast
  have "op_count p = 3 \<and> \<not> err p \<and> nonop_args p = [''x'']" using 3 reads(2) by (simp add: option_limit_def)
  with 1 2 show ?thesis by blast
qed

theorem config_file_forms_witness:
  "map (\<lambda>words. command_line (''ds'' # words))
     [[''-c'', ''f.xml''], [''-c'' @ ''f.xml''], [''--config-file'', ''f.xml''], [''--config-file='' @ ''f.xml'']] =
   replicate 4 (Inr \<lparr>parse_error = False, non_options = 0, show_help = False, no_arguments = False,
      config_option = Some (1, ''f.xml''), output_option = None, shm_option = False\<rparr>)"
  by (rule config_file_forms) simp

theorem unknown_option_ignored_witness:
  "command_line [''ds'', ''--shared-memory'', ''-c'', ''f''] = command_line [''ds'', ''-c'', ''f'']
   \<and> (case command_line [''ds'', ''-c'', ''f''] of Inr opt \<Rightarrow> \<not> shm_option opt | Inl e \<Rightarrow> False)"
proof -
  have "\<not> streq (longopt d) ''shared-memory''" if "d \<in> set program_usage" for d
    using that by (auto simp: program_usage_def)
  then have "command_line (''ds'' # (''--'' @ ''shared-memory'') # [''-c'', ''f'']) = command_line (''ds'' # [''-c'', ''f''])"
    by (rule unknown_option_ignored [rotated]) simp_all
  moreover have "case command_line [''ds'', ''-c'', ''f''] of Inr opt \<Rightarrow> \<not> shm_option opt | Inl e \<Rightarrow> False"
    by code_simp
  ultimately show ?thesis by simp
qed

end
