(* ===== verification/Usage_Contract.thy ===== *)
theory Usage_Contract
  imports Usage_Parts Program_Messages Command_Line_Contract
begin

text \<open>
  What the usage printer and the messages of the program promise: it always returns, it visits the parts
  of a row line by line, a wrapped text is complete and fits, and what the program writes for each reading of its arguments.
\<close>

section \<open>The line wrapper\<close>

text \<open>
  C23: The ring buffer of the line wrapper is a queue: process breaks its text into lines, writes
  the first of all lines that wait or as many as the buffer cannot hold, and flush writes the
  others in order, each indented.
\<close>

theorem wrapper_refines_queue:
  assumes "2 \<le> wrap_width w" "queued w q" "len \<le> length data"
    and ls: "ls = q @ break_lines clz (wrap_width w) (take len data)" and n: "n = max 1 (length ls - bufmask)"
  shows "\<exists>w' w''. wrap_process clz w data len out = Some (w', out @ lines_text (wrap_x w) False (take n ls))
    \<and> queued w' (drop n ls)
    \<and> flush w' out' = Some (w'', out' @ (if drop n ls = [] then []
          else margin (wrap_x w) @ lines_text (wrap_x w) False (drop n ls) @ newline))
    \<and> queued w'' []"
proof -
  obtain w' where w': "wrap_process clz w data len out = Some (w', out @ lines_text (wrap_x w) False (take n ls))"
    "queued w' (drop n ls)" "same_margins w w'"
    using wrap_process_queued [OF assms(1-4), of out] unfolding n beyond_def by blast
  then show ?thesis using flush_queued [OF w'(2), of out'] by (auto simp: same_margins_def)
qed

text \<open>
  C26: A text given to a new line wrapper is written in lines of which none is wider than the
  columns it has, counted in UTF-8 with wide characters as two, and the lines are the text but for
  single spaces between them.
\<close>

theorem wrapped_text_fits:
  assumes "len \<le> length data" and width: "width = max 2 (x2 - x1)"
  shows "\<exists>w w' ls n.
    wrap_process clz (new_LineWrapper x1 x2) data len out = Some (w, out @ lines_text x1 False (take n ls))
    \<and> flush w out' = Some (w', out' @ (if drop n ls = [] then [] else margin x1 @ lines_text x1 False (drop n ls) @ newline))
    \<and> (\<forall>l\<in>set ls. int (screen_columns clz l) \<le> width)
    \<and> (\<exists>seps. length seps = length ls \<and> set seps \<subseteq> {[], '' ''} \<and> concat (map2 (@) ls seps) = take len data)"
proof -
  let ?w = "new_LineWrapper x1 x2"
  have w: "wrap_width ?w = width" "wrap_x ?w = x1" "2 \<le> width" by (auto simp: new_LineWrapper_def width)
  define ls where "ls = break_lines clz width (take len data)"
  define n where "n = max 1 (beyond ls)"
  obtain w1 where w1: "wrap_process clz ?w data len out = Some (w1, out @ lines_text x1 False (take n ls))"
    "queued w1 (drop n ls)" "same_margins ?w w1"
    using wrap_process_queued [OF _ queued_new assms(1), of x1 x2 ls clz out] unfolding w n_def by (auto simp: ls_def w(3))
  obtain w2 where "flush w1 out' = Some (w2, out' @ (if drop n ls = [] then []
      else margin x1 @ lines_text x1 False (drop n ls) @ newline))"
    using flush_queued [OF w1(2), of out'] same_marginsD [OF w1(3)] w(2) by auto
  with w1(1) show ?thesis
    using break_lines_effect [OF w(3), of clz "take len data"] unfolding ls_def [symmetric]
    by (intro exI [of _ w1] exI [of _ w2] exI [of _ ls] exI [of _ n]) simp
qed

text \<open>After a line break the column is not reset when there is nothing to indent.\<close>

lemma indent_keeps_column: "0 < x \<Longrightarrow> indent out x 0 = (x, out @ newline)"
  by (simp add: indent_def)

section \<open>The usage message\<close>

text \<open>
  C24: printUsage returns for every table of descriptors, every width and all percentages, the
  arithmetic of int taken as exact (which the documented 0 to 100 percent guarantee): its loops
  end, no access leaves the arrays of columns or the line buffer, and no null pointer is
  dereferenced.
\<close>

theorem printUsage_returns:
  "\<exists>text. printUsage clz usage width last_column_min_percent last_column_own_line_max_percent out = Some text"
  by (rule printUsage_total)

text \<open>
  C25: The iterator over the parts of a row, a scan of the row for every line of its block,
  returns exactly what the row says: line by line and column by column the text of the cell, with
  an empty part for a cell that has fewer lines.
\<close>

theorem row_parts_visited:
  assumes "rowstart it = Some r"
  shows "map_option snd (while_next clz collect (restartRow it) []) = Some (row_parts r)"
  by (rule while_next_parts [OF assms])

text \<open>Characters of ASCII are not decoded.\<close>

lemma unsigned_char_ascii: "\<not> digit7 c \<Longrightarrow> \<not> unsigned_char c > 0xC1"
proof -
  assume "\<not> digit7 c"
  then have c: "(of_char c :: nat) < 128" by (cases c) (simp split: if_splits)
  have "unsigned_char c = of_nat (of_char c :: nat)" by (simp add: unsigned_char_def of_char_def)
  with c show ?thesis by (simp add: word_less_nat_alt unat_of_nat)
qed

lemma decode_code [code]:
  "decode clz c cs =
     (if digit7 c \<and> unsigned_char c > 0xC1
      then let mask = drop_bit (clz (unsigned_char c XOR 0xFF)) (- 1);
               (ch, n) = continuation cs (unsigned_char c AND mask)
           in (ch \<ge> 0x1100 \<and> isWideChar ch, n)
      else (False, 0))"
  using unsigned_char_ascii [of c] by (cases "digit7 c") (simp_all add: decode_def)

definition usage_lines :: "string list" where
  "usage_lines =
     [[], ''eProsima Discovery Server configuration execution tool'', [], ''Usage: tool -c donfig_file.xml [-s]'', [],
      ''  -h  --help       Produce help message.'', [],
      ''  -c  --config-file  Mandatory configuration file path'', [],
      ''  -o  --output-file  File to write result snapshots. If not specified snapshots'',
      ''      will be written in the file specified in the snapshot'', [],
      ''  -s  --shared-memory     Disable Shared Memory.'', []]"

lemma program_usage_printed:
  "printUsage clz program_usage 80 50 75 [] = Some (concat (map (\<lambda>l. l @ newline) usage_lines))"
  by code_simp

section \<open>Messages of the program\<close>

fun after_commas :: "string list \<Rightarrow> string" where
  "after_commas [] = []"
| "after_commas (w # ws) = '', '' @ w @ after_commas ws"

fun in_one_line :: "string list \<Rightarrow> string" where
  "in_one_line [] = []"
| "in_one_line (w # ws) = w @ after_commas ws"

lemma unknown_arguments_listed:
  assumes "n \<le> length args" "0 < n"
  shows "unknown_arguments args sep n = Inr (sep @ in_one_line (rev (take n args)))"
proof -
  have "unknown_arguments args '', '' n = Inr (after_commas (rev (take n args)))" if "n \<le> length args" for n
    using that by (induction n) (simp_all add: take_Suc_conv_app_nth)
  moreover obtain k where "n = Suc k" using assms(2) by (cases n) simp_all
  ultimately show ?thesis using assms(1) by (simp add: take_Suc_conv_app_nth)
qed

definition message_for :: "string list \<Rightarrow> bool \<times> Option list \<times> string list \<Rightarrow> (int \<times> string) option" where
  "message_for args r =
     (let (ok, opts, rest) = r
      in if \<not> ok then Some (1, [])
         else if rest \<noteq> []
         then Some (1, ''Unknown '' @ (if length rest = 1 then ''argument: '' else ''arguments: '')
                @ in_one_line (rev rest) @ newline)
         else if list_ex (has_index HELP) opts \<or> args = [] then Some (0, concat (map (\<lambda>l. l @ newline) usage_lines))
         else
           (case filter (has_index CONFIG_FILE) opts of
              [] \<Rightarrow> Some (1, ''Specify configuration file is mandatory: use -c or --config-file option.'' @ newline)
            | [_] \<Rightarrow> None
            | _ \<Rightarrow> Some (1, ''Only one configuration file can be specified.'' @ newline)))"

lemma main_message_effect:
  assumes args: "args = drop 1 argv" and reads: "read_arguments program_usage True args = (ok, opts, rest)"
    and few: "length opts \<le> option_limit"
  shows "main_message clz argv = Inr (message_for args (ok, opts, rest))"
proof -
  have all: "take option_limit opts = opts" using few by simp
  obtain buffer_max options_max p mem where
    count: "count_arguments False program_usage (int (length args)) args 0 False (1, 1) =
      Inr ((buffer_max, options_max), args)"
    and parse: "parse_arguments False program_usage (int (length args)) args 0 False (- 1)
        (new_parser, new_arrays options_max buffer_max) = Inr (args, p, mem)"
    and p: "err p \<longleftrightarrow> \<not> ok \<or> option_limit < length opts" "nonop_count p = (if err p then 0 else int (length rest))"
      "nonop_args p = (if err p then [] else rest)"
    and bound: "\<forall>d\<in>set program_usage. desc_index d < options_max"
    and lists: "\<forall>i<options_max. lists_options mem i (filter (has_index i) opts)"
    using parser_reads_effect [OF program_usage_quiet reads] unfolding all by blast
  have err: "err p \<longleftrightarrow> \<not> ok" using p(1) few by simp
  have at: "\<exists>n. mem (Options i) = Some n \<and> used n = list_ex (has_index i) opts \<and>
      (filter (has_index i) opts = [] \<or> option_count mem (Options i) = Inr (length (filter (has_index i) opts)))"
    if "i \<in> {HELP, CONFIG_FILE}" for i
  proof -
    have "i \<in> desc_index ` set program_usage" using that by (auto simp: program_usage_def)
    then have "lists_options mem i (filter (has_index i) opts)" using bound lists by auto
    then show ?thesis by (rule lists_options_used) fastforce+
  qed
  obtain h c where h: "mem (Options HELP) = Some h" "used h = list_ex (has_index HELP) opts"
    and c: "mem (Options CONFIG_FILE) = Some c" "used c = list_ex (has_index CONFIG_FILE) opts"
      "filter (has_index CONFIG_FILE) opts = [] \<or>
        option_count mem (Options CONFIG_FILE) = Inr (length (filter (has_index CONFIG_FILE) opts))"
    using at [of HELP] at [of CONFIG_FILE] by auto
  have chosen: "list_ex (has_index CONFIG_FILE) opts \<longleftrightarrow> filter (has_index CONFIG_FILE) opts \<noteq> []"
    by (auto simp: list_ex_iff filter_empty_conv)
  have "early_message clz (int (length args)) p mem = Inr (message_for args (ok, opts, rest))"
  proof (cases "\<not> ok \<or> rest \<noteq> [] \<or> list_ex (has_index HELP) opts \<or> args = []")
    case True
    then show ?thesis
      using unknown_arguments_listed [of "length rest" rest]
      by (auto simp: early_message_def message_for_def err p(2,3) Let_def load_node_def h valid_run_def program_usage_printed)
  next
    case False
    then show ?thesis
      using c(3) by (auto simp: early_message_def message_for_def err p(2,3) Let_def load_node_def h c(1,2) chosen
          split: list.split)
  qed
  then show ?thesis
    unfolding main_message_def Let_def args [symmetric] count parse bind_run_simps prod.case .
qed

text \<open>The message and what the program does with the options: it returns the code, or it has one path.\<close>

text \<open>
  C22: What main writes and returns before it makes a manager, for every reading of its arguments:
  nothing for a refused argument, the arguments it does not know last one first, the usage message
  with its exact text, or what is wrong with the configuration file; it goes on exactly when there
  is one configuration file, and the model of the run agrees with the code that is returned.
\<close>

theorem main_message_reads:
  assumes args: "args = drop 1 argv" and reads: "read_arguments program_usage True args = (ok, opts, rest)"
    and few: "length opts \<le> option_limit"
  shows "main_message clz argv = Inr (message_for args (ok, opts, rest))
    \<and> (case message_for args (ok, opts, rest) of
         Some (code, _) \<Rightarrow>
           main_program X C D P G clk std_sort waiting load_file dbg img argv w = Inr (code, None, None)
       | None \<Rightarrow> \<exists>opt path. command_line argv = Inr opt \<and> config_option opt = Some (1, path)
           \<and> \<not> parse_error opt \<and> non_options opt = 0 \<and> \<not> show_help opt \<and> \<not> no_arguments opt)"
proof -
  note cl = command_line_reads [OF args reads few]
  show ?thesis
    using main_message_effect [OF args reads few, of clz]
    by (auto simp: main_program_def cl message_for_def options_read_def program_def split: list.split)
qed

section \<open>Instances\<close>

text \<open>Three lines in a width of eight columns; the wrapper holds two of them back.\<close>

theorem wrapper_refines_queue_witness:
  "break_lines (\<lambda>_. 0) 8 ''write the result'' = [''write'', ''the'', ''result'']
   \<and> (\<exists>w' w''. wrap_process (\<lambda>_. 0) (new_LineWrapper 2 10) ''write the result'' 16 [] = Some (w', ''write'')
        \<and> flush w' newline = Some (w'', newline @ ''  the'' @ newline @ ''  result'' @ newline))"
proof -
  have lines: "break_lines (\<lambda>_. 0) 8 ''write the result'' = [''write'', ''the'', ''result'']" by code_simp
  have "max 1 (length [''write'', ''the'', ''result''] - bufmask) = 1" by (simp add: bufmask_def)
  moreover have "wrap_width (new_LineWrapper 2 10) = 8" "wrap_x (new_LineWrapper 2 10) = 2"
    by (simp_all add: new_LineWrapper_def)
  moreover have "margin 2 = ''  ''" by code_simp
  ultimately have "\<exists>w' w''. wrap_process (\<lambda>_. 0) (new_LineWrapper 2 10) ''write the result'' 16 [] = Some (w', ''write'')
        \<and> flush w' newline = Some (w'', newline @ ''  the'' @ newline @ ''  result'' @ newline)"
    using wrapper_refines_queue [of "new_LineWrapper 2 10" "[]" 16 "''write the result''" "[''write'', ''the'', ''result'']"
        "\<lambda>_. 0" 1 "[]" newline] queued_new [of 2 10] lines by auto
  with lines show ?thesis by blast
qed

text \<open>The example of the documentation, \<open>1 \v 3 \t 2 \v 4\<close>: the parts in the order of their numbers.\<close>

theorem row_parts_visited_witness:
  "\<exists>it. map_option snd (while_next (\<lambda>_. 0) collect (restartRow it) []) =
     Some [(0, 0, ''1''), (1, 0, ''2''), (0, 1, ''3''), (1, 1, ''4'')]"
proof -
  let ?r = "[CHR ''1'', CHR 0x0B, CHR ''3'', CHR 0x09, CHR ''2'', CHR 0x0B, CHR ''4'']"
  have "row_parts ?r = [(0, 0, ''1''), (1, 0, ''2''), (0, 1, ''3''), (1, 1, ''4'')]" by code_simp
  then show ?thesis
    using row_parts_visited [of "(new_LinePartIterator [])\<lparr>rowstart := Some ?r\<rparr>" ?r "\<lambda>_. 0"] by fastforce
qed

theorem wrapped_text_fits_witness:
  "\<exists>w w' ls n. wrap_process (\<lambda>_. 0) (new_LineWrapper 0 4) ''a bcdefg'' 8 [] = Some (w, lines_text 0 False (take n ls))
     \<and> flush w [] = Some (w', if drop n ls = [] then [] else margin 0 @ lines_text 0 False (drop n ls) @ newline)
     \<and> (\<forall>l\<in>set ls. int (screen_columns (\<lambda>_. 0) l) \<le> 4)"
proof -
  have width: "4 = max 2 (4 - 0 :: int)" and len: "8 \<le> length ''a bcdefg''" by simp_all
  show ?thesis
    using wrapped_text_fits [OF len width, of "\<lambda>_. 0" "[]" "[]"] unfolding append_Nil by blast
qed

theorem main_message_reads_witness:
  "main_message (\<lambda>_. 0) [''ds'', ''-s'', ''a.xml'', ''b.xml''] = Inr (Some (1, ''Unknown arguments: b.xml, a.xml'' @ newline))
   \<and> main_message (\<lambda>_. 0) [''ds'', ''-s''] =
       Inr (Some (1, ''Specify configuration file is mandatory: use -c or --config-file option.'' @ newline))"
proof -
  have "case read_arguments program_usage True [''-s'', ''a.xml'', ''b.xml''] of (ok, opts, rest) \<Rightarrow>
      ok \<and> length opts = 1 \<and> rest = [''a.xml'', ''b.xml'']" by code_simp
  then obtain opts where a: "read_arguments program_usage True [''-s'', ''a.xml'', ''b.xml''] = (True, opts, [''a.xml'', ''b.xml''])"
    "length opts = 1" by (auto split: prod.splits)
  have "case read_arguments program_usage True [''-s''] of (ok, opts, rest) \<Rightarrow>
      ok \<and> length opts = 1 \<and> rest = [] \<and> \<not> list_ex (has_index HELP) opts \<and> filter (has_index CONFIG_FILE) opts = []" by code_simp
  then obtain opts' where b: "read_arguments program_usage True [''-s''] = (True, opts', [])" "length opts' = 1"
    "\<not> list_ex (has_index HELP) opts'" "filter (has_index CONFIG_FILE) opts' = []" by (auto split: prod.splits)
  have "main_message (\<lambda>_. 0) [''ds'', ''-s'', ''a.xml'', ''b.xml''] =
      Inr (message_for [''-s'', ''a.xml'', ''b.xml''] (True, opts, [''a.xml'', ''b.xml'']))"
    by (rule main_message_reads [OF _ a(1), THEN conjunct1]) (simp_all add: a(2) option_limit_def)
  moreover have "main_message (\<lambda>_. 0) [''ds'', ''-s''] = Inr (message_for [''-s''] (True, opts', []))"
    by (rule main_message_reads [OF _ b(1), THEN conjunct1]) (simp_all add: b(2) option_limit_def)
  ultimately show ?thesis using b(3,4) by (simp add: message_for_def)
qed

end
