(* ===== verification/Printing.thy ===== *)
theory Printing
  imports Snapshot_Xml Manager Text_Parsing
begin

text \<open>
  The stream operators: what is logged of a snapshot and of the statuses of a discovery callback, as text.
  A GUID is printed by an operator of Fast DDS and a calendar time by \<open>std::put_time\<close>, which are
  parameters.
\<close>

section \<open>Numbers\<close>

definition digit_char :: "nat \<Rightarrow> char" where
  "digit_char d = char_of (48 + d)"

text \<open>A \<open>size_type\<close> or a count of milliseconds, in decimal.\<close>

fun show_nat :: "nat \<Rightarrow> string" where
  "show_nat n = (if n < 10 then [digit_char n] else show_nat (n div 10) @ [digit_char (n mod 10)])"

declare show_nat.simps [simp del]

definition show_int :: "int \<Rightarrow> string" where
  "show_int i = (if i < 0 then CHR ''-'' # show_nat (nat (- i)) else show_nat (nat i))"

text \<open>\<open>std::setw\<close> and \<open>std::setfill\<close>.\<close>

definition pad_left :: "nat \<Rightarrow> char \<Rightarrow> string \<Rightarrow> string" where
  "pad_left n c s = replicate (n - length s) c @ s"

definition endl :: string where
  "endl = [CHR 0x0A]"

definition tab :: string where
  "tab = [CHR 0x09]"

section \<open>Items\<close>

definition print_datawriter :: "('g \<Rightarrow> string) \<Rightarrow> 'g DataWriterDiscoveryItem \<Rightarrow> string" where
  "print_datawriter G di =
     ''DataWriter '' @ G (endpoint_guid di) @ '' TypeName: '' @ type_name di @ '' TopicName: '' @ topic_name di"

definition print_datareader :: "('g \<Rightarrow> string) \<Rightarrow> 'g DataReaderDiscoveryItem \<Rightarrow> string" where
  "print_datareader G di =
     ''DataReader '' @ G (endpoint_guid di) @ '' TypeName: '' @ type_name di @ '' TopicName: '' @ topic_name di
     @ '' liveliness, alive_count: '' @ show_int (sint (alive_count di))
     @ '' not_alive_count: '' @ show_int (sint (not_alive_count di))"

definition print_participant :: "('g \<Rightarrow> string) \<Rightarrow> 'g ParticipantDiscoveryItem \<Rightarrow> string" where
  "print_participant G di =
     (if is_alive di then tab else tab @ '' Zombie'') @ '' Participant ''
     @ (if participant_name di \<noteq> [] then participant_name di @ '' '' else [])
     @ G (endpoint_guid di)
     @ (if CountEndpoints di > 0 then '' has:'' @ endl else [])
     @ (if length (datawriters di) \<noteq> 0
        then tab @ tab @ show_nat (length (datawriters di)) @ '' datawriters:'' @ endl
          @ concat (map (\<lambda>pdi. tab @ tab @ tab @ print_datawriter G pdi @ endl) (datawriters di))
        else [])
     @ (if length (datareaders di) \<noteq> 0
        then tab @ tab @ show_nat (length (datareaders di)) @ '' datareaders:'' @ endl
          @ concat (map (\<lambda>sdi. tab @ tab @ tab @ print_datareader G sdi @ endl) (datareaders di))
        else [])"

definition print_database :: "('g \<Rightarrow> string) \<Rightarrow> 'g ParticipantDiscoveryDatabase \<Rightarrow> string" where
  "print_database G db =
     ''Participant '' @ G (endpoint_guid db) @ '' discovered '' @ show_nat (Db_CountParticipants db) @ '' participants, ''
     @ show_nat (Db_CountDataWriters db) @ '' datawriters and '' @ show_nat (Db_CountDataReaders db)
     @ '' datareaders:'' @ endl
     @ concat (map (\<lambda>pt. print_participant G pt @ endl) (participants db))"

section \<open>Snapshots\<close>

text \<open>
  \<open>to_time_t\<close> drops the fraction of a second. \<open>put_time\<close> is the local calendar time of a number of
  seconds, in the format of the code.
\<close>

definition to_time_t :: "time_point \<Rightarrow> int" where
  "to_time_t tp = sgn tp * (\<bar>tp\<bar> div 1000000000)"

definition getTimeStamp :: "clocks \<Rightarrow> (int \<Rightarrow> string) \<Rightarrow> time_point \<Rightarrow> string" where
  "getTimeStamp clk put_time snap_time =
     (let tp = getSystemTime clk snap_time;
          time = to_time_t tp;
          ms = duration_cast_ms (tp - time * 1000000000)
      in put_time time @ pad_left 3 (CHR ''0'') (show_int ms) @ '' '')"

definition print_snapshot :: "('g \<Rightarrow> string) \<Rightarrow> clocks \<Rightarrow> (int \<Rightarrow> string) \<Rightarrow> 'g Snapshot \<Rightarrow> string" where
  "print_snapshot G clk put_time shot =
     (let since = (\<lambda>t. show_int (duration_cast_ms (t - process_startup shot)))
      in ''Snapshot taken at '' @ getTimeStamp clk put_time (snapshot_time shot) @ ''or ''
         @ since (snapshot_time shot) @ '' ms since process startup.''
         @ '' Description: '' @ description shot @ endl
         @ ''Snapshot process startup at '' @ getTimeStamp clk put_time (process_startup shot) @ endl
         @ ''Last PDP callback at '' @ getTimeStamp clk put_time (last_PDP_callback shot) @ ''or ''
         @ since (last_PDP_callback shot) @ '' ms since process startup.'' @ endl
         @ ''Last EDP callback at '' @ getTimeStamp clk put_time (last_EDP_callback shot) @ ''or ''
         @ since (last_EDP_callback shot) @ '' ms since process startup.'' @ endl
         @ show_nat (length (databases shot)) @ '' participants report the following discovery info:'' @ endl
         @ concat (map (\<lambda>db. print_database G db @ endl) (databases shot)))"

section \<open>Statuses\<close>

text \<open>\<open>None\<close> sets \<open>failbit\<close>: nothing more is written to the stream.\<close>

fun print_participant_status :: "ParticipantDiscoveryStatus \<Rightarrow> string option" where
  "print_participant_status DISCOVERED_PARTICIPANT = Some ''DISCOVERED_PARTICIPANT''"
| "print_participant_status CHANGED_QOS_PARTICIPANT = Some ''CHANGED_QOS_PARTICIPANT''"
| "print_participant_status REMOVED_PARTICIPANT = Some ''REMOVED_PARTICIPANT''"
| "print_participant_status DROPPED_PARTICIPANT = Some ''DROPPED_PARTICIPANT''"
| "print_participant_status (OTHER_PARTICIPANT_STATUS n) = None"

fun print_reader_status :: "ReaderDiscoveryStatus \<Rightarrow> string option" where
  "print_reader_status DISCOVERED_READER = Some ''DISCOVERED_READER''"
| "print_reader_status CHANGED_QOS_READER = Some ''CHANGED_QOS_READER''"
| "print_reader_status REMOVED_READER = Some ''REMOVED_READER''"
| "print_reader_status (OTHER_READER_STATUS n) = None"

fun print_writer_status :: "WriterDiscoveryStatus \<Rightarrow> string option" where
  "print_writer_status DISCOVERED_WRITER = Some ''DISCOVERED_WRITER''"
| "print_writer_status CHANGED_QOS_WRITER = Some ''CHANGED_QOS_WRITER''"
| "print_writer_status REMOVED_WRITER = Some ''REMOVED_WRITER''"
| "print_writer_status (OTHER_WRITER_STATUS n) = None"

section \<open>What the text shows\<close>

text \<open>A printed number is a number that the reader of the configuration reads back.\<close>

lemma digit_char: "d < 10 \<Longrightarrow> is_digit (digit_char d)" "d < 10 \<Longrightarrow> digit_value (digit_char d) = d"
  by (simp_all add: is_digit_def digit_value_def digit_char_def)

lemma show_nat_digits: "list_all is_digit (show_nat n)"
proof (induction n rule: show_nat.induct)
  case (1 n)
  then show ?case by (subst show_nat.simps) (auto simp: digit_char)
qed

lemma decimal_append: "decimal n (cs @ ds) = decimal (decimal n cs) ds"
  by (induction cs arbitrary: n) simp_all

lemma decimal_show_nat [simp]: "decimal 0 (show_nat n) = n"
proof (induction n rule: show_nat.induct)
  case (1 n)
  show ?case
  proof (cases "n < 10")
    case True
    then show ?thesis by (subst show_nat.simps) (simp add: digit_char)
  next
    case False
    then show ?thesis using "1.IH" by (subst show_nat.simps) (simp add: decimal_append digit_char)
  qed
qed

lemma show_nat_nonempty [simp]: "show_nat n \<noteq> []"
  by (subst show_nat.simps) simp

lemma std_stol_show_nat: "n < 2 ^ 63 \<Longrightarrow> std_stol (show_nat n) = Inr (int n)"
  by (simp add: std_stol_def)

text \<open>The report of a database line by line: a participant with endpoints is followed by an empty line.\<close>

definition unlines :: "string list \<Rightarrow> string" where
  "unlines ls = concat (map (\<lambda>l. l @ endl) ls)"

lemma unlines_simps [simp]: "unlines [] = []" "unlines (l # ls) = l @ endl @ unlines ls"
    "unlines (ls @ ms) = unlines ls @ unlines ms"
  by (simp_all add: unlines_def)

definition participant_lines :: "('g \<Rightarrow> string) \<Rightarrow> 'g ParticipantDiscoveryItem \<Rightarrow> string list" where
  "participant_lines G p =
     [(if is_alive p then tab else tab @ '' Zombie'') @ '' Participant ''
        @ (if participant_name p \<noteq> [] then participant_name p @ '' '' else []) @ G (endpoint_guid p)
        @ (if CountEndpoints p > 0 then '' has:'' else [])]
     @ (if datawriters p = [] then []
        else (tab @ tab @ show_nat (length (datawriters p)) @ '' datawriters:'')
             # map (\<lambda>w. tab @ tab @ tab @ print_datawriter G w) (datawriters p))
     @ (if datareaders p = [] then []
        else (tab @ tab @ show_nat (length (datareaders p)) @ '' datareaders:'')
             # map (\<lambda>r. tab @ tab @ tab @ print_datareader G r) (datareaders p))
     @ (if CountEndpoints p > 0 then [[]] else [])"

lemma unlines_map: "unlines (map f xs) = concat (map (\<lambda>x. f x @ endl) xs)"
  by (induction xs) simp_all

lemma print_participant_lines: "print_participant G p @ endl = unlines (participant_lines G p)"
  by (auto simp: print_participant_def participant_lines_def unlines_map CountEndpoints_def)

lemma Db_Count_sum:
  "Db_CountDataReaders db = sum_list (map (\<lambda>p. length (datareaders p)) (participants db))"
  "Db_CountDataWriters db = sum_list (map (\<lambda>p. length (datawriters p)) (participants db))"
proof -
  have "fold (\<lambda>p n. n + f p) ps n = n + sum_list (map f ps)" for f :: "'b \<Rightarrow> nat" and ps n
    by (induction ps arbitrary: n) simp_all
  from this [of Part_CountDataReaders "participants db" 0] this [of Part_CountDataWriters "participants db" 0]
  show "Db_CountDataReaders db = sum_list (map (\<lambda>p. length (datareaders p)) (participants db))"
    "Db_CountDataWriters db = sum_list (map (\<lambda>p. length (datawriters p)) (participants db))"
    by (simp_all add: Db_CountDataReaders_def Db_CountDataWriters_def Part_CountDataReaders_def [abs_def] Part_CountDataWriters_def [abs_def])
qed

lemma print_database_lines:
  "print_database G db = unlines
     ((''Participant '' @ G (endpoint_guid db) @ '' discovered '' @ show_nat (length (participants db)) @ '' participants, ''
        @ show_nat (sum_list (map (\<lambda>p. length (datawriters p)) (participants db))) @ '' datawriters and ''
        @ show_nat (sum_list (map (\<lambda>p. length (datareaders p)) (participants db))) @ '' datareaders:'')
      # concat (map (participant_lines G) (participants db)))"
proof -
  have "unlines (concat (map (participant_lines G) ps)) = concat (map (\<lambda>p. print_participant G p @ endl) ps)" for ps
    by (induction ps) (simp_all add: print_participant_lines)
  then show ?thesis by (simp add: print_database_def Db_Count_sum Db_CountParticipants_def)
qed

end
