(* ===== verification/Spec2Isabelle.thy ===== *)
theory Spec2Isabelle
  imports Program_Progress Usage_Contract Printing
begin

text \<open>
  A verification development for eProsima Discovery Server, the test tool under \<open>src/src\<close> and
  \<open>src/include\<close>. The tool reads a configuration file, creates Fast DDS participants and endpoints and
  destroys them at the times the file gives, records in a database what every one of its participants
  discovers, takes snapshots of that database, and validates the snapshots: in a sound discovery
  network everybody knows everybody else. The exit code is the verdict.

  Parts and how they interact. \<open>main.cpp\<close> constructs a \<open>DiscoveryServerManager\<close> from a file, calls
  \<open>runEvents\<close>, validates and calls \<open>onTerminate\<close>. The constructor turns XML elements into events
  (\<open>LateJoiner.h\<close>); an event changes the registries of the manager and calls Fast DDS; Fast DDS calls
  the \<open>on_...\<close> members back, which write to the \<open>DiscoveryItemDatabase\<close> (\<open>DiscoveryItem.cpp\<close>); a
  snapshot event copies its image into the list of snapshots, which is written to and read from XML.

  Theories, in the order the program is built up:

    \<^item> \<open>Prelude\<close>: faults (null pointers, failed assertions, uncaught exceptions) as the left side of a
      sum, runs, folds over runs, times in nanoseconds.
    \<^item> \<open>Std_Set\<close>, \<open>Std_Map\<close>: \<open>std::set\<close> and \<open>std::map\<close> as sorted lists, with the locale of look-up,
      insertion and erasure laws the databases and registries rely on.
    \<^item> \<open>Discovery_Items\<close>, \<open>Discovery_Database\<close>: the classes of \<open>DiscoveryItem.h\<close> as records and the
      operations of \<open>DiscoveryItem.cpp\<close>; an operation returns its result and the next image.
    \<^item> \<open>Database_Facts\<close>, \<open>Discovery_Contract\<close>: what the database promises. An image is abstracted to the
      function from spokesman and participant to what is recorded; every operation refines an update of
      that function; images reachable through the public operations are well formed.
    \<^item> \<open>Database_Compare\<close>: \<open>operator ==\<close> of databases, a loop over two iterators that skip dead
      participants, and the equivalence with its plain specification: for databases that do not list
      themselves, and for all (\<open>Database_eq_exact\<close>).
    \<^item> \<open>Snapshots\<close>: \<open>takeSnapshot\<close>, merging, \<open>allKnowEachOther\<close>, \<open>validateAllSnapshots\<close>.
    \<^item> \<open>Snapshot_Xml\<close>, \<open>Snapshot_Roundtrip\<close>: \<open>to_xml\<close>, \<open>from_xml\<close>, \<open>saveSnapshots\<close>, \<open>loadSnapshots\<close>, and what
      survives a file. \<open>Snapshot_Load\<close>: a file read from anywhere gives a well formed list.
    \<^item> \<open>Manager\<close>, \<open>Manager_Facts\<close>, \<open>Manager_Contract\<close>: the members of \<open>DiscoveryServerManager\<close> as a
      record, its registries, discovery callbacks and termination; a step relation over all of them
      and its invariant.
    \<^item> \<open>Late_Joiner\<close>, \<open>Late_Joiner_Contract\<close>: the call operators of the events of \<open>LateJoiner.h\<close> and
      \<open>LateJoiner.cpp\<close>, \<open>createEndpoint\<close>, \<open>runEvents\<close>; what each event does to the registries.
    \<^item> \<open>Event_Schedule\<close>, \<open>Event_Run\<close>: the part of the event store that decides what a run does, and the
      order and the snapshots of a whole run. \<open>Registry\<close>, \<open>Run_Progress\<close>: which participants exist when, and
      that no event of a run meets a null pointer.
    \<^item> \<open>Text_Parsing\<close>, \<open>Configuration\<close>, \<open>Configuration_Invariant\<close>: numbers and addresses, the \<open>load...\<close>
      members of \<open>DiscoveryServerManager.cpp\<close>, and the invariant that every event is pushed once, is well
      linked and lies near the start.
    \<^item> \<open>Configuration_Steps\<close>: the constructor as a sequence of steps with a locale of what a step keeps.
    \<^item> \<open>Program\<close>, \<open>Program_Contract\<close>, \<open>Program_Progress\<close>: the constructor, the destructor and \<open>main\<close> behind
      its command line, the meaning of the exit code, and that a run on a configuration returns.
    \<^item> \<open>Option_Parser\<close>: the command line parser of \<open>optionparser.h\<close>. \<open>Linked_Options\<close>: its circular lists
      with tagged ends as lists. \<open>Option_Reading\<close>, \<open>Option_Storage\<close>: a plain reading of the arguments and the
      proof that the two passes implement it. \<open>Command_Line\<close>, \<open>Command_Line_Contract\<close>: \<open>arguments.h\<close> and
      what \<open>main\<close> takes from its argument vector.
    \<^item> \<open>Usage_Text\<close>, \<open>Usage_Printing\<close>: \<open>printUsage\<close> of \<open>optionparser.h\<close>, the line wrapper and the iterator over
      help texts. \<open>Usage_Wrapping\<close>: its ring buffer as a queue of lines. \<open>Usage_Layout\<close>: its loops end.
      \<open>Usage_Parts\<close>: the parts that the iterator returns for a row.
      \<open>Program_Messages\<close>, \<open>Usage_Contract\<close>: what \<open>main\<close> writes before it makes a manager.
    \<^item> \<open>Printing\<close>: the stream operators as functions to strings.

  State and calls. A member function that changes the manager takes it and returns the new one; a call
  of Fast DDS takes and returns the state of the world \<open>'w\<close>. Fast DDS (\<open>dds\<close>), tinyxml2 (\<open>tinyxml2\<close>), the
  QoS and profiles (\<open>config\<close>), the platform (\<open>platform\<close>), GUID texts and clocks are records of functions
  passed as arguments; the laws a theorem needs of them are its hypotheses, and each witness gives an
  instance. Assertions are tested under the flag \<open>dbg\<close>, which is false in a release build. Pointers to
  events are addresses in \<open>event_store\<close>. What the threads of Fast DDS do while the program sleeps is the
  parameter \<open>waiting\<close> of \<open>runEvents\<close>. An operation of the database holds its mutex to the end and is one
  step. A discovery callback locks \<open>management_mutex\<close> for the registries and then the mutex of the
  database for the update; the model makes one step of both, so that two callbacks do not interleave
  between the locks. The clocks of a process are fixed when it starts: a file is written under the
  clocks of one process and read under those of another.

  Bounds. No definition uses fuel: a loop of the code is a structural recursion, a fold, or a recursion
  with a measure; the walks along linked options and the loops of \<open>printUsage\<close> are partial functions, and
  \<open>parser_reads\<close> and \<open>printUsage_returns\<close> show that they return. Times are unbounded integers;
  \<open>configured_schedule\<close> shows that those of the events are within \<open>2 ^ 62\<close> nanoseconds of the start, so
  that the 64 bits of the code do not wrap. Ports are 16-bit words, as in the transport descriptors,
  code points 32-bit words, and integers read from text are clamped to 32 bits, as the standard library
  does. The parser counts up to \<open>0x7fffffff\<close> options, \<open>option_limit\<close>.

  Not modelled. \<open>src/resources/xtypes\<close> is generated, and what it hands over is a parameter; so are the
  templates of the log and of the build. Callbacks during the construction of the manager are not
  interleaved with it, although the participants it creates already have the manager as listener; they
  write the discovery state and the times of the last callbacks, and no property says what these are
  when the constructor returns. Of the writers of \<open>printUsage\<close> only the one for streams is there, and \<open>Arg::Optional\<close>,
  which the program does not use, is not. \<open>setParentGUID\<close> and \<open>getParentGUID\<close> are declared and never defined.
\<close>

end
